(* ===== verification/Prelude.thy ===== *)
theory Prelude
  imports Main "HOL-Library.Word" "HOL-Library.Signed_Division" "HOL-Library.AList"
begin

text \<open>
  Shared vocabulary of the development: the machine types of the Go sources, the outcome type
  of operations that can panic or block, the collections of rewrite rules the component
  theories feed, and the generic lemmas on lists, association lists and words they share.

  \<^item> \<open>u64\<close> is Go's \<open>uint64\<close> (arithmetic wraps), Go's \<open>int\<close> is HOL's \<open>int\<close>;
  \<^item> a byte slice whose nilness the code tests is a \<open>bytes option\<close> (\<open>None\<close> is nil), and
    \<open>bytes_of\<close> reads it where the code only looks at its contents;
  \<^item> an operation that can panic returns \<open>panic + 'a\<close>: \<open>Inl\<close> carries the reason;
  \<^item> a Go map that is iterated or measured is an association list with distinct keys,
    updated with \<open>AList.update\<close>.
\<close>

type_synonym u64 = "64 word"
type_synonym u32 = "32 word"
type_synonym byte = "8 word"
type_synonym bytes = "8 word list"

abbreviation max_u64 :: u64 where
  "max_u64 \<equiv> - 1"

datatype panic =
    Panic string      \<comment> \<open>\<open>Logger.Panicf\<close>, \<open>panic\<close> or a nil dereference\<close>
  | Blocked string    \<comment> \<open>a send on a full channel that nobody drains\<close>

type_synonym 'a outcome = "panic + 'a"

definition andThen :: "'a outcome \<Rightarrow> ('a \<Rightarrow> 'b outcome) \<Rightarrow> 'b outcome" where
  "andThen r k = (case r of Inl p \<Rightarrow> Inl p | Inr a \<Rightarrow> k a)"

definition bytes_of :: "bytes option \<Rightarrow> bytes" where
  "bytes_of b = (case b of None \<Rightarrow> [] | Some bs \<Rightarrow> bs)"

text \<open>The value Go reads from a map at a missing key is the zero value.\<close>

definition lookup0 :: "('k \<times> 'v::zero) list \<Rightarrow> 'k \<Rightarrow> 'v" where
  "lookup0 m k = (case map_of m k of None \<Rightarrow> 0 | Some v \<Rightarrow> v)"

text \<open>Go's \<open>time.Duration\<close> is an \<open>int64\<close> of nanoseconds: the product with a count wraps around.\<close>

definition durationMul :: "int \<Rightarrow> u64 \<Rightarrow> int" where
  "durationMul d n = sint (of_int d * n)"

named_theorems model_defs \<open>definitions the component proofs unfold\<close>
named_theorems keeps_inv \<open>operations keep the invariant of their component\<close>

lemma andThen_simps [simp]:
  "andThen (Inl p) k = Inl p"
  "andThen (Inr a) k = k a"
  by (simp_all add: andThen_def)

lemma andThen_eq_Inr_iff:
  "andThen r k = Inr b \<longleftrightarrow> (\<exists>a. r = Inr a \<and> k a = Inr b)"
  by (cases r) auto

lemma andThenE:
  assumes "andThen r k = Inr y"
  obtains x where "r = Inr x" "k x = Inr y"
  using assms by (auto simp: andThen_eq_Inr_iff)

lemma bytes_of_simps [simp]:
  "bytes_of None = []"
  "bytes_of (Some bs) = bs"
  by (simp_all add: bytes_of_def)

lemma lookup0_simps [simp]:
  "lookup0 [] k = 0"
  "lookup0 ((k', v) # m) k = (if k' = k then v else lookup0 m k)"
  by (auto simp: lookup0_def)

lemma lookup0_update [simp]:
  "lookup0 (AList.update k v m) k' = (if k = k' then v else lookup0 m k')"
  by (auto simp: lookup0_def update_conv')

lemma length_filter_conv_card_distinct:
  "distinct xs \<Longrightarrow> length (filter P xs) = card {x \<in> set xs. P x}"
  by (metis distinct_card distinct_filter set_filter)

lemma distinct_length_le_set:
  "distinct xs \<Longrightarrow> set xs \<subseteq> set ys \<Longrightarrow> length xs \<le> length ys"
  by (metis List.finite_set card_mono card_length distinct_card le_trans)

lemma count_list_distinct:
  "distinct xs \<Longrightarrow> count_list xs x = (if x \<in> set xs then 1 else 0)"
  by (induction xs) auto

lemma unat_plus_one:
  "(x :: 'a::len word) \<noteq> - 1 \<Longrightarrow> unat (x + 1) = unat x + 1"
  by (metis Suc_eq_plus1 add.commute unatSuc add_eq_0_iff)

lemma unat_not_max: "unat (x :: u64) < 2 ^ 64 - 1 \<Longrightarrow> x \<noteq> - 1"
  by (auto simp: unsigned_minus_1_eq_mask mask_nat_def)

lemma less_imp_not_max: "(v :: u64) < w \<Longrightarrow> v \<noteq> - 1"
  by (metis word_order.extremum_strict)

lemma unat_add_one: "(v :: u64) < w \<Longrightarrow> unat (v + 1) = unat v + 1"
  by (simp add: unat_plus_one less_imp_not_max)

lemma counter_decreases:
  "v < w \<Longrightarrow> unat (w :: u64) - unat (v + 1) < unat w - unat v"
  by (simp add: unat_add_one word_less_nat_alt)

lemma in_set_alist_update:
  "(k, v) \<in> set (AList.update k' v' al) \<Longrightarrow> (k, v) = (k', v') \<or> (k, v) \<in> set al"
  by (induction al) (auto split: if_splits)

end
