(* ===== verification/Bytes.thy ===== *)
theory Bytes
  imports Prelude
begin

text \<open>
  Integers in byte slices: \<open>binary.LittleEndian.PutUint64\<close> and \<open>Uint64\<close> of Go's standard library, which the
  write ahead log uses for its record headers.
\<close>

unbundle bit_operations_syntax

definition le64 :: "u64 \<Rightarrow> bytes" where
  "le64 w = map (\<lambda>i. ucast (drop_bit (8 * i) w)) [0..<8]"

fun fromLe64 :: "bytes \<Rightarrow> u64" where
  "fromLe64 [] = 0"
| "fromLe64 (b # bs) = ucast b OR push_bit 8 (fromLe64 bs)"

lemma length_le64 [simp]: "length (le64 w) = 8"
  by (simp add: le64_def)

lemma bit_fromLe64_bytes:
  "bit (fromLe64 (map (\<lambda>i. ucast (drop_bit (8 * i) w)) [k..<m])) n \<longleftrightarrow>
   n < 64 \<and> n < 8 * (m - k) \<and> bit w (n + 8 * k)"
proof (induction "m - k" arbitrary: k n)
  case (Suc d)
  then have k: "[k..<m] = k # [Suc k..<m]" by (simp add: upt_rec)
  show ?case
  proof (cases "n < 8")
    case True
    then show ?thesis using Suc(2) by (auto simp: k bit_simps add.commute)
  next
    case False
    then show ?thesis using Suc(1) [of "Suc k" "n - 8"] Suc(2) by (auto simp: k bit_simps algebra_simps)
  qed
qed simp

lemma fromLe64_le64 [simp]: "fromLe64 (le64 w) = w"
  by (rule bit_word_eqI) (simp add: le64_def bit_fromLe64_bytes del: upt_rec_numeral)

lemma le64_inject [simp]: "le64 a = le64 b \<longleftrightarrow> a = b"
  using fromLe64_le64 by metis

lemma take_le64 [simp]: "take 8 (le64 w @ bs) = le64 w" "drop 8 (le64 w @ bs) = bs"
  by simp_all

end
