(* ===== verification/WalFormat.thy ===== *)
theory WalFormat
  imports Bytes
begin

text \<open>
  The format of the write ahead log (pkg/wal): a file is a sequence of frames, an 8 byte header and the
  padded record. The lower half of the header is the length of the record, the upper half the checksum over all
  records so far; the first frame of a file is an anchor that carries the checksum the file starts from. This theory
  has the checksum, the padding, the header and \<open>LogRecordReader\<close> (reader.go), and the lemmas that a
  reader gets back what was framed, also when the last frame is torn.

  The protobuf encoding of a record is the parameter \<open>logCodec\<close>. Reading a file is modelled on its contents.
\<close>

unbundle bit_operations_syntax

subsection \<open>Errors\<close>

datatype walError =
    ErrCRC
  | ErrWALUnmarshalPayload
  | ErrWriteOnly
  | ErrReadOnly
  | ErrWALAlreadyExists
  | EndOfFile                    \<comment> \<open>\<open>io.EOF\<close>\<close>
  | ErrUnexpectedEOF
  | ErrClosed
  | ErrNotExist
  | ErrInvalid
  | WalError string
  | Wrapped string walError      \<comment> \<open>\<open>fmt.Errorf\<close> with \<open>%w\<close>\<close>
  | WalPanic string

fun errors_Is :: "walError \<Rightarrow> walError \<Rightarrow> bool" where
  "errors_Is (Wrapped s e) target = errors_Is e target"
| "errors_Is e target = (e = target)"

text \<open>A panic is not an error value: nothing wraps it.\<close>

fun wrapError :: "string \<Rightarrow> walError \<Rightarrow> walError" where
  "wrapError s (WalPanic p) = WalPanic p"
| "wrapError s e = Wrapped s e"

definition tryThen :: "walError + 'a \<Rightarrow> ('a \<Rightarrow> walError + 'b) \<Rightarrow> walError + 'b" where
  "tryThen r k = (case r of Inl e \<Rightarrow> Inl e | Inr x \<Rightarrow> k x)"

lemma tryThen_simps [simp]: "tryThen (Inl e) k = Inl e" "tryThen (Inr x) k = k x"
  by (simp_all add: tryThen_def)

lemma tryThen_eq_Inr_iff: "tryThen r k = Inr y \<longleftrightarrow> (\<exists>x. r = Inr x \<and> k x = Inr y)"
  by (cases r) auto

subsection \<open>The checksum\<close>

text \<open>\<open>crc32.Update\<close> with the Castagnoli table, as documented in Go's standard library.\<close>

definition crcShift :: "u32 \<Rightarrow> u32" where
  "crcShift c = (if bit c 0 then drop_bit 1 c XOR 0x82F63B78 else drop_bit 1 c)"

definition crcTable :: "byte \<Rightarrow> u32" where
  "crcTable i = (crcShift ^^ 8) (ucast i)"

fun crcLoop :: "u32 \<Rightarrow> bytes \<Rightarrow> u32" where
  "crcLoop c [] = c"
| "crcLoop c (v # p) = crcLoop (crcTable (ucast c XOR v) XOR drop_bit 8 c) p"

definition crc32_Update :: "u32 \<Rightarrow> bytes \<Rightarrow> u32" where
  "crc32_Update crc p = NOT (crcLoop (NOT crc) p)"

definition verifyCRC :: "u32 \<Rightarrow> u32 \<Rightarrow> bytes \<Rightarrow> bool" where
  "verifyCRC prevCRC expectedCRC data = (crc32_Update prevCRC data = expectedCRC)"

subsection \<open>Frames\<close>

datatype LogRecord_Type = ENTRY | CONTROL | CRC_ANCHOR | OtherType int

record LogRecord =
  rec_Type :: LogRecord_Type
  rec_TruncateTo :: bool
  rec_Data :: bytes

record logCodec =
  marshalLogRecord :: "LogRecord \<Rightarrow> bytes option"
  unmarshalLogRecord :: "bytes \<Rightarrow> LogRecord option"

definition recordHeaderSize :: nat where
  "recordHeaderSize = 8"

definition recordLengthMask :: u64 where
  "recordLengthMask = 0x00000000FFFFFFFF"

definition recordCRCMask :: u64 where
  "recordCRCMask = push_bit 32 recordLengthMask"

definition getPadSize :: "nat \<Rightarrow> nat" where
  "getPadSize recordLength = (8 - recordLength mod 8) mod 8"

definition getPadBytes :: "nat \<Rightarrow> bytes" where
  "getPadBytes recordLength = replicate (getPadSize recordLength) 0"

definition recordHeader :: "nat \<Rightarrow> u32 \<Rightarrow> u64" where
  "recordHeader recordLength crc = word_of_nat recordLength OR push_bit 32 (ucast crc)"

definition padded :: "bytes \<Rightarrow> bytes" where
  "padded b = b @ getPadBytes (length b)"

subsection \<open>The reader\<close>

record LogRecordReader =
  rd_data :: bytes
  rd_offset :: nat
  rd_crc :: u32

text \<open>\<open>io.ReadFull\<close>.\<close>

definition readFull :: "LogRecordReader \<Rightarrow> nat \<Rightarrow> walError + (bytes \<times> LogRecordReader)" where
  "readFull r n =
     (let rest = drop (rd_offset r) (rd_data r) in
      if n = 0 then Inr ([], r)
      else if rest = [] then Inl EndOfFile
      else if length rest < n then Inl ErrUnexpectedEOF
      else Inr (take n rest, r\<lparr>rd_offset := rd_offset r + n\<rparr>))"

definition readHeader :: "LogRecordReader \<Rightarrow> walError + (u32 \<times> u32 \<times> LogRecordReader)" where
  "readHeader r =
     tryThen (readFull r recordHeaderSize) (\<lambda>(buff, r1).
       let header = fromLe64 buff in
       Inr (ucast (header AND recordLengthMask), ucast (drop_bit 32 (header AND recordCRCMask)), r1))"

definition readPayload :: "LogRecordReader \<Rightarrow> nat \<Rightarrow> walError + (bytes \<times> LogRecordReader)" where
  "readPayload r len = readFull r len"

definition NewLogRecordReader :: "logCodec \<Rightarrow> bytes \<Rightarrow> walError + LogRecordReader" where
  "NewLogRecordReader C data =
     tryThen (readHeader \<lparr>rd_data = data, rd_offset = 0, rd_crc = 0\<rparr>) (\<lambda>(recLen, crc, r1).
     tryThen (readPayload r1 (unat recLen + getPadSize (unat recLen))) (\<lambda>(payload, r2).
       case unmarshalLogRecord C (take (unat recLen) payload) of
         None \<Rightarrow> Inl (WalError ''proto: cannot parse'')
       | Some record \<Rightarrow>
           if rec_Type record \<noteq> CRC_ANCHOR then Inl (WalError ''failed reading CRC-Anchor from log file'')
           else Inr (r2\<lparr>rd_crc := crc\<rparr>)))"

definition Reader_Read :: "logCodec \<Rightarrow> LogRecordReader \<Rightarrow> walError + (LogRecord \<times> LogRecordReader)" where
  "Reader_Read C r =
     tryThen (readHeader r) (\<lambda>(recLen, crc, r1).
     tryThen (readPayload r1 (unat recLen + getPadSize (unat recLen))) (\<lambda>(payload, r2).
       case unmarshalLogRecord C (take (unat recLen) payload) of
         None \<Rightarrow> Inl ErrWALUnmarshalPayload
       | Some record \<Rightarrow>
           (case rec_Type record of
              OtherType n \<Rightarrow> Inl (WalError ''wal: unexpected LogRecord_Type'')
            | CRC_ANCHOR \<Rightarrow> Inr (record, r2\<lparr>rd_crc := crc\<rparr>)
            | _ \<Rightarrow> if \<not> verifyCRC (rd_crc r) crc payload then Inl ErrCRC else Inr (record, r2\<lparr>rd_crc := crc\<rparr>))))"

lemma readFull_Inr:
  "readFull r n = Inr (b, r') \<Longrightarrow> rd_data r' = rd_data r \<and> rd_crc r' = rd_crc r \<and> rd_offset r' = rd_offset r + n \<and>
   length b = n \<and> rd_offset r + n \<le> max (rd_offset r) (length (rd_data r))"
  by (auto simp: readFull_def Let_def split: if_splits)

lemma Reader_ReadE:
  assumes "Reader_Read C r = Inr (rec, r')"
  obtains recLen crc r1 payload r2 where "readHeader r = Inr (recLen, crc, r1)"
    "readPayload r1 (unat recLen + getPadSize (unat recLen)) = Inr (payload, r2)" "r' = r2\<lparr>rd_crc := crc\<rparr>"
proof -
  obtain recLen crc r1 where h: "readHeader r = Inr (recLen, crc, r1)"
    using assms by (cases "readHeader r") (auto simp: Reader_Read_def)
  obtain payload r2 where p: "readPayload r1 (unat recLen + getPadSize (unat recLen)) = Inr (payload, r2)"
    using assms h by (cases "readPayload r1 (unat recLen + getPadSize (unat recLen))") (auto simp: Reader_Read_def)
  obtain rc where rc: "unmarshalLogRecord C (take (unat recLen) payload) = Some rc"
    using assms h p by (cases "unmarshalLogRecord C (take (unat recLen) payload)") (auto simp: Reader_Read_def)
  have "r' = r2\<lparr>rd_crc := crc\<rparr>"
    using assms h p rc by (cases "rec_Type rc") (auto simp: Reader_Read_def split: if_splits)
  then show ?thesis using that h p by blast
qed

lemma Reader_Read_advances:
  assumes "Reader_Read C r = Inr (rec, r')"
  shows "rd_data r' = rd_data r \<and> rd_offset r < rd_offset r' \<and> rd_offset r' \<le> length (rd_data r)"
proof -
  obtain recLen crc r1 payload r2 where h: "readHeader r = Inr (recLen, crc, r1)"
    "readPayload r1 (unat recLen + getPadSize (unat recLen)) = Inr (payload, r2)" "r' = r2\<lparr>rd_crc := crc\<rparr>"
    using assms by (rule Reader_ReadE)
  obtain b where "readFull r 8 = Inr (b, r1)"
    using h(1) by (auto simp: readHeader_def tryThen_eq_Inr_iff recordHeaderSize_def Let_def)
  note one = readFull_Inr [OF this]
  have "readFull r1 (unat recLen + getPadSize (unat recLen)) = Inr (payload, r2)" using h(2) by (simp add: readPayload_def)
  note two = readFull_Inr [OF this]
  show ?thesis using one two h(3) by (auto simp: max_def split: if_splits)
qed

text \<open>Read until an error: the records, the reader after the last good one, and the error.\<close>

function readRecords :: "logCodec \<Rightarrow> LogRecordReader \<Rightarrow> LogRecord list \<times> LogRecordReader \<times> walError" where
  "readRecords C r =
     (case Reader_Read C r of
        Inl e \<Rightarrow> ([], r, e)
      | Inr (rec, r1) \<Rightarrow> (let (recs, r2, e) = readRecords C r1 in (rec # recs, r2, e)))"
  by pat_completeness auto
termination
proof (relation "measure (\<lambda>(C, r). length (rd_data r) - rd_offset r)")
  show "((C, r1), C, r) \<in> measure (\<lambda>(C, r). length (rd_data r) - rd_offset r)"
    if "Reader_Read C r = Inr x" "(rec, r1) = x" for C r x rec r1
  proof -
    have "Reader_Read C r = Inr (rec, r1)" using that by simp
    from Reader_Read_advances [OF this] show ?thesis by auto
  qed
qed simp

declare readRecords.simps [simp del]

subsection \<open>What a reader gets back\<close>

definition frame :: "u32 \<Rightarrow> bytes \<Rightarrow> bytes" where
  "frame crc b = le64 (recordHeader (length b) crc) @ padded b"

lemma recordLengthMask_mask: "recordLengthMask = mask 32"
  by (simp add: recordLengthMask_def mask_eq_exp_minus_1)

lemma recordHeader_parts:
  assumes "n < 2 ^ 32"
  shows "ucast (recordHeader n crc AND recordLengthMask) = (word_of_nat n :: u32)"
    and "ucast (drop_bit 32 (recordHeader n crc AND recordCRCMask)) = crc"
proof -
  note m = recordLengthMask_mask
  have n: "bit (word_of_nat n :: u64) i \<longleftrightarrow> i < 64 \<and> bit n i" for i by (simp add: bit_simps)
  have hi: "\<not> bit n i" if "32 \<le> i" for i
  proof -
    have "n < 2 ^ i" using assms that by (meson less_le_trans one_le_numeral power_increasing)
    then show ?thesis by (simp add: bit_iff_odd)
  qed
  show "ucast (recordHeader n crc AND recordLengthMask) = (word_of_nat n :: u32)"
    by (rule bit_word_eqI) (auto simp: recordHeader_def m bit_simps)
  show "ucast (drop_bit 32 (recordHeader n crc AND recordCRCMask)) = crc"
    by (rule bit_word_eqI) (auto simp: recordHeader_def recordCRCMask_def m bit_simps hi)
qed

lemma length_padded: "length (padded b) = length b + getPadSize (length b)"
  by (simp add: padded_def getPadBytes_def)

lemma readFull_enough:
  assumes "drop (rd_offset r) (rd_data r) = xs @ post" "length xs = n"
  shows "readFull r n = Inr (xs, r\<lparr>rd_offset := rd_offset r + n\<rparr>)"
  using assms by (cases "n = 0") (auto simp: readFull_def)

lemma readFull_short:
  assumes "drop (rd_offset r) (rd_data r) = xs" "length xs < n"
  shows "readFull r n = Inl (if xs = [] then EndOfFile else ErrUnexpectedEOF)"
  using assms by (auto simp: readFull_def)

lemma readHeader_frame:
  assumes "rd_data r = pre @ frame crc b @ post" "rd_offset r = length pre" "length b < 2 ^ 32"
  shows "readHeader r = Inr (word_of_nat (length b), crc, r\<lparr>rd_offset := length pre + 8\<rparr>)"
proof -
  have "readFull r 8 = Inr (le64 (recordHeader (length b) crc), r\<lparr>rd_offset := rd_offset r + 8\<rparr>)"
    by (rule readFull_enough [of _ _ "padded b @ post"]) (use assms in \<open>simp_all add: frame_def\<close>)
  then show ?thesis
    using recordHeader_parts [OF assms(3), of crc] assms(2) by (simp add: readHeader_def recordHeaderSize_def)
qed

lemma readPayload_frame:
  assumes "rd_data r = pre @ frame crc b @ post" "rd_offset r = length pre + 8"
  shows "readPayload r (length b + getPadSize (length b)) =
    Inr (padded b, r\<lparr>rd_offset := length pre + length (frame crc b)\<rparr>)"
proof -
  have "readFull r (length b + getPadSize (length b)) =
      Inr (padded b, r\<lparr>rd_offset := rd_offset r + (length b + getPadSize (length b))\<rparr>)"
    by (rule readFull_enough [of _ _ post]) (use assms in \<open>simp_all add: frame_def length_padded\<close>)
  then show ?thesis using assms(2) by (simp add: readPayload_def frame_def length_padded add.assoc)
qed

lemma unat_length_u32: "n < 2 ^ 32 \<Longrightarrow> unat (word_of_nat n :: u32) = n"
  by (simp add: unat_of_nat)

lemma Reader_Read_frame:
  assumes "rd_data r = pre @ frame crc b @ post" "rd_offset r = length pre" "length b < 2 ^ 32"
    and "unmarshalLogRecord C b = Some rec" "rec_Type rec = ENTRY \<or> rec_Type rec = CONTROL"
    and "crc = crc32_Update (rd_crc r) (padded b)"
  shows "Reader_Read C r = Inr (rec, r\<lparr>rd_offset := length pre + length (frame crc b), rd_crc := crc\<rparr>)"
proof -
  let ?r1 = "r\<lparr>rd_offset := length pre + 8\<rparr>"
  have "readPayload ?r1 (length b + getPadSize (length b)) =
      Inr (padded b, ?r1\<lparr>rd_offset := length pre + length (frame crc b)\<rparr>)"
    by (rule readPayload_frame) (use assms(1) in simp_all)
  then show ?thesis
    using readHeader_frame [OF assms(1-3)] assms(3-) unat_length_u32 [OF assms(3)]
    by (auto simp: Reader_Read_def padded_def verifyCRC_def)
qed

lemma NewLogRecordReader_frame:
  assumes "data = frame crc b @ post" "length b < 2 ^ 32" "unmarshalLogRecord C b = Some rec" "rec_Type rec = CRC_ANCHOR"
  shows "NewLogRecordReader C data = Inr \<lparr>rd_data = data, rd_offset = length (frame crc b), rd_crc = crc\<rparr>"
proof -
  let ?r0 = "\<lparr>rd_data = data, rd_offset = 0, rd_crc = 0\<rparr>"
  have "readHeader ?r0 = Inr (word_of_nat (length b), crc, ?r0\<lparr>rd_offset := 8\<rparr>)"
    using readHeader_frame [of ?r0 "[]" crc b post] assms(1,2) by simp
  moreover have "readPayload (?r0\<lparr>rd_offset := 8\<rparr>) (length b + getPadSize (length b)) =
      Inr (padded b, ?r0\<lparr>rd_offset := length (frame crc b)\<rparr>)"
    using readPayload_frame [of "?r0\<lparr>rd_offset := 8\<rparr>" "[]" crc b post] assms(1) by simp
  ultimately show ?thesis
    using assms(3,4) unat_length_u32 [OF assms(2)] by (simp add: NewLogRecordReader_def padded_def)
qed

text \<open>The tail of a file after its last complete record: nothing, or a torn frame.\<close>

lemma Reader_Read_torn:
  assumes "rd_data r = pre @ take k (frame crc b)" "rd_offset r = length pre" "length b < 2 ^ 32" "k < length (frame crc b)"
  shows "Reader_Read C r = Inl (if k = 0 \<or> k = 8 then EndOfFile else ErrUnexpectedEOF)"
proof (cases "k < 8")
  case True
  have "readFull r 8 = Inl (if take k (frame crc b) = [] then EndOfFile else ErrUnexpectedEOF)"
    by (rule readFull_short) (use assms True in simp_all)
  moreover have "take k (frame crc b) = [] \<longleftrightarrow> k = 0" using assms(4) by auto
  ultimately show ?thesis using True by (simp add: Reader_Read_def readHeader_def recordHeaderSize_def)
next
  case False
  let ?r1 = "r\<lparr>rd_offset := length pre + 8\<rparr>"
  have k: "take k (frame crc b) = le64 (recordHeader (length b) crc) @ take (k - 8) (padded b)"
    using False by (simp add: frame_def)
  have "readFull r 8 = Inr (le64 (recordHeader (length b) crc), r\<lparr>rd_offset := rd_offset r + 8\<rparr>)"
    by (rule readFull_enough [of _ _ "take (k - 8) (padded b)"]) (use assms(1,2) in \<open>simp_all add: k\<close>)
  then have "readHeader r = Inr (word_of_nat (length b), crc, ?r1)"
    using recordHeader_parts [OF assms(3), of crc] assms(2) by (simp add: readHeader_def recordHeaderSize_def)
  moreover have "readFull ?r1 (length b + getPadSize (length b)) =
      Inl (if take (k - 8) (padded b) = [] then EndOfFile else ErrUnexpectedEOF)"
    by (rule readFull_short) (use assms(1,4) False in \<open>simp_all add: k frame_def length_padded\<close>)
  moreover have "take (k - 8) (padded b) = [] \<longleftrightarrow> k = 8"
    using False assms(4) by (auto simp: frame_def)
  ultimately show ?thesis
    using False unat_length_u32 [OF assms(3)] by (auto simp: Reader_Read_def readPayload_def)
qed

end
