(* ===== verification/LogSpec.thy ===== *)
theory LogSpec
  imports Prelude
begin

text \<open>
  The contract of the write ahead log (pkg/api: \<open>WriteAheadLog\<close>) as the persistence layer relies
  on it: what reading the log after a restart returns. An entry appended with the truncation flag makes
  everything before it obsolete.
\<close>

fun logAfter :: "bytes list \<Rightarrow> (bytes \<times> bool) list \<Rightarrow> bytes list" where
  "logAfter entries [] = entries"
| "logAfter entries ((entry, truncateTo) # appends) =
     logAfter (if truncateTo then [entry] else entries @ [entry]) appends"

lemma logAfter_append: "logAfter entries (xs @ ys) = logAfter (logAfter entries xs) ys"
  by (induction entries xs rule: logAfter.induct) auto

locale write_ahead_log =
  fixes walAppend :: "'w \<Rightarrow> bytes \<Rightarrow> bool \<Rightarrow> 'e + 'w"
    and recovered :: "'w \<Rightarrow> bytes list"
    and invar :: "'w \<Rightarrow> bool"
  assumes append_invar: "invar w \<Longrightarrow> walAppend w entry truncateTo = Inr w' \<Longrightarrow> invar w'"
    and append_recovered: "invar w \<Longrightarrow> walAppend w entry truncateTo = Inr w' \<Longrightarrow>
      recovered w' = (if truncateTo then [entry] else recovered w @ [entry])"
begin

fun appendAll :: "'w \<Rightarrow> (bytes \<times> bool) list \<Rightarrow> 'e + 'w" where
  "appendAll w [] = Inr w"
| "appendAll w ((entry, truncateTo) # appends) =
     (case walAppend w entry truncateTo of Inl e \<Rightarrow> Inl e | Inr w' \<Rightarrow> appendAll w' appends)"

lemma appendAll_recovered:
  "invar w \<Longrightarrow> appendAll w appends = Inr w' \<Longrightarrow> invar w' \<and> recovered w' = logAfter (recovered w) appends"
proof (induction w appends rule: appendAll.induct)
  case (2 w entry t appends)
  then obtain w1 where "walAppend w entry t = Inr w1" "appendAll w1 appends = Inr w'"
    by (auto split: sum.splits)
  then show ?case using 2 append_invar append_recovered by simp
qed simp

end

end
