(* ===== verification/WriteAheadLog.thy ===== *)
theory WriteAheadLog
  imports WalFormat LogSpec
begin

text \<open>
  The write ahead log (pkg/wal/writeaheadlog.go, util.go): creating, opening, appending, reading back, switching
  and deleting files, and repairing the last file.

  The directory is a part of the state. A file is named by its index: the names are the indexes in hexadecimal with a
  fixed width, so they sort the way the indexes do. The copies that \<open>Repair\<close> makes have another suffix and are kept
  apart. The operations of the operating system succeed, except that a file that is not there cannot be opened or
  removed; what a crash leaves of the last write is up to the theorems. \<open>Sync\<close> and the metrics are left out.
\<close>

subsection \<open>Files\<close>

record directory =
  dir_files :: "(u64 \<times> bytes) list"
  dir_copies :: "(u64 \<times> bytes) list"

definition fileBytes :: "directory \<Rightarrow> u64 \<Rightarrow> bytes" where
  "fileBytes d i = (case map_of (dir_files d) i of None \<Rightarrow> [] | Some c \<Rightarrow> c)"

definition setFile :: "directory \<Rightarrow> u64 \<Rightarrow> bytes \<Rightarrow> directory" where
  "setFile d i c = d\<lparr>dir_files := AList.update i c (dir_files d)\<rparr>"

definition writeFileAt :: "directory \<Rightarrow> u64 \<Rightarrow> nat \<Rightarrow> bytes \<Rightarrow> directory" where
  "writeFileAt d i offset bs =
     (let c = fileBytes d i in
      setFile d i (take offset c @ replicate (offset - length c) 0 @ bs @ drop (offset + length bs) c))"

definition truncateFile :: "directory \<Rightarrow> u64 \<Rightarrow> nat \<Rightarrow> directory" where
  "truncateFile d i offset = setFile d i (take offset (fileBytes d i) @ replicate (offset - length (fileBytes d i)) 0)"

definition removeFile :: "directory \<Rightarrow> u64 \<Rightarrow> walError + directory" where
  "removeFile d i =
     (if map_of (dir_files d) i = None then Inl ErrNotExist else Inr (d\<lparr>dir_files := AList.delete i (dir_files d)\<rparr>))"

definition copyFile :: "directory \<Rightarrow> u64 \<Rightarrow> directory" where
  "copyFile d i = d\<lparr>dir_copies := AList.update i (fileBytes d i) (dir_copies d)\<rparr>"

definition openReader :: "logCodec \<Rightarrow> directory \<Rightarrow> u64 \<Rightarrow> walError + LogRecordReader" where
  "openReader C d i =
     (case map_of (dir_files d) i of None \<Rightarrow> Inl ErrNotExist | Some c \<Rightarrow> NewLogRecordReader C c)"

definition dirReadWalNames :: "directory \<Rightarrow> u64 list" where
  "dirReadWalNames d = sort (map fst (dir_files d))"

definition dirEmpty :: "directory \<Rightarrow> bool" where
  "dirEmpty d = (dirReadWalNames d = [])"

subsection \<open>State\<close>

record Options =
  FileSizeBytes :: int
  BufferSizeBytes :: int

definition DefaultOptions :: Options where
  "DefaultOptions = \<lparr>FileSizeBytes = 64 * 1024 * 1024, BufferSizeBytes = 1024 * 1024\<rparr>"

definition optionsOrDefault :: "Options option \<Rightarrow> Options" where
  "optionsOrDefault options =
     (case options of
        None \<Rightarrow> DefaultOptions
      | Some o' \<Rightarrow>
          \<lparr>FileSizeBytes = (if FileSizeBytes o' \<noteq> 0 then FileSizeBytes o' else FileSizeBytes DefaultOptions),
           BufferSizeBytes = (if BufferSizeBytes o' \<noteq> 0 then BufferSizeBytes o' else BufferSizeBytes DefaultOptions)\<rparr>)"

definition walCRCSeed :: u32 where
  "walCRCSeed = 0xDEED0001"

text \<open>\<open>wal_logFile\<close> is the index of the open file and the offset in it.\<close>

record WriteAheadLogFile =
  wal_options :: Options
  wal_open :: bool           \<comment> \<open>\<open>dirFile\<close> is not nil\<close>
  wal_index :: u64
  wal_logFile :: "(u64 \<times> nat) option"
  wal_crc :: u32
  wal_readMode :: bool
  wal_truncateIndex :: u64
  wal_activeIndexes :: "u64 list"
  wal_dir :: directory

subsection \<open>Writing\<close>

definition logFile_Write :: "bytes \<Rightarrow> WriteAheadLogFile \<Rightarrow> walError + WriteAheadLogFile" where
  "logFile_Write bs w =
     (case wal_logFile w of
        None \<Rightarrow> Inl ErrInvalid
      | Some (i, offset) \<Rightarrow>
          Inr (w\<lparr>wal_dir := writeFileAt (wal_dir w) i offset bs, wal_logFile := Some (i, offset + length bs)\<rparr>))"

definition anchorRecord :: LogRecord where
  "anchorRecord = \<lparr>rec_Type = CRC_ANCHOR, rec_TruncateTo = False, rec_Data = []\<rparr>"

definition saveCRC :: "logCodec \<Rightarrow> WriteAheadLogFile \<Rightarrow> walError + WriteAheadLogFile" where
  "saveCRC C w =
     (case marshalLogRecord C anchorRecord of
        None \<Rightarrow> Inl (WalError ''marshal'')
      | Some b \<Rightarrow>
          tryThen (logFile_Write (le64 (recordHeader (length b) (wal_crc w))) w) (\<lambda>w1.
            logFile_Write (b @ getPadBytes (length b)) w1))"

definition truncateAndCloseLogFile :: "WriteAheadLogFile \<Rightarrow> walError + WriteAheadLogFile" where
  "truncateAndCloseLogFile w =
     (if wal_readMode w then Inr w
      else case wal_logFile w of
        None \<Rightarrow> Inl ErrInvalid
      | Some (i, offset) \<Rightarrow> Inr (w\<lparr>wal_dir := truncateFile (wal_dir w) i offset\<rparr>))"

text \<open>The loop that removes the files before the truncation index, and the files that stay.\<close>

fun deleteFiles :: "directory \<Rightarrow> u64 \<Rightarrow> u64 list \<Rightarrow> walError + (directory \<times> u64 list)" where
  "deleteFiles d truncateIndex [] = Inl (WalPanic ''index out of range'')"
| "deleteFiles d truncateIndex (i # is) =
     (if i < truncateIndex then tryThen (removeFile d i) (\<lambda>d1. deleteFiles d1 truncateIndex is)
      else Inr (d, i # is))"

definition deleteAndCreateFile :: "logCodec \<Rightarrow> WriteAheadLogFile \<Rightarrow> walError + WriteAheadLogFile" where
  "deleteAndCreateFile C w =
     (let w1 = w\<lparr>wal_index := wal_index w + 1\<rparr> in
      tryThen (deleteFiles (wal_dir w1) (wal_truncateIndex w1) (wal_activeIndexes w1)) (\<lambda>(d, active).
        let w2 = w1\<lparr>wal_dir := setFile d (wal_index w1) (fileBytes d (wal_index w1)), wal_activeIndexes := active,
                    wal_logFile := Some (wal_index w1, 0)\<rparr>
        in tryThen (saveCRC C w2) (\<lambda>w3. Inr (w3\<lparr>wal_activeIndexes := wal_activeIndexes w3 @ [wal_index w3]\<rparr>))))"

definition switchFiles :: "logCodec \<Rightarrow> WriteAheadLogFile \<Rightarrow> walError + WriteAheadLogFile" where
  "switchFiles C w =
     (if wal_readMode w then Inl ErrReadOnly
      else tryThen (truncateAndCloseLogFile w) (deleteAndCreateFile C))"

definition wal_append :: "logCodec \<Rightarrow> LogRecord \<Rightarrow> WriteAheadLogFile \<Rightarrow> walError + WriteAheadLogFile" where
  "wal_append C record w =
     (if \<not> wal_open w then Inl ErrClosed
      else if wal_readMode w then Inl ErrReadOnly
      else if BufferSizeBytes (wal_options w) < 0 then Inl (WalPanic ''makeslice: cap out of range'')
      else case marshalLogRecord C record of
        None \<Rightarrow> Inl (WalError ''wal: failed to marshal to data buffer'')
      | Some b \<Rightarrow>
          if (word_of_nat (length b) :: u64) AND recordCRCMask \<noteq> 0 then Inl (WalError ''wal: record too big'')
          else
            let payloadBuff = b @ getPadBytes (length b);
                dataCRC = crc32_Update (wal_crc w) payloadBuff;
                header = recordHeader (length b) dataCRC
            in tryThen (logFile_Write (le64 header) w) (\<lambda>w1.
               tryThen (logFile_Write payloadBuff w1) (\<lambda>w2.
                 let w3 = w2\<lparr>wal_crc := dataCRC,
                             wal_truncateIndex := (if rec_TruncateTo record then wal_index w2 else wal_truncateIndex w2)\<rparr>
                 in case wal_logFile w3 of
                      None \<Rightarrow> Inl ErrInvalid
                    | Some (i, offset) \<Rightarrow>
                        if int offset > FileSizeBytes (wal_options w3) - 16
                        then (case switchFiles C w3 of Inl e \<Rightarrow> Inl (wrapError ''wal: failed to switch log files'' e)
                              | Inr w4 \<Rightarrow> Inr w4)
                        else Inr w3)))"

definition wal_Append :: "logCodec \<Rightarrow> bytes \<Rightarrow> bool \<Rightarrow> WriteAheadLogFile \<Rightarrow> walError + WriteAheadLogFile" where
  "wal_Append C data truncateTo w =
     (if length data = 0 then Inl (WalError ''data is nil or empty'')
      else wal_append C \<lparr>rec_Type = ENTRY, rec_TruncateTo = truncateTo, rec_Data = data\<rparr> w)"

definition wal_TruncateTo :: "logCodec \<Rightarrow> WriteAheadLogFile \<Rightarrow> walError + WriteAheadLogFile" where
  "wal_TruncateTo C w = wal_append C \<lparr>rec_Type = CONTROL, rec_TruncateTo = True, rec_Data = []\<rparr> w"

definition wal_Close :: "WriteAheadLogFile \<Rightarrow> WriteAheadLogFile" where
  "wal_Close w =
     (let w1 = (case wal_logFile w of None \<Rightarrow> w
                | Some f \<Rightarrow> (case truncateAndCloseLogFile w of Inl e \<Rightarrow> w | Inr w' \<Rightarrow> w'))
      in w1\<lparr>wal_logFile := None, wal_open := False\<rparr>)"

subsection \<open>Creating and opening\<close>

definition wal_Create :: "logCodec \<Rightarrow> directory \<Rightarrow> Options option \<Rightarrow> walError + WriteAheadLogFile" where
  "wal_Create C d options =
     (if \<not> dirEmpty d then Inl ErrWALAlreadyExists
      else saveCRC C \<lparr>wal_options = optionsOrDefault options, wal_open = True, wal_index = 1, wal_logFile = Some (1, 0),
             wal_crc = walCRCSeed, wal_readMode = False, wal_truncateIndex = 1, wal_activeIndexes = [1],
             wal_dir = setFile d 1 (fileBytes d 1)\<rparr>)"

fun checkWalFiles :: "logCodec \<Rightarrow> directory \<Rightarrow> u64 option \<Rightarrow> u64 list \<Rightarrow> walError + u64 list" where
  "checkWalFiles C d prev [] = Inr []"
| "checkWalFiles C d prev (index # names) =
     (case openReader C d index of
        Inl e \<Rightarrow> if names = [] then Inl ErrUnexpectedEOF
                 else Inl (wrapError ''wal: failed to create reader for file'' e)
      | Inr r \<Rightarrow>
          if (case prev of None \<Rightarrow> False | Some p \<Rightarrow> index \<noteq> p + 1) then Inl (WalError ''wal: files not in sequence'')
          else tryThen (checkWalFiles C d (Some index) names) (\<lambda>indexes. Inr (index # indexes)))"

definition wal_Open :: "logCodec \<Rightarrow> directory \<Rightarrow> Options option \<Rightarrow> walError + WriteAheadLogFile" where
  "wal_Open C d options =
     (let walNames = dirReadWalNames d in
      if walNames = [] then Inl ErrNotExist
      else tryThen (checkWalFiles C d None walNames) (\<lambda>indexes.
             Inr \<lparr>wal_options = optionsOrDefault options, wal_open = True, wal_index = hd walNames, wal_logFile = None,
               wal_crc = 0, wal_readMode = True, wal_truncateIndex = 0, wal_activeIndexes = sort indexes, wal_dir = d\<rparr>))"

subsection \<open>Reading back\<close>

text \<open>One record of \<open>ReadAll\<close>: the items and the truncation index.\<close>

definition noteRecord :: "u64 \<Rightarrow> LogRecord \<Rightarrow> bytes list \<times> u64 \<Rightarrow> bytes list \<times> u64" where
  "noteRecord index rec st =
     (case st of (items, truncateIndex) \<Rightarrow>
        let (items, truncateIndex) = (if rec_TruncateTo rec then ([], index) else (items, truncateIndex))
        in (if rec_Type rec = ENTRY then items @ [rec_Data rec] else items, truncateIndex))"

fun readFiles ::
  "logCodec \<Rightarrow> u64 \<Rightarrow> bool \<Rightarrow> u64 list \<Rightarrow> bytes list \<Rightarrow> WriteAheadLogFile \<Rightarrow>
   (walError + bytes list) \<times> WriteAheadLogFile" where
  "readFiles C lastIndex first [] items w = (Inr items, w)"
| "readFiles C lastIndex first (index # rest) items w =
     (let w1 = w\<lparr>wal_index := index\<rparr> in
      case openReader C (wal_dir w1) index of
        Inl e \<Rightarrow> (Inl e, w1)
      | Inr r \<Rightarrow>
          if \<not> first \<and> rd_crc r \<noteq> wal_crc w1 then (Inl ErrCRC, w1)
          else
            let (recs, r', readErr) = readRecords C r;
                (items', t) = fold (noteRecord index) recs (items, wal_truncateIndex w1);
                w2 = w1\<lparr>wal_truncateIndex := t\<rparr>
            in if errors_Is readErr EndOfFile
               then readFiles C lastIndex False rest items' (w2\<lparr>wal_crc := rd_crc r'\<rparr>)
               else if index = lastIndex \<and> (errors_Is readErr ErrUnexpectedEOF \<or> errors_Is readErr ErrCRC \<or>
                                           errors_Is readErr ErrWALUnmarshalPayload)
               then (Inl ErrUnexpectedEOF, w2)
               else (Inl (wrapError ''failed reading wal'' readErr), w2))"

definition wal_ReadAll :: "logCodec \<Rightarrow> WriteAheadLogFile \<Rightarrow> (walError + bytes list) \<times> WriteAheadLogFile" where
  "wal_ReadAll C w =
     (if \<not> wal_open w then (Inl ErrClosed, w)
      else if \<not> wal_readMode w then (Inl ErrWriteOnly, w)
      else if wal_activeIndexes w = [] then (Inl (WalPanic ''index out of range''), w)
      else
        let (res, w1) = readFiles C (List.last (wal_activeIndexes w)) True (wal_activeIndexes w) [] w in
        case res of
          Inl e \<Rightarrow> (Inl e, w1)
        | Inr items \<Rightarrow>
            (case deleteAndCreateFile C w1 of
               Inl e \<Rightarrow> (Inl e, w1)
             | Inr w2 \<Rightarrow> (Inr items, w2\<lparr>wal_readMode := False\<rparr>)))"

subsection \<open>Repairing\<close>

fun scanVerifyFiles :: "logCodec \<Rightarrow> directory \<Rightarrow> u32 option \<Rightarrow> u64 list \<Rightarrow> walError option" where
  "scanVerifyFiles C d crc [] = None"
| "scanVerifyFiles C d crc (i # is) =
     (case openReader C d i of
        Inl e \<Rightarrow> Some e
      | Inr r \<Rightarrow>
          if (case crc of None \<Rightarrow> False | Some c \<Rightarrow> c \<noteq> rd_crc r) then Some ErrCRC
          else let (recs, r', readErr) = readRecords C r
               in if \<not> errors_Is readErr EndOfFile then Some readErr else scanVerifyFiles C d (Some (rd_crc r')) is)"

definition scanRepairFile :: "logCodec \<Rightarrow> directory \<Rightarrow> u64 \<Rightarrow> walError + directory" where
  "scanRepairFile C d lastFile =
     (case openReader C d lastFile of
        Inl e \<Rightarrow> removeFile d lastFile
      | Inr r \<Rightarrow>
          let (recs, r', readErr) = readRecords C r
          in Inr (if errors_Is readErr EndOfFile then d else truncateFile d lastFile (rd_offset r')))"

definition wal_Repair :: "logCodec \<Rightarrow> directory \<Rightarrow> walError + directory" where
  "wal_Repair C d =
     (let walNames = dirReadWalNames d in
      if walNames = [] then Inl ErrNotExist
      else case scanVerifyFiles C d None (butlast walNames) of
        Some e \<Rightarrow> Inl e
      | None \<Rightarrow> scanRepairFile C (copyFile d (List.last walNames)) (List.last walNames))"

definition InitializeAndReadAll ::
  "logCodec \<Rightarrow> directory \<Rightarrow> Options option \<Rightarrow> walError + (WriteAheadLogFile \<times> bytes list)" where
  "InitializeAndReadAll C d options =
     (case wal_Create C d options of
        Inr w \<Rightarrow> Inr (w, [])
      | Inl e \<Rightarrow>
          if \<not> errors_Is e ErrWALAlreadyExists then Inl (wrapError ''Cannot create Write-Ahead-Log'' e)
          else case wal_Open C d options of
            Inl e \<Rightarrow> Inl (wrapError ''Cannot open Write-Ahead-Log'' e)
          | Inr w \<Rightarrow>
              (case wal_ReadAll C w of
                 (Inr items, w1) \<Rightarrow> Inr (w1, items)
               | (Inl e, w1) \<Rightarrow>
                   if \<not> errors_Is e ErrUnexpectedEOF
                   then Inl (wrapError ''Cannot read initial state from Write-Ahead-Log'' e)
                   else case wal_Repair C (wal_dir w1) of
                     Inl e \<Rightarrow> Inl (wrapError ''Cannot repair Write-Ahead-Log'' e)
                   | Inr d' \<Rightarrow>
                       (case wal_ReadAll C (w1\<lparr>wal_dir := d'\<rparr>) of
                          (Inl e, w2) \<Rightarrow> Inl (wrapError ''Cannot initial state from Write-Ahead-Log, after repair'' e)
                        | (Inr items, w2) \<Rightarrow> Inr (w2, items))))"

end
