(* ===== verification/WalRecovery.thy ===== *)
theory WalRecovery
  imports WalRuns
begin

text \<open>
  Opening, reading back and repairing a log: what \<open>InitializeAndReadAll\<close> makes of the directory a crash left behind, and
  the contract \<open>write_ahead_log\<close> of the persistence layer.
\<close>

subsection \<open>Reading the files\<close>

fun afterReading :: "logCodec \<Rightarrow> segment list \<Rightarrow> WriteAheadLogFile \<Rightarrow> WriteAheadLogFile" where
  "afterReading C [] w = w"
| "afterReading C (s # ss) w = afterReading C ss (w\<lparr>wal_index := seg_index s,
     wal_truncateIndex := (if truncates s then seg_index s else wal_truncateIndex w), wal_crc := segEnd C s\<rparr>)"

lemma afterReading_fields [simp]:
  "wal_dir (afterReading C segs w) = wal_dir w" "wal_open (afterReading C segs w) = wal_open w"
  "wal_readMode (afterReading C segs w) = wal_readMode w" "wal_options (afterReading C segs w) = wal_options w"
  "wal_activeIndexes (afterReading C segs w) = wal_activeIndexes w"
  "wal_truncateIndex (afterReading C segs w) = lastTrunc (wal_truncateIndex w) segs"
  by (induction C segs w rule: afterReading.induct) simp_all

lemma afterReading_last:
  "segs \<noteq> [] \<Longrightarrow> wal_index (afterReading C segs w) = seg_index (List.last segs) \<and>
   wal_crc (afterReading C segs w) = segEnd C (List.last segs)"
proof (induction C segs w rule: afterReading.induct)
  case (2 C s ss w)
  then show ?case by (cases ss) auto
qed simp

definition stored :: "logCodec \<Rightarrow> directory \<Rightarrow> segment \<Rightarrow> bool" where
  "stored C d s \<longleftrightarrow> map_of (dir_files d) (seg_index s) = Some (contents C s)"

lemma onDisk_stored: "onDisk C d segs \<Longrightarrow> chained C segs \<Longrightarrow> s \<in> set segs \<Longrightarrow> stored C d s"
  by (simp add: stored_def onDisk_file)

lemma readFiles_step:
  assumes "logRoundtrip C" "segment_ok C s" "stored C (wal_dir w) s" "first \<or> wal_crc w = seg_crc s"
  shows "readFiles C l first (seg_index s # rest) items w =
    readFiles C l False rest (logItems items (seg_recs s)) (afterReading C [s] w)"
proof -
  obtain r where r: "NewLogRecordReader C (contents C s) = Inr r" "rd_crc r = seg_crc s"
    "readRecords C r = (seg_recs s, r\<lparr>rd_offset := length (wholeFrames C s), rd_crc := segEnd C s\<rparr>, EndOfFile)"
    using read_segment_ok [OF assms(1,2)] by blast
  have "openReader C (wal_dir w) (seg_index s) = Inr r" using assms(3) r(1) by (simp add: stored_def openReader_def)
  then show ?thesis using r assms(4) by (auto simp: Let_def noteRecord_fold truncates_def)
qed

lemma readFiles_ok:
  assumes "logRoundtrip C"
  shows "chained C (segs @ rest) \<Longrightarrow> \<forall>s\<in>set segs. segment_ok C s \<and> stored C (wal_dir w) s \<Longrightarrow>
    first \<or> segs = [] \<or> wal_crc w = seg_crc (hd segs) \<Longrightarrow>
    readFiles C l first (map seg_index (segs @ rest)) items w =
      readFiles C l (first \<and> segs = []) (map seg_index rest) (logItems items (records segs)) (afterReading C segs w)"
proof (induction segs arbitrary: first items w)
  case (Cons s ss)
  let ?w1 = "afterReading C [s] w"
  have c: "chained C (ss @ rest)" using Cons.prems(1) by (cases "ss @ rest") auto
  have "ss = [] \<or> wal_crc ?w1 = seg_crc (hd ss)" using Cons.prems(1) by (cases ss) auto
  then have "readFiles C l False (map seg_index (ss @ rest)) (logItems items (seg_recs s)) ?w1 =
      readFiles C l (False \<and> ss = []) (map seg_index rest) (logItems (logItems items (seg_recs s)) (records ss))
        (afterReading C ss ?w1)"
    using Cons.prems(2) by (intro Cons.IH [OF c]) auto
  then show ?case
    using readFiles_step [OF assms, of s w first l "map seg_index (ss @ rest)" items] Cons.prems(2,3)
    by (simp add: logItems_append)
qed simp

lemma lastTrunc_shape:
  "(\<forall>t. lastTrunc t segs = t) \<or> (\<exists>pre s post. segs = pre @ s # post \<and> truncates s \<and> (\<forall>t. lastTrunc t segs = seg_index s))"
proof (induction segs)
  case (Cons s ss)
  then consider "\<forall>t. lastTrunc t ss = t"
    | pre x post where "ss = pre @ x # post" "truncates x" "\<forall>t. lastTrunc t ss = seg_index x" by blast
  then show ?case
  proof cases
    case 1
    then show ?thesis by (cases "truncates s") (auto intro!: exI [of _ "[]"])
  next
    case 2
    then have "s # ss = (s # pre) @ x # post" "\<forall>t. lastTrunc t (s # ss) = seg_index x" by simp_all
    then show ?thesis using 2(2) by blast
  qed
qed simp

lemma lastTrunc_append: "lastTrunc t (xs @ ys) = lastTrunc (lastTrunc t xs) ys"
  by (induction t xs rule: lastTrunc.induct) simp_all

lemma truncOK_lastTrunc:
  assumes "chained C segs" "segs \<noteq> []" "t \<le> seg_index (hd segs) \<or> t = lastTrunc t0 segs \<and> t0 \<le> seg_index (hd segs)"
  shows "truncOK (lastTrunc t segs) segs"
proof (cases "\<forall>t. lastTrunc t segs = t")
  case True
  then show ?thesis using assms(2,3) by (cases segs) (auto intro!: truncOKI [of _ "[]"])
next
  case False
  then obtain pre s post where found: "segs = pre @ s # post" "truncates s" "\<forall>t. lastTrunc t segs = seg_index s"
    using lastTrunc_shape [of segs] by blast
  have "\<forall>p\<in>set pre. seg_index p < seg_index s"
    using chained_sorted [OF assms(1)] found(1) by (simp add: sorted_wrt_append)
  then show ?thesis using found by (intro truncOKI [OF found(1)]) simp_all
qed

subsection \<open>Reading back\<close>

definition readable :: "logCodec \<Rightarrow> segment list \<Rightarrow> WriteAheadLogFile \<Rightarrow> bool" where
  "readable C segs w \<longleftrightarrow> segs \<noteq> [] \<and> chained C segs \<and> onDisk C (wal_dir w) segs \<and> wal_open w \<and> wal_readMode w \<and>
     wal_activeIndexes w = map seg_index segs \<and> seg_index (List.last segs) \<noteq> max_u64 \<and>
     (wal_truncateIndex w = 0 \<or> wal_truncateIndex w = lastTrunc 0 segs)"

lemma ReadAll_ok:
  assumes "logRoundtrip C" "readable C segs w" "\<forall>s\<in>set segs. segment_ok C s"
  shows "\<exists>w' segs'. wal_ReadAll C w = (Inr (logItems [] (records segs)), w') \<and> wal_inv C segs' w' \<and>
    logItems [] (records segs') = logItems [] (records segs) \<and> wal_index w' = seg_index (List.last segs) + 1"
proof -
  have w: "segs \<noteq> []" "chained C segs" "onDisk C (wal_dir w) segs" "wal_open w" "wal_readMode w"
    "wal_activeIndexes w = map seg_index segs" "seg_index (List.last segs) \<noteq> max_u64"
    "wal_truncateIndex w = 0 \<or> wal_truncateIndex w = lastTrunc 0 segs"
    using assms(2) by (auto simp: readable_def)
  let ?w1 = "afterReading C segs w"
  have rf: "readFiles C l True (map seg_index segs) [] w = (Inr (logItems [] (records segs)), ?w1)" for l
    using readFiles_ok [OF assms(1), of segs "[]" w True l "[]"] w(2,3) assms(3) onDisk_stored by simp
  have t: "truncOK (wal_truncateIndex ?w1) segs"
    using truncOK_lastTrunc [OF w(2,1), of "wal_truncateIndex w" 0] w(8) by auto
  have lo: "log_ok C (wal_dir ?w1) segs" using w(2,3) assms(3) by (simp add: log_ok_def)
  obtain w2 segs' where del: "deleteAndCreateFile C ?w1 = Inr w2" "wal_inv C segs' (w2\<lparr>wal_readMode := False\<rparr>)"
    "logItems [] (records segs') = logItems [] (records segs)" "wal_index w2 = wal_index ?w1 + 1"
    using deleteAndCreateFile_ok [OF assms(1) lo w(1)] w(4,6,7) t afterReading_last [OF w(1), of C w] by auto
  have "wal_ReadAll C w = (Inr (logItems [] (records segs)), w2\<lparr>wal_readMode := False\<rparr>)"
    using w(1,4-6) rf del(1) by (simp add: wal_ReadAll_def)
  then show ?thesis using del afterReading_last [OF w(1), of C w] by auto
qed

subsection \<open>A torn last frame\<close>

text \<open>The last file ends with a part of a frame.\<close>

definition tornSegment :: "segment \<Rightarrow> bytes \<Rightarrow> segment" where
  "tornSegment s t = s\<lparr>seg_tail := t\<rparr>"

definition tornTail :: "bytes \<Rightarrow> bool" where
  "tornTail t \<longleftrightarrow> (\<exists>crc b k. t = take k (frame crc b) \<and> length b < 2 ^ 32 \<and> 0 < k \<and> k < length (frame crc b) \<and> k \<noteq> 8)"

lemma openReader_torn:
  assumes "logRoundtrip C" "stored C d s" "\<forall>x\<in>set (seg_recs s). writable C x" "tornTail (seg_tail s)"
  shows "\<exists>r. openReader C d (seg_index s) = Inr r \<and> rd_crc r = seg_crc s \<and>
    readRecords C r = (seg_recs s, r\<lparr>rd_offset := length (wholeFrames C s), rd_crc := segEnd C s\<rparr>, ErrUnexpectedEOF)"
proof -
  obtain crc b k where t: "seg_tail s = take k (frame crc b)" "length b < 2 ^ 32" "k < length (frame crc b)" "0 < k" "k \<noteq> 8"
    using assms(4) unfolding tornTail_def by blast
  show ?thesis
    using read_segment [OF assms(1,3) t(2,3), of "contents C s"] t(1,4,5) assms(2)
    by (auto simp: contents_def stored_def openReader_def)
qed

lemma ReadAll_torn:
  assumes "logRoundtrip C" "readable C (xs @ [l]) w" "\<forall>s\<in>set xs. segment_ok C s"
    and "\<forall>x\<in>set (seg_recs l). writable C x" "tornTail (seg_tail l)" "wal_truncateIndex w = 0"
  shows "\<exists>w1. wal_ReadAll C w = (Inl ErrUnexpectedEOF, w1) \<and> wal_dir w1 = wal_dir w \<and>
    wal_open w1 \<and> wal_readMode w1 \<and> wal_activeIndexes w1 = map seg_index (xs @ [l]) \<and>
    wal_truncateIndex w1 = lastTrunc 0 (xs @ [l])"
proof -
  have w: "chained C (xs @ [l])" "onDisk C (wal_dir w) (xs @ [l])" "wal_open w" "wal_readMode w"
    "wal_activeIndexes w = map seg_index (xs @ [l])"
    using assms(2) by (auto simp: readable_def)
  let ?w1 = "afterReading C xs w"
  have st: "stored C (wal_dir w) l" using onDisk_stored [OF w(2,1)] by simp
  obtain r where r: "openReader C (wal_dir w) (seg_index l) = Inr r" "rd_crc r = seg_crc l"
    "readRecords C r = (seg_recs l, r\<lparr>rd_offset := length (wholeFrames C l), rd_crc := segEnd C l\<rparr>, ErrUnexpectedEOF)"
    using openReader_torn [OF assms(1) st assms(4,5)] by blast
  have first: "xs = [] \<or> wal_crc ?w1 = seg_crc l"
  proof (cases xs rule: rev_cases)
    case (snoc ys y)
    then have "seg_crc l = segEnd C y" using w(1) chained_append [of C ys y "[l]"] by simp
    then show ?thesis using snoc afterReading_last [of xs C w] by simp
  qed simp
  have "readFiles C (seg_index l) True (map seg_index (xs @ [l])) [] w =
      readFiles C (seg_index l) (xs = []) [seg_index l] (logItems [] (records xs)) ?w1"
    using readFiles_ok [OF assms(1) w(1), of w True "seg_index l" "[]"] assms(3) onDisk_stored [OF w(2,1)] by simp
  also have "\<dots> = (Inl ErrUnexpectedEOF, ?w1\<lparr>wal_index := seg_index l, wal_truncateIndex := lastTrunc 0 (xs @ [l])\<rparr>)"
    using r first assms(6) by (auto simp: Let_def noteRecord_fold truncates_def lastTrunc_append)
  finally show ?thesis using w(3-5) by (simp add: wal_ReadAll_def)
qed

lemma scanVerifyFiles_ok:
  assumes "logRoundtrip C"
  shows "chained C segs \<Longrightarrow> \<forall>s\<in>set segs. segment_ok C s \<and> stored C d s \<Longrightarrow>
    crc = None \<or> segs = [] \<or> crc = Some (seg_crc (hd segs)) \<Longrightarrow> scanVerifyFiles C d crc (map seg_index segs) = None"
proof (induction segs arbitrary: crc)
  case (Cons s ss)
  obtain r where r: "NewLogRecordReader C (contents C s) = Inr r" "rd_crc r = seg_crc s"
    "readRecords C r = (seg_recs s, r\<lparr>rd_offset := length (wholeFrames C s), rd_crc := segEnd C s\<rparr>, EndOfFile)"
    using read_segment_ok [OF assms, of s] Cons.prems(2) by auto
  have "chained C ss" "ss = [] \<or> segEnd C s = seg_crc (hd ss)" using Cons.prems(1) by (cases ss; simp)+
  then have "scanVerifyFiles C d (Some (segEnd C s)) (map seg_index ss) = None"
    using Cons.IH [of "Some (segEnd C s)"] Cons.prems(2) by simp
  then show ?case using r Cons.prems(2,3) by (auto simp: stored_def openReader_def)
qed simp

lemma copyFile_simps [simp]: "dir_files (copyFile d i) = dir_files d" "stored C (copyFile d i) s = stored C d s"
  "openReader C (copyFile d i) j = openReader C d j" "fileBytes (copyFile d i) j = fileBytes d j"
  "onDisk C (copyFile d i) segs = onDisk C d segs"
  by (simp_all add: copyFile_def stored_def openReader_def fileBytes_def onDisk_def)

lemma chained_prefix: "chained C (xs @ [l]) \<Longrightarrow> chained C xs"
proof (cases xs rule: rev_cases)
  case (snoc ys y)
  then show "chained C (xs @ [l]) \<Longrightarrow> ?thesis" using chained_append [of C ys y "[l]"] by simp
qed simp

lemma Repair_torn:
  assumes "logRoundtrip C" "chained C (xs @ [l])" "onDisk C d (xs @ [l])" "\<forall>s\<in>set xs. segment_ok C s"
    and "\<forall>x\<in>set (seg_recs l). writable C x" "tornTail (seg_tail l)"
  shows "\<exists>d'. wal_Repair C d = Inr d' \<and> log_ok C d' (xs @ [tornSegment l []])"
proof -
  let ?l = "tornSegment l []"
  have l: "seg_index ?l = seg_index l" "seg_crc ?l = seg_crc l" "segment_ok C ?l" "contents C ?l = wholeFrames C l"
    using assms(5) by (simp_all add: tornSegment_def segment_ok_def contents_def wholeFrames_def)
  have st: "stored C d l" using onDisk_stored [OF assms(3,2)] by simp
  obtain r where r: "openReader C d (seg_index l) = Inr r"
    "readRecords C r = (seg_recs l, r\<lparr>rd_offset := length (wholeFrames C l), rd_crc := segEnd C l\<rparr>, ErrUnexpectedEOF)"
    using openReader_torn [OF assms(1) st assms(5,6)] by blast
  have cx: "chained C xs" using assms(2) by (rule chained_prefix)
  have "scanVerifyFiles C d None (map seg_index xs) = None"
    using scanVerifyFiles_ok [OF assms(1) cx, of d None] assms(4) onDisk_stored [OF assms(3,2)] by simp
  moreover have "fileBytes d (seg_index l) = wholeFrames C l @ seg_tail l"
    using st by (simp add: stored_def fileBytes_def contents_def)
  moreover have n: "dirReadWalNames d \<noteq> []" "butlast (dirReadWalNames d) = map seg_index xs"
    "List.last (dirReadWalNames d) = seg_index l"
    using onDisk_names [OF assms(3,2)] by simp_all
  moreover have "scanRepairFile C (copyFile d (seg_index l)) (seg_index l) =
      Inr (truncateFile (copyFile d (seg_index l)) (seg_index l) (length (wholeFrames C l)))"
    using r by (simp add: scanRepairFile_def)
  moreover have "truncateFile (copyFile d (seg_index l)) (seg_index l) (length (wholeFrames C l)) =
      setFile (copyFile d (seg_index l)) (seg_index l) (contents C ?l)"
    using calculation(2) by (simp add: truncateFile_def l(4))
  ultimately have "wal_Repair C d = Inr (setFile (copyFile d (seg_index l)) (seg_index l) (contents C ?l))"
    by (simp add: wal_Repair_def)
  moreover have "onDisk C (setFile (copyFile d (seg_index l)) (seg_index l) (contents C ?l)) (xs @ [?l])"
    using onDisk_replace [of C "copyFile d (seg_index l)" xs l ?l, unfolded l(1)] assms(3) chained_init [OF assms(2)] by simp
  ultimately show ?thesis
    using l(1-3) chained_change [OF assms(2), of ?l] assms(4) by (auto simp: log_ok_def)
qed

subsection \<open>Opening\<close>

lemma checkWalFiles_ok:
  "chained C segs \<Longrightarrow> \<forall>s\<in>set segs. \<exists>r. openReader C d (seg_index s) = Inr r \<Longrightarrow>
   prev = None \<or> segs = [] \<or> prev = Some (seg_index (hd segs) - 1) \<Longrightarrow>
   checkWalFiles C d prev (map seg_index segs) = Inr (map seg_index segs)"
proof (induction segs arbitrary: prev)
  case (Cons s ss)
  have "chained C ss" "ss = [] \<or> seg_index (hd ss) - 1 = seg_index s" using Cons.prems(1) by (cases ss; simp)+
  then have "checkWalFiles C d (Some (seg_index s)) (map seg_index ss) = Inr (map seg_index ss)"
    using Cons.IH [of "Some (seg_index s)"] Cons.prems(2) by auto
  then show ?case using Cons.prems(2,3) by auto
qed simp

lemma Open_ok:
  assumes "chained C segs" "onDisk C d segs" "segs \<noteq> []" "seg_index (List.last segs) \<noteq> max_u64"
    and "\<forall>s\<in>set segs. \<exists>r. openReader C d (seg_index s) = Inr r"
  shows "\<exists>w. wal_Open C d options = Inr w \<and> readable C segs w \<and> wal_dir w = d \<and> wal_truncateIndex w = 0"
proof -
  have n: "dirReadWalNames d = map seg_index segs" by (rule onDisk_names [OF assms(2,1)])
  have "sorted (map seg_index segs)" using chained_sorted [OF assms(1)] strict_sorted_iff by blast
  then have "sort (map seg_index segs) = map seg_index segs" by (simp add: sorted_sort_id)
  then show ?thesis
    using checkWalFiles_ok [OF assms(1,5), of None] assms(1-4) n by (simp add: wal_Open_def readable_def Let_def)
qed

lemma openReader_ok: "logRoundtrip C \<Longrightarrow> segment_ok C s \<Longrightarrow> stored C d s \<Longrightarrow> \<exists>r. openReader C d (seg_index s) = Inr r"
  using read_segment_ok [of C s] by (auto simp: stored_def openReader_def)

lemma Create_exists: "onDisk C d segs \<Longrightarrow> chained C segs \<Longrightarrow> segs \<noteq> [] \<Longrightarrow> wal_Create C d options = Inl ErrWALAlreadyExists"
  using onDisk_names by (simp add: wal_Create_def dirEmpty_def)

lemma Initialize_ok:
  assumes "logRoundtrip C" "log_ok C d segs" "segs \<noteq> []" "seg_index (List.last segs) \<noteq> max_u64"
  shows "\<exists>w' segs'. InitializeAndReadAll C d options = Inr (w', logItems [] (records segs)) \<and> wal_inv C segs' w' \<and>
    logItems [] (records segs') = logItems [] (records segs) \<and> wal_index w' = seg_index (List.last segs) + 1"
proof -
  have c: "chained C segs" "onDisk C d segs" "\<forall>s\<in>set segs. segment_ok C s" using assms(2) by (auto simp: log_ok_def)
  obtain w where w: "wal_Open C d options = Inr w" "readable C segs w"
    using Open_ok [OF c(1,2) assms(3,4)] openReader_ok [OF assms(1)] onDisk_stored [OF c(2,1)] c(3) by blast
  show ?thesis
    using ReadAll_ok [OF assms(1) w(2) c(3)] w(1) Create_exists [OF c(2,1) assms(3), of options]
    by (auto simp: InitializeAndReadAll_def)
qed

lemma Initialize_torn:
  assumes "logRoundtrip C" "chained C (xs @ [l])" "onDisk C d (xs @ [l])" "\<forall>s\<in>set xs. segment_ok C s"
    and "\<forall>x\<in>set (seg_recs l). writable C x" "tornTail (seg_tail l)" "seg_index l \<noteq> max_u64"
  shows "\<exists>w' segs'. InitializeAndReadAll C d options = Inr (w', logItems [] (records (xs @ [l]))) \<and> wal_inv C segs' w' \<and>
    logItems [] (records segs') = logItems [] (records (xs @ [l])) \<and> wal_index w' = seg_index l + 1"
proof -
  let ?l = "tornSegment l []"
  note st = onDisk_stored [OF assms(3,2)]
  have "\<exists>r. openReader C d (seg_index l) = Inr r" using openReader_torn [OF assms(1) _ assms(5,6)] st [of l] by auto
  then have "\<forall>s\<in>set (xs @ [l]). \<exists>r. openReader C d (seg_index s) = Inr r"
    using openReader_ok [OF assms(1)] assms(4) st by auto
  then obtain w where w: "wal_Open C d options = Inr w" "readable C (xs @ [l]) w" "wal_dir w = d" "wal_truncateIndex w = 0"
    using Open_ok [OF assms(2,3)] assms(7) by (metis last_snoc snoc_eq_iff_butlast)
  obtain w1 where w1: "wal_ReadAll C w = (Inl ErrUnexpectedEOF, w1)" "wal_dir w1 = wal_dir w" "wal_open w1" "wal_readMode w1"
    "wal_activeIndexes w1 = map seg_index (xs @ [l])" "wal_truncateIndex w1 = lastTrunc 0 (xs @ [l])"
    using ReadAll_torn [OF assms(1) w(2) assms(4-6) w(4)] by blast
  obtain d' where d': "wal_Repair C d = Inr d'" "log_ok C d' (xs @ [?l])"
    using Repair_torn [OF assms(1-6)] by blast
  have "lastTrunc 0 (xs @ [?l]) = lastTrunc 0 (xs @ [l])"
    by (simp add: lastTrunc_append tornSegment_def truncates_def)
  then have "readable C (xs @ [?l]) (w1\<lparr>wal_dir := d'\<rparr>)"
    using w1 d'(2) assms(7) by (simp add: readable_def log_ok_def tornSegment_def)
  from ReadAll_ok [OF assms(1) this] d'(2) obtain w' segs' where
    "wal_ReadAll C (w1\<lparr>wal_dir := d'\<rparr>) = (Inr (logItems [] (records (xs @ [?l]))), w')" "wal_inv C segs' w'"
    "logItems [] (records segs') = logItems [] (records (xs @ [?l]))" "wal_index w' = seg_index ?l + 1"
    by (auto simp: log_ok_def)
  then show ?thesis
    using w(1,3) w1(1,2) d'(1) Create_exists [OF assms(3,2), of options]
    by (auto simp: InitializeAndReadAll_def tornSegment_def)
qed

end
