(* ===== verification/Quorums.thy ===== *)
theory Quorums
  imports Prelude
begin

text \<open>
  The arithmetic that Byzantine fault tolerance rests on: \<open>computeQuorum\<close> and
  \<open>getLeaderID\<close> of internal/bft/util.go, the contract of a Byzantine quorum system as a
  locale, and its interpretation on the sizes \<open>computeQuorum\<close> gives.
\<close>

text \<open>
  \<open>math.Ceil\<close> of the halved sum is computed here on integers: \<open>float64\<close> is exact
  for every cluster of less than \<open>2 ^ 52\<close> nodes. Go's integer division truncates.
\<close>

definition computeQuorum :: "u64 \<Rightarrow> int \<times> int" where
  "computeQuorum n =
     (let f = (sint n - 1) sdiv 3;
          q = (uint n + f + 1 + 1) div 2
      in (q, f))"

text \<open>\<open>nodes[index % n]\<close>: a remainder by zero and an index past the end both panic.\<close>

definition nodeAt :: "u64 list \<Rightarrow> u64 \<Rightarrow> u64 \<Rightarrow> u64 outcome" where
  "nodeAt nodes index n =
     (if n = 0 then Inl (Panic ''integer divide by zero'')
      else if unat (index mod n) < length nodes then Inr (nodes ! unat (index mod n))
      else Inl (Panic ''index out of range''))"

fun leaderLoop :: "u64 \<Rightarrow> u64 \<Rightarrow> u64 list \<Rightarrow> u64 list \<Rightarrow> nat list \<Rightarrow> u64 outcome" where
  "leaderLoop start n nodes blackListed [] = Inl (Panic ''all nodes are blacklisted'')"
| "leaderLoop start n nodes blackListed (i # is) =
     andThen (nodeAt nodes (start + of_nat i) n)
       (\<lambda>node. if node \<in> set blackListed then leaderLoop start n nodes blackListed is
               else Inr node)"

definition getLeaderID ::
  "u64 \<Rightarrow> u64 \<Rightarrow> u64 list \<Rightarrow> bool \<Rightarrow> u64 \<Rightarrow> u64 \<Rightarrow> u64 list \<Rightarrow> u64 outcome" where
  "getLeaderID view n nodes leaderRotation decisionsInView decisionsPerLeader blacklist =
     (if \<not> leaderRotation then nodeAt nodes view n
      else if nodes = [] then leaderLoop view n nodes blacklist []
      else if decisionsPerLeader = 0 then Inl (Panic ''integer divide by zero'')
      else leaderLoop (view + decisionsInView div decisionsPerLeader) n nodes blacklist
             [0..<length nodes])"

text \<open>
  The node lists the library is run with (\<open>ValidateConfiguration\<close> rejects duplicates), and the
  sets of nodes whose votes count as a quorum.
\<close>

definition validNodes :: "u64 list \<Rightarrow> bool" where
  "validNodes nodes \<longleftrightarrow> nodes \<noteq> [] \<and> distinct nodes \<and> length nodes < 2 ^ 52"

definition quorumSize :: "u64 list \<Rightarrow> nat" where
  "quorumSize nodes = nat (fst (computeQuorum (of_nat (length nodes))))"

definition maxFaulty :: "u64 list \<Rightarrow> nat" where
  "maxFaulty nodes = nat (snd (computeQuorum (of_nat (length nodes))))"

definition isQuorum :: "u64 list \<Rightarrow> u64 set \<Rightarrow> bool" where
  "isQuorum nodes A \<longleftrightarrow> A \<subseteq> set nodes \<and> quorumSize nodes \<le> card A"

subsection \<open>The contract of a Byzantine quorum system\<close>

locale quorum_system =
  fixes members :: "'c \<Rightarrow> 'n set"
    and quorum :: "'c \<Rightarrow> 'n set \<Rightarrow> bool"
    and tolerated :: "'c \<Rightarrow> nat"
    and valid :: "'c \<Rightarrow> bool"
  assumes members_finite: "valid c \<Longrightarrow> finite (members c)"
    and quorum_members: "quorum c A \<Longrightarrow> A \<subseteq> members c"
    and quorums_overlap: "valid c \<Longrightarrow> quorum c A \<Longrightarrow> quorum c B \<Longrightarrow> tolerated c < card (A \<inter> B)"
    and quorum_available:
      "valid c \<Longrightarrow> F \<subseteq> members c \<Longrightarrow> card F \<le> tolerated c \<Longrightarrow> quorum c (members c - F)"
begin

lemma enough_has_correct:
  assumes "valid c" "F \<subseteq> members c" "card F \<le> tolerated c" "tolerated c < card A"
  shows "\<exists>x\<in>A. x \<notin> F"
proof (rule ccontr)
  assume "\<not> (\<exists>x\<in>A. x \<notin> F)"
  then have "A \<subseteq> F" by blast
  moreover have "finite F" using assms(1,2) members_finite finite_subset by blast
  ultimately have "card A \<le> card F" by (rule card_mono [rotated])
  with assms(3,4) show False by simp
qed

lemma quorums_share_correct:
  assumes "valid c" "quorum c A" "quorum c B" "F \<subseteq> members c" "card F \<le> tolerated c"
  shows "\<exists>x\<in>A \<inter> B. x \<notin> F"
  using assms by (intro enough_has_correct quorums_overlap)

text \<open>
  The argument every agreement proof uses: if no correct member backs two values, then two
  values that are each backed by a quorum are equal.
\<close>

lemma quorum_agreement:
  assumes "valid c" "quorum c A" "quorum c B" "F \<subseteq> members c" "card F \<le> tolerated c"
    and backs_A: "\<And>x. x \<in> A \<Longrightarrow> x \<notin> F \<Longrightarrow> backs x u"
    and backs_B: "\<And>x. x \<in> B \<Longrightarrow> x \<notin> F \<Longrightarrow> backs x v"
    and once: "\<And>x u v. x \<notin> F \<Longrightarrow> backs x u \<Longrightarrow> backs x v \<Longrightarrow> u = v"
  shows "u = v"
proof -
  obtain x where "x \<in> A \<inter> B" "x \<notin> F"
    using quorums_share_correct [OF assms(1-5)] by blast
  then show ?thesis using backs_A backs_B once by blast
qed

end

subsection \<open>What computeQuorum computes\<close>

lemma sint_of_nat_small: "n < 2 ^ 63 \<Longrightarrow> sint (of_nat n :: u64) = int n"
  by (simp add: signed_of_nat signed_take_bit_int_eq_self)

lemma uint_of_nat_small: "n < 2 ^ 64 \<Longrightarrow> uint (of_nat n :: u64) = int n"
  by (simp add: unsigned_of_nat take_bit_nat_def)

lemma unat_of_nat_small: "n < 2 ^ 64 \<Longrightarrow> unat (of_nat n :: u64) = n"
  by (simp add: unsigned_of_nat take_bit_nat_def)

lemma computeQuorum_of_nat:
  assumes "0 < n" "n < 2 ^ 52"
  shows "computeQuorum (of_nat n) = ((int n + (int n - 1) div 3 + 2) div 2, (int n - 1) div 3)"
proof -
  have "(int n - 1) sdiv 3 = (int n - 1) div 3"
    using assms(1) by (cases "n = 1") (auto simp: signed_divide_int_def sgn_if)
  with assms show ?thesis
    by (simp add: computeQuorum_def sint_of_nat_small uint_of_nat_small Let_def add.commute
        add.left_commute)
qed

lemma quorumSize_eq:
  assumes "validNodes nodes"
  shows "quorumSize nodes = (length nodes + (length nodes - 1) div 3 + 2) div 2"
proof -
  have "0 < length nodes" "length nodes < 2 ^ 52"
    using assms by (auto simp: validNodes_def)
  then show ?thesis
    unfolding quorumSize_def computeQuorum_of_nat [OF \<open>0 < length nodes\<close> \<open>length nodes < 2 ^ 52\<close>]
    by (simp only: fst_conv)
qed

lemma maxFaulty_eq:
  assumes "validNodes nodes"
  shows "maxFaulty nodes = (length nodes - 1) div 3"
proof -
  have "0 < length nodes" "length nodes < 2 ^ 52"
    using assms by (auto simp: validNodes_def)
  then show ?thesis
    unfolding maxFaulty_def computeQuorum_of_nat [OF \<open>0 < length nodes\<close> \<open>length nodes < 2 ^ 52\<close>]
    by simp
qed

lemma card_set_validNodes: "validNodes nodes \<Longrightarrow> card (set nodes) = length nodes"
  by (simp add: validNodes_def distinct_card)

lemma isQuorum_overlap:
  assumes v: "validNodes nodes" and A: "isQuorum nodes A" and B: "isQuorum nodes B"
  shows "maxFaulty nodes < card (A \<inter> B)"
proof -
  have fin: "finite A" "finite B"
    using A B by (auto simp: isQuorum_def intro: finite_subset)
  have "A \<union> B \<subseteq> set nodes" using A B by (auto simp: isQuorum_def)
  then have "card (A \<union> B) \<le> length nodes"
    using card_mono [of "set nodes" "A \<union> B"] card_set_validNodes [OF v] by simp
  moreover have "card A + card B = card (A \<union> B) + card (A \<inter> B)"
    using fin by (rule card_Un_Int)
  moreover have "quorumSize nodes \<le> card A" "quorumSize nodes \<le> card B"
    using A B by (auto simp: isQuorum_def)
  moreover have "length nodes > 0" using v by (simp add: validNodes_def)
  ultimately show ?thesis
    unfolding quorumSize_eq [OF v] maxFaulty_eq [OF v] by linarith
qed

lemma isQuorum_available:
  assumes v: "validNodes nodes" and F: "F \<subseteq> set nodes" "card F \<le> maxFaulty nodes"
  shows "isQuorum nodes (set nodes - F)"
proof -
  have "card (set nodes - F) = length nodes - card F"
    using F(1) card_set_validNodes [OF v] by (simp add: card_Diff_subset finite_subset)
  moreover have "length nodes > 0" using v by (simp add: validNodes_def)
  ultimately show ?thesis
    using F(2) unfolding isQuorum_def quorumSize_eq [OF v] maxFaulty_eq [OF v]
    by (intro conjI Diff_subset) linarith
qed

interpretation cluster: quorum_system set isQuorum maxFaulty validNodes
proof unfold_locales
  show "A \<subseteq> set c" if "isQuorum c A" for c A
    using that by (simp add: isQuorum_def)
qed (simp_all add: isQuorum_overlap isQuorum_available)

subsection \<open>The leader is the first node in rotation order that is not blacklisted\<close>

lemma nodeAt_in_range:
  assumes "nodes \<noteq> []" "length nodes < 2 ^ 64"
  shows "nodeAt nodes index (of_nat (length nodes)) = Inr (nodes ! (unat index mod length nodes))"
proof -
  have n: "unat (of_nat (length nodes) :: u64) = length nodes"
    using assms(2) by (rule unat_of_nat_small)
  then have "of_nat (length nodes) \<noteq> (0 :: u64)"
    using assms(1) by (metis length_0_conv unat_0)
  then show ?thesis
    using assms(1) n by (simp add: nodeAt_def unat_mod)
qed

lemma nodeAt_Inr_in: "nodeAt nodes index n = Inr l \<Longrightarrow> l \<in> set nodes"
  by (auto simp: nodeAt_def split: if_splits)

lemma leaderLoop_find:
  assumes "nodes \<noteq> []" "length nodes < 2 ^ 64" "\<forall>i\<in>set is. unat start + i < 2 ^ 64"
  shows "leaderLoop start (of_nat (length nodes)) nodes bl is =
    (case find (\<lambda>x. x \<notin> set bl) (map (\<lambda>i. nodes ! ((unat start + i) mod length nodes)) is) of
       None \<Rightarrow> Inl (Panic ''all nodes are blacklisted'') | Some l \<Rightarrow> Inr l)"
  using assms(3)
proof (induction "is")
  case (Cons i "is")
  then have "unat (start + of_nat i) = unat start + i"
    by (simp add: unat_word_ariths unsigned_of_nat take_bit_nat_def)
  with Cons show ?case
    by (simp add: nodeAt_in_range [OF assms(1,2)])
qed simp

lemma rotate_conv_map:
  "xs \<noteq> [] \<Longrightarrow> map (\<lambda>i. xs ! ((k + i) mod length xs)) [0..<length xs] = rotate k xs"
  by (rule nth_equalityI) (simp_all add: nth_rotate)

lemma leaderLoop_rotate:
  assumes "validNodes nodes" "unat start + length nodes \<le> 2 ^ 64"
  shows "leaderLoop start (of_nat (length nodes)) nodes bl [0..<length nodes] =
    (case find (\<lambda>x. x \<notin> set bl) (rotate (unat start) nodes) of
       None \<Rightarrow> Inl (Panic ''all nodes are blacklisted'') | Some l \<Rightarrow> Inr l)"
  using assms by (subst leaderLoop_find) (auto simp: validNodes_def rotate_conv_map)

lemma leaderLoop_Inr:
  "leaderLoop start n nodes bl is = Inr l \<Longrightarrow> l \<in> set nodes \<and> l \<notin> set bl"
  by (induction "is") (auto simp: andThen_eq_Inr_iff nodeAt_Inr_in split: if_splits)

lemma getLeaderID_Inr:
  "getLeaderID view n nodes rot dec per bl = Inr l \<Longrightarrow> l \<in> set nodes \<and> (rot \<longrightarrow> l \<notin> set bl)"
  by (auto simp: getLeaderID_def nodeAt_Inr_in dest: leaderLoop_Inr split: if_splits)

lemma getLeaderID_total:
  assumes "validNodes nodes" "per \<noteq> 0" "unat (view + dec div per) + length nodes \<le> 2 ^ 64"
    and "length bl < length nodes"
  shows "\<exists>l. getLeaderID view (of_nat (length nodes)) nodes True dec per bl = Inr l"
proof -
  have "\<not> set nodes \<subseteq> set bl"
  proof
    assume "set nodes \<subseteq> set bl"
    then have "length nodes \<le> length bl"
      using assms(1) by (intro distinct_length_le_set) (auto simp: validNodes_def)
    with assms(4) show False by simp
  qed
  then obtain x where "x \<in> set (rotate (unat (view + dec div per)) nodes)" "x \<notin> set bl" by auto
  then have "find (\<lambda>x. x \<notin> set bl) (rotate (unat (view + dec div per)) nodes) \<noteq> None"
    by (auto simp: find_None_iff)
  then show ?thesis
    using assms(1,2) leaderLoop_rotate [OF assms(1,3), of bl]
    by (auto simp: getLeaderID_def validNodes_def)
qed

subsection \<open>Properties\<close>

text \<open>
  C24: for a cluster of distinct nodes, the pair computed by \<open>computeQuorum\<close> is what its
  documentation promises: \<open>f\<close> is the largest number with \<open>n \<ge> 3 f + 1\<close>, any two sets of
  \<open>q\<close> nodes intersect in at least \<open>f + 1\<close> nodes, and the nodes that remain when \<open>f\<close> of
  them stop still form a quorum, so that the quorum size is both safe and live.
\<close>

theorem computeQuorum_safe_and_live:
  fixes nodes :: "u64 list"
  assumes "nodes \<noteq> []" "distinct nodes" "length nodes < 2 ^ 52"
    and "computeQuorum (of_nat (length nodes)) = (q, f)"
  shows "3 * f + 1 \<le> int (length nodes) \<and> int (length nodes) < 3 * (f + 1) + 1 \<and>
    (\<forall>A B. A \<subseteq> set nodes \<longrightarrow> B \<subseteq> set nodes \<longrightarrow> q \<le> int (card A) \<longrightarrow> q \<le> int (card B) \<longrightarrow>
       f + 1 \<le> int (card (A \<inter> B))) \<and>
    (\<forall>F. F \<subseteq> set nodes \<longrightarrow> int (card F) \<le> f \<longrightarrow> q \<le> int (card (set nodes - F)))"
proof -
  have v: "validNodes nodes" using assms(1-3) by (simp add: validNodes_def)
  have f: "f = (int (length nodes) - 1) div 3" and q: "q = (int (length nodes) + f + 2) div 2"
    using assms computeQuorum_of_nat [of "length nodes"] by auto
  have f': "int (maxFaulty nodes) = f" and q': "int (quorumSize nodes) = q"
    using assms(1,4) f q by (auto simp: maxFaulty_def quorumSize_def)
  have "f + 1 \<le> int (card (A \<inter> B))"
    if "A \<subseteq> set nodes" "B \<subseteq> set nodes" "q \<le> int (card A)" "q \<le> int (card B)" for A B
    using cluster.quorums_overlap [OF v, of A B] that f' q' by (auto simp: isQuorum_def)
  moreover have "q \<le> int (card (set nodes - F))" if "F \<subseteq> set nodes" "int (card F) \<le> f" for F
    using cluster.quorum_available [OF v, of F] that f' q' by (auto simp: isQuorum_def)
  ultimately show ?thesis using f by auto
qed

theorem computeQuorum_safe_and_live_witness:
  "computeQuorum (of_nat (length [11, 12, 13, 14 :: u64])) = (3, 1) \<and>
   1 + 1 \<le> int (card ({11, 12, 13} \<inter> {12, 13, 14 :: u64}))"
proof -
  have c: "computeQuorum (of_nat (length [11, 12, 13, 14 :: u64])) = (3, 1)"
    by (simp add: computeQuorum_def signed_divide_int_def)
  have "f + 1 \<le> int (card (A \<inter> B))"
    if "(q, f) = (3, 1)" "A = {11, 12, 13 :: u64}" "B = {12, 13, 14 :: u64}" for q f A B
    using computeQuorum_safe_and_live [of "[11, 12, 13, 14]", OF _ _ _ c] that by auto
  then have "1 + 1 \<le> int (card ({11, 12, 13} \<inter> {12, 13, 14 :: u64}))" by simp
  with c show ?thesis by blast
qed

text \<open>
  C25: with leader rotation on, the leader of a view is the first node, in the node list
  rotated by the view number plus the completed leader terms, that is not on the blacklist;
  \<open>getLeaderID\<close> panics exactly when every node is blacklisted. (The counter must not wrap
  around \<open>2 ^ 64\<close> inside the scan.)
\<close>

theorem getLeaderID_rotation_spec:
  assumes "nodes \<noteq> []" "distinct nodes" "length nodes < 2 ^ 52" "decisionsPerLeader \<noteq> 0"
    and "unat (view + decisionsInView div decisionsPerLeader) + length nodes \<le> 2 ^ 64"
  shows "getLeaderID view (of_nat (length nodes)) nodes True decisionsInView decisionsPerLeader bl =
    (case find (\<lambda>x. x \<notin> set bl)
            (rotate (unat (view + decisionsInView div decisionsPerLeader)) nodes) of
       None \<Rightarrow> Inl (Panic ''all nodes are blacklisted'')
     | Some leader \<Rightarrow> Inr leader)"
  using assms leaderLoop_rotate [of nodes "view + decisionsInView div decisionsPerLeader" bl]
  by (simp add: getLeaderID_def validNodes_def)

theorem getLeaderID_rotation_spec_witness:
  "getLeaderID 2 (of_nat (length [11, 12, 13, 14 :: u64])) [11, 12, 13, 14] True 7 3 [11, 12] = Inr 13"
proof -
  have "rotate (unat (2 + 7 div 3 :: u64)) [11, 12, 13, 14 :: u64] = [11, 12, 13, 14]"
    by (intro rotate_id) simp
  then show ?thesis
    using getLeaderID_rotation_spec [of "[11, 12, 13, 14]" 3 2 7 "[11, 12]"] by simp
qed

end
