(* ===== verification/Protos.thy ===== *)
theory Protos
  imports Prelude
begin

text \<open>
  The data the components exchange: the protobuf messages of smartbftprotos, the structs of
  pkg/types, and the services of pkg/api that the library calls but does not implement.

  \<open>types.Proposal\<close> and \<open>protos.Proposal\<close> hold the same fields, with the verification
  sequence as \<open>int64\<close> in one and \<open>uint64\<close> in the other; the conversions the code makes keep
  the bits, so both are the record \<open>Proposal\<close> with a 64 bit word. The same holds for the
  two signature structs. Only the metadata of a proposal is ever compared with nil.
\<close>

record Proposal =
  Payload :: bytes
  Header :: bytes
  Metadata :: "bytes option"
  VerificationSequence :: u64

record Signature =
  Signer :: u64
  Value :: bytes
  Msg :: bytes

record RequestInfo =
  ClientID :: string
  RequestID :: string

record ViewMetadata =
  ViewId :: u64
  LatestSequence :: u64
  DecisionsInView :: u64
  BlackList :: "u64 list"
  PrevCommitSignatureDigest :: bytes

record PrePrepare =
  pp_View :: u64
  pp_Seq :: u64
  pp_Proposal :: "Proposal option"
  pp_PrevCommitSignatures :: "Signature list"

record Prepare =
  prp_View :: u64
  prp_Seq :: u64
  prp_Digest :: string
  prp_Assist :: bool

record Commit =
  cmt_View :: u64
  cmt_Seq :: u64
  cmt_Digest :: string
  cmt_Signature :: "Signature option"
  cmt_Assist :: bool

record ViewData =
  vd_NextView :: u64
  vd_LastDecision :: "Proposal option"
  vd_LastDecisionSignatures :: "Signature list"
  vd_InFlightProposal :: "Proposal option"
  vd_InFlightPrepared :: bool

record SignedViewData =
  svd_RawViewData :: bytes
  svd_Signer :: u64
  svd_Signature :: bytes

record ViewAndSeq =
  vs_View :: u64
  vs_Seq :: u64

record ViewSequence =
  ViewActive :: bool
  ProposalSeq :: u64

text \<open>The \<open>oneof\<close> of a message; \<open>NoContent\<close> is a message whose content is nil.\<close>

datatype Message =
    PrePrepareMsg PrePrepare
  | PrepareMsg Prepare
  | CommitMsg Commit
  | ViewChangeMsg u64
  | ViewDataMsg SignedViewData
  | NewViewMsg "SignedViewData list"
  | HeartBeatMsg u64 u64
  | HeartBeatResponseMsg u64
  | StateTransferRequestMsg
  | StateTransferResponseMsg u64 u64
  | NoContent

datatype SavedMessage =
    SavedProposedRecord PrePrepare Prepare
  | SavedCommit Message
  | SavedNewView ViewMetadata
  | SavedViewChange u64
  | SavedNothing

text \<open>The getters of the generated code: nil when the content is of another kind.\<close>

fun GetPrePrepare :: "Message \<Rightarrow> PrePrepare option" where
  "GetPrePrepare (PrePrepareMsg pp) = Some pp"
| "GetPrePrepare _ = None"

fun GetPrepare :: "Message \<Rightarrow> Prepare option" where
  "GetPrepare (PrepareMsg prp) = Some prp"
| "GetPrepare _ = None"

fun GetCommit :: "Message \<Rightarrow> Commit option" where
  "GetCommit (CommitMsg cmt) = Some cmt"
| "GetCommit _ = None"

definition viewNumber :: "Message \<Rightarrow> u64" where
  "viewNumber m =
     (case GetPrePrepare m of Some pp \<Rightarrow> pp_View pp
      | None \<Rightarrow> (case GetPrepare m of Some prp \<Rightarrow> prp_View prp
      | None \<Rightarrow> (case GetCommit m of Some cmt \<Rightarrow> cmt_View cmt
      | None \<Rightarrow> max_u64)))"

definition proposalSequence :: "Message \<Rightarrow> u64" where
  "proposalSequence m =
     (case GetPrePrepare m of Some pp \<Rightarrow> pp_Seq pp
      | None \<Rightarrow> (case GetPrepare m of Some prp \<Rightarrow> prp_Seq prp
      | None \<Rightarrow> (case GetCommit m of Some cmt \<Rightarrow> cmt_Seq cmt
      | None \<Rightarrow> max_u64)))"

text \<open>
  \<open>proto.Equal\<close> on two proposals: a nil and an empty metadata field are the same message.
\<close>

definition proposalEqual :: "Proposal \<Rightarrow> Proposal \<Rightarrow> bool" where
  "proposalEqual p q \<longleftrightarrow>
     Payload p = Payload q \<and> Header p = Header q \<and>
     bytes_of (Metadata p) = bytes_of (Metadata q) \<and>
     VerificationSequence p = VerificationSequence q"

definition emptyViewMetadata :: ViewMetadata where
  "emptyViewMetadata = \<lparr>ViewId = 0, LatestSequence = 0, DecisionsInView = 0, BlackList = [],
     PrevCommitSignatureDigest = []\<rparr>"

text \<open>
  The serialisation and hashing libraries (google.golang.org/protobuf, encoding/asn1,
  crypto/sha256): parameters of the model. \<open>None\<close> is a decoding error.
\<close>

record codec =
  marshalMetadata :: "ViewMetadata \<Rightarrow> bytes"
  unmarshalMetadata :: "bytes \<Rightarrow> ViewMetadata option"
  marshalPreparesFrom :: "u64 list \<Rightarrow> bytes"
  unmarshalPreparesFrom :: "bytes \<Rightarrow> u64 list option"
  marshalViewData :: "ViewData \<Rightarrow> bytes"
  unmarshalViewData :: "bytes \<Rightarrow> ViewData option"
  marshalSaved :: "SavedMessage \<Rightarrow> bytes"
  unmarshalSaved :: "bytes \<Rightarrow> SavedMessage option"
  asn1Proposal :: "Proposal \<Rightarrow> bytes"
  asn1Signatures :: "(u64 \<times> bytes \<times> bytes) list \<Rightarrow> bytes"
  sha256 :: "bytes \<Rightarrow> bytes"

text \<open>
  The services the application implements (pkg/api/dependencies.go). They may depend on the
  state \<open>'a\<close> of the application, which only \<open>Deliver\<close> and the synchronizer change. An error
  result is \<open>None\<close>; a nil \<open>MembershipNotifier\<close> is \<open>None\<close>.
\<close>

record 'a services =
  api_VerifyProposal :: "'a \<Rightarrow> Proposal \<Rightarrow> RequestInfo list option"
  api_VerifyConsenterSig :: "'a \<Rightarrow> Signature \<Rightarrow> Proposal \<Rightarrow> bytes option"
  api_VerifySignature :: "'a \<Rightarrow> Signature \<Rightarrow> bool"
  api_VerificationSequence :: "'a \<Rightarrow> u64"
  api_RequestsFromProposal :: "'a \<Rightarrow> Proposal \<Rightarrow> RequestInfo list"
  api_AuxiliaryData :: "'a \<Rightarrow> bytes \<Rightarrow> bytes"
  api_MembershipNotifier :: "('a \<Rightarrow> bool) option"
  api_SignProposal :: "'a \<Rightarrow> Proposal \<Rightarrow> bytes \<Rightarrow> Signature"
  api_Sign :: "'a \<Rightarrow> bytes \<Rightarrow> bytes"

definition hexDigit :: "nat \<Rightarrow> char" where
  "hexDigit d = (if d < 10 then char_of (48 + d) else char_of (87 + d))"

definition hexEncode :: "bytes \<Rightarrow> string" where
  "hexEncode bs = concat (map (\<lambda>b. [hexDigit (unat b div 16), hexDigit (unat b mod 16)]) bs)"

definition computeDigest :: "codec \<Rightarrow> bytes \<Rightarrow> string" where
  "computeDigest C rawBytes = hexEncode (sha256 C rawBytes)"

definition Digest :: "codec \<Rightarrow> Proposal \<Rightarrow> string" where
  "Digest C p = computeDigest C (asn1Proposal C p)"

definition CommitSignaturesDigest :: "codec \<Rightarrow> Signature list \<Rightarrow> bytes" where
  "CommitSignaturesDigest C sigs =
     (if sigs = [] then []
      else sha256 C (asn1Signatures C (map (\<lambda>sig. (Signer sig, Value sig, Msg sig)) sigs)))"

text \<open>The stable checkpoint: the last decided proposal with its signatures.\<close>

record Checkpoint =
  ckp_proposal :: Proposal
  ckp_signatures :: "Signature list"

definition Checkpoint_Get :: "Checkpoint \<Rightarrow> Proposal \<times> Signature list" where
  "Checkpoint_Get c = (ckp_proposal c, ckp_signatures c)"

definition Checkpoint_Set :: "Checkpoint \<Rightarrow> Proposal \<Rightarrow> Signature list \<Rightarrow> Checkpoint" where
  "Checkpoint_Set c proposal signatures =
     c\<lparr>ckp_proposal := proposal, ckp_signatures := signatures\<rparr>"

lemma proposalEqual_refl [simp]: "proposalEqual p p"
  by (simp add: proposalEqual_def)

lemma proposalEqual_sym: "proposalEqual p q \<Longrightarrow> proposalEqual q p"
  by (simp add: proposalEqual_def)

lemma proposalEqual_trans: "proposalEqual p q \<Longrightarrow> proposalEqual q r \<Longrightarrow> proposalEqual p r"
  by (simp add: proposalEqual_def)

lemma GetPrePrepare_Some [simp]: "GetPrePrepare m = Some pp \<longleftrightarrow> m = PrePrepareMsg pp"
  by (cases m) auto

lemma GetPrepare_Some [simp]: "GetPrepare m = Some prp \<longleftrightarrow> m = PrepareMsg prp"
  by (cases m) auto

lemma GetCommit_Some [simp]: "GetCommit m = Some cmt \<longleftrightarrow> m = CommitMsg cmt"
  by (cases m) auto

lemma viewNumber_simps [simp]:
  "viewNumber (PrePrepareMsg pp) = pp_View pp"
  "viewNumber (PrepareMsg prp) = prp_View prp"
  "viewNumber (CommitMsg cmt) = cmt_View cmt"
  by (simp_all add: viewNumber_def)

lemma proposalSequence_simps [simp]:
  "proposalSequence (PrePrepareMsg pp) = pp_Seq pp"
  "proposalSequence (PrepareMsg prp) = prp_Seq prp"
  "proposalSequence (CommitMsg cmt) = cmt_Seq cmt"
  by (simp_all add: proposalSequence_def)

lemma Checkpoint_Get_Set [simp]: "Checkpoint_Get (Checkpoint_Set c p sigs) = (p, sigs)"
  by (simp add: Checkpoint_Get_def Checkpoint_Set_def)

end
