(* ===== verification/Blacklist.thy ===== *)
theory Blacklist
  imports Quorums Protos
begin

text \<open>
  The deterministic maintenance of the leader blacklist: \<open>blacklist.computeUpdate\<close>,
  \<open>pruneBlacklist\<close> and \<open>equalIntLists\<close> of internal/bft/util.go. Logging and the metrics are
  left out; they do not change the result.
\<close>

record blacklist =
  bl_currentLeader :: u64
  bl_leaderRotation :: bool
  bl_prevMD :: ViewMetadata
  bl_n :: u64
  bl_nodes :: "u64 list"
  bl_currView :: u64
  bl_preparesFrom :: "(u64 \<times> u64 list) list"
  bl_f :: int
  bl_decisionsPerLeader :: u64

text \<open>The acknowledgements of a node: one for every time an observer lists it.\<close>

definition nodeID2Acks :: "(u64 \<times> u64 list) list \<Rightarrow> u64 \<Rightarrow> int" where
  "nodeID2Acks preparesFrom node =
     int (sum_list (map (\<lambda>(from, ids). count_list ids node) preparesFrom))"

definition pruneBlacklist ::
  "u64 list \<Rightarrow> (u64 \<times> u64 list) list \<Rightarrow> int \<Rightarrow> u64 list \<Rightarrow> u64 list" where
  "pruneBlacklist prevBlacklist preparesFrom f nodes =
     (if prevBlacklist = [] then prevBlacklist
      else filter (\<lambda>node. node \<in> set nodes \<and> \<not> (nodeID2Acks preparesFrom node > f)) prevBlacklist)"

text \<open>
  The loop over the skipped views, from the view of the previous decision up to the current
  one. Its counter is a \<open>uint64\<close> below the current view, so the increment does not wrap.
\<close>

function skippedLeaders ::
  "blacklist \<Rightarrow> u64 \<Rightarrow> u64 \<Rightarrow> u64 list \<Rightarrow> u64 list outcome" where
  "skippedLeaders bl offset viewPrev newBlacklist =
     (if viewPrev < bl_currView bl then
        andThen (getLeaderID viewPrev (bl_n bl) (bl_nodes bl) (bl_leaderRotation bl)
                   (DecisionsInView (bl_prevMD bl) + offset) (bl_decisionsPerLeader bl)
                   (BlackList (bl_prevMD bl)))
          (\<lambda>leaderID.
             if leaderID = bl_currentLeader bl
             then skippedLeaders bl offset (viewPrev + 1) newBlacklist
             else skippedLeaders bl offset (viewPrev + 1) (newBlacklist @ [leaderID]))
      else Inr newBlacklist)"
  by pat_completeness auto

termination skippedLeaders
  by (relation "measure (\<lambda>(bl, offset, v, acc). unat (bl_currView bl) - unat v)")
     (auto intro: counter_decreases)

declare skippedLeaders.simps [simp del]

text \<open>\<open>newBlacklist[1:]\<close> until the list is not longer than \<open>f\<close>.\<close>

fun dropOldest :: "int \<Rightarrow> u64 list \<Rightarrow> u64 list outcome" where
  "dropOldest f [] = (if 0 > f then Inl (Panic ''slice bounds out of range'') else Inr [])"
| "dropOldest f (x # xs) = (if int (length (x # xs)) > f then dropOldest f xs else Inr (x # xs))"

definition computeUpdate :: "blacklist \<Rightarrow> u64 list outcome" where
  "computeUpdate bl =
     (let newBlacklist = BlackList (bl_prevMD bl);
          viewBeforeViewChanges = ViewId (bl_prevMD bl);
          updated =
            (if viewBeforeViewChanges \<noteq> bl_currView bl then
               (let offset = (if LatestSequence (bl_prevMD bl) = 0 then 0 else 1)
                in skippedLeaders bl offset viewBeforeViewChanges newBlacklist)
             else Inr (pruneBlacklist newBlacklist (bl_preparesFrom bl) (bl_f bl) (bl_nodes bl)))
      in andThen updated (dropOldest (bl_f bl)))"

fun equalIntLists :: "u64 list \<Rightarrow> u64 list \<Rightarrow> bool" where
  "equalIntLists [] [] = True"
| "equalIntLists (x # xs) (y # ys) = (x = y \<and> equalIntLists xs ys)"
| "equalIntLists _ _ = False"

text \<open>Two skipped views of a seven node cluster whose blacklist is not empty.\<close>

definition exampleBlacklist :: blacklist where
  "exampleBlacklist = \<lparr>bl_currentLeader = 4, bl_leaderRotation = True,
     bl_prevMD = emptyViewMetadata\<lparr>ViewId := 1, LatestSequence := 5, BlackList := [2]\<rparr>,
     bl_n = 7, bl_nodes = [1, 2, 3, 4, 5, 6, 7], bl_currView = 3, bl_preparesFrom = [],
     bl_f = 2, bl_decisionsPerLeader = 3\<rparr>"

lemma equalIntLists_iff [simp]: "equalIntLists a b \<longleftrightarrow> a = b"
  by (induction a b rule: equalIntLists.induct) auto

lemma dropOldest_eq:
  "0 \<le> f \<Longrightarrow> dropOldest f l = Inr (drop (length l - nat f) l)"
  by (induction l) (auto simp: Suc_diff_le nat_le_iff)

lemma dropOldest_length: "dropOldest f l = Inr l' \<Longrightarrow> int (length l') \<le> f"
  by (induction l) (auto split: if_splits)

lemma dropOldest_set: "dropOldest f l = Inr l' \<Longrightarrow> set l' \<subseteq> set l"
  by (induction l) (auto split: if_splits)

lemma skippedLeaders_set:
  "skippedLeaders bl offset v acc = Inr l \<Longrightarrow>
   set acc \<subseteq> set l \<and> set l \<subseteq> set acc \<union> (set (bl_nodes bl) - {bl_currentLeader bl})"
proof (induction bl offset v acc rule: skippedLeaders.induct)
  case (1 bl offset v acc)
  show ?case
  proof (cases "v < bl_currView bl")
    case True
    then obtain leader where
      leader: "getLeaderID v (bl_n bl) (bl_nodes bl) (bl_leaderRotation bl)
         (DecisionsInView (bl_prevMD bl) + offset) (bl_decisionsPerLeader bl)
         (BlackList (bl_prevMD bl)) = Inr leader"
      and rest: "skippedLeaders bl offset (v + 1)
         (if leader = bl_currentLeader bl then acc else acc @ [leader]) = Inr l"
      using "1.prems" by (auto simp: skippedLeaders.simps [of bl offset v acc] andThen_eq_Inr_iff
          split: if_splits)
    show ?thesis
      using "1.IH" [OF True] rest getLeaderID_Inr [OF leader]
      by (cases "leader = bl_currentLeader bl") auto
  next
    case False
    with "1.prems" show ?thesis by (simp add: skippedLeaders.simps [of bl offset v acc])
  qed
qed

lemma skippedLeaders_total:
  assumes "validNodes (bl_nodes bl)" "bl_n bl = of_nat (length (bl_nodes bl))"
    and "bl_decisionsPerLeader bl \<noteq> 0" "bl_leaderRotation bl"
    and "length (BlackList (bl_prevMD bl)) < length (bl_nodes bl)"
    and "unat (bl_currView bl) +
      unat ((DecisionsInView (bl_prevMD bl) + offset) div bl_decisionsPerLeader bl) +
      length (bl_nodes bl) \<le> 2 ^ 64"
  shows "\<exists>l. skippedLeaders bl offset v acc = Inr l"
  using assms
proof (induction bl offset v acc rule: skippedLeaders.induct)
  case (1 bl offset v acc)
  let ?dec = "DecisionsInView (bl_prevMD bl) + offset"
  show ?case
  proof (cases "v < bl_currView bl")
    case True
    have "unat (v + ?dec div bl_decisionsPerLeader bl) \<le>
        unat v + unat (?dec div bl_decisionsPerLeader bl)"
      by (simp add: unat_word_ariths)
    also have "\<dots> \<le> unat (bl_currView bl) + unat (?dec div bl_decisionsPerLeader bl)"
      using True by (simp add: word_less_nat_alt)
    finally have "unat (v + ?dec div bl_decisionsPerLeader bl) + length (bl_nodes bl) \<le> 2 ^ 64"
      using "1.prems"(6) by linarith
    then obtain leader where "getLeaderID v (bl_n bl) (bl_nodes bl) True ?dec
        (bl_decisionsPerLeader bl) (BlackList (bl_prevMD bl)) = Inr leader"
      using getLeaderID_total [OF "1.prems"(1,3) _ "1.prems"(5)] "1.prems"(2) by metis
    then show ?thesis
      using "1.IH" [OF True] "1.prems"
      by (cases "leader = bl_currentLeader bl")
         (simp_all add: skippedLeaders.simps [of bl offset v acc] True)
  qed (subst skippedLeaders.simps, simp)
qed

lemma computeUpdate_length:
  "computeUpdate bl = Inr l \<Longrightarrow> int (length l) \<le> bl_f bl"
  unfolding computeUpdate_def Let_def andThen_eq_Inr_iff by (auto dest: dropOldest_length)

lemma computeUpdate_set:
  assumes "computeUpdate bl = Inr l"
  shows "set l \<subseteq> set (BlackList (bl_prevMD bl)) \<union> (set (bl_nodes bl) - {bl_currentLeader bl})"
proof -
  obtain l0 where l0: "dropOldest (bl_f bl) l0 = Inr l" and
    upd: "(if ViewId (bl_prevMD bl) \<noteq> bl_currView bl
       then skippedLeaders bl (if LatestSequence (bl_prevMD bl) = 0 then 0 else 1)
              (ViewId (bl_prevMD bl)) (BlackList (bl_prevMD bl))
       else Inr (pruneBlacklist (BlackList (bl_prevMD bl)) (bl_preparesFrom bl) (bl_f bl)
              (bl_nodes bl))) = Inr l0"
    using assms unfolding computeUpdate_def Let_def andThen_eq_Inr_iff by blast
  have "set l0 \<subseteq> set (BlackList (bl_prevMD bl)) \<union> (set (bl_nodes bl) - {bl_currentLeader bl})"
    using upd by (auto simp: pruneBlacklist_def split: if_splits dest: skippedLeaders_set)
  with dropOldest_set [OF l0] show ?thesis by blast
qed

lemma computeUpdate_total:
  assumes "validNodes (bl_nodes bl)" "bl_n bl = of_nat (length (bl_nodes bl))"
    and "bl_decisionsPerLeader bl \<noteq> 0" "bl_leaderRotation bl" "0 \<le> bl_f bl"
    and "length (BlackList (bl_prevMD bl)) < length (bl_nodes bl)"
    and "unat (bl_currView bl) +
      unat ((DecisionsInView (bl_prevMD bl) + 1) div bl_decisionsPerLeader bl) +
      unat (DecisionsInView (bl_prevMD bl) div bl_decisionsPerLeader bl) +
      length (bl_nodes bl) \<le> 2 ^ 64"
  shows "\<exists>l. computeUpdate bl = Inr l"
proof -
  have "\<exists>l. skippedLeaders bl offset v acc = Inr l" if "offset = 0 \<or> offset = 1" for offset v acc
    using that assms by (intro skippedLeaders_total) auto
  then have "\<exists>l. skippedLeaders bl (if LatestSequence (bl_prevMD bl) = 0 then 0 else 1) v acc = Inr l"
    for v acc
    by simp
  then show ?thesis
    unfolding computeUpdate_def Let_def
    by (cases "ViewId (bl_prevMD bl) \<noteq> bl_currView bl")
       (auto simp: andThen_eq_Inr_iff dropOldest_eq [OF assms(5)])
qed

lemma computeUpdate_same_view:
  assumes "ViewId (bl_prevMD bl) = bl_currView bl"
  shows "computeUpdate bl = dropOldest (bl_f bl)
    (pruneBlacklist (BlackList (bl_prevMD bl)) (bl_preparesFrom bl) (bl_f bl) (bl_nodes bl))"
  using assms by (simp add: computeUpdate_def Let_def)

lemma nodeID2Acks_distinct:
  assumes "distinct (map fst preparesFrom)" "\<forall>(from, ids)\<in>set preparesFrom. distinct ids"
  shows "nodeID2Acks preparesFrom node =
    int (card {from. \<exists>ids. (from, ids) \<in> set preparesFrom \<and> node \<in> set ids})"
  using assms
proof (induction preparesFrom)
  case Nil
  then show ?case by (simp add: nodeID2Acks_def)
next
  case (Cons p preparesFrom)
  obtain from0 ids0 where p: "p = (from0, ids0)" by fastforce
  let ?obs = "{from. \<exists>ids. (from, ids) \<in> set preparesFrom \<and> node \<in> set ids}"
  have fin: "finite ?obs"
    by (rule finite_subset [of _ "fst ` set preparesFrom"]) (auto intro: rev_image_eqI)
  have new: "from0 \<notin> ?obs"
    using Cons.prems(1) p by (auto intro: rev_image_eqI)
  have IH: "nodeID2Acks preparesFrom node = int (card ?obs)"
    using Cons by auto
  have "{from. \<exists>ids. (from, ids) \<in> set (p # preparesFrom) \<and> node \<in> set ids} =
      (if node \<in> set ids0 then insert from0 ?obs else ?obs)"
    using p by auto
  moreover have "count_list ids0 node = (if node \<in> set ids0 then 1 else 0)"
    using Cons.prems(2) p by (simp add: count_list_distinct)
  ultimately show ?case
    using IH new fin p by (auto simp: nodeID2Acks_def)
qed

subsection \<open>Properties\<close>

text \<open>
  C30: every update of the blacklist keeps it within the fault bound: the new list has at most
  \<open>f\<close> entries, holds only nodes of the old list or of the cluster, and never adds the leader
  that proposes it.
\<close>

theorem computeUpdate_bounded:
  assumes "computeUpdate bl = Inr newBlacklist"
  shows "int (length newBlacklist) \<le> bl_f bl \<and>
    set newBlacklist \<subseteq> set (BlackList (bl_prevMD bl)) \<union> (set (bl_nodes bl) - {bl_currentLeader bl})"
  using computeUpdate_length [OF assms] computeUpdate_set [OF assms] by blast

lemma exampleBlacklist_update: "computeUpdate exampleBlacklist = Inr [3, 3]"
  by (simp add: computeUpdate_def exampleBlacklist_def emptyViewMetadata_def
      skippedLeaders.simps getLeaderID_def nodeAt_def upt_rec)

theorem computeUpdate_bounded_witness:
  "computeUpdate exampleBlacklist = Inr [3, 3] \<and> int (length [3, 3 :: u64]) \<le> bl_f exampleBlacklist"
  using computeUpdate_bounded [OF exampleBlacklist_update] exampleBlacklist_update by blast

text \<open>
  C29: the blacklist can never leave the cluster without a leader. From a blacklist within the
  fault bound, the update succeeds and, with the updated blacklist, \<open>getLeaderID\<close> finds a
  leader for any later view and decision count (as long as the counters do not wrap).
\<close>

theorem blacklist_keeps_leader_available:
  assumes "nodes \<noteq> []" "distinct nodes" "length nodes < 2 ^ 52" "per \<noteq> 0"
    and "bl_nodes bl = nodes" "bl_n bl = of_nat (length nodes)"
    and "bl_f bl = snd (computeQuorum (of_nat (length nodes)))"
    and "bl_decisionsPerLeader bl = per" "bl_leaderRotation bl"
    and "int (length (BlackList (bl_prevMD bl))) \<le> bl_f bl"
    and "unat (bl_currView bl) + unat ((DecisionsInView (bl_prevMD bl) + 1) div per) +
      unat (DecisionsInView (bl_prevMD bl) div per) + length nodes \<le> 2 ^ 64"
    and "unat (view + dec div per) + length nodes \<le> 2 ^ 64"
  shows "\<exists>newBlacklist leader. computeUpdate bl = Inr newBlacklist \<and>
    getLeaderID view (of_nat (length nodes)) nodes True dec per newBlacklist = Inr leader \<and>
    leader \<in> set nodes - set newBlacklist"
proof -
  have v: "validNodes nodes" using assms(1-3) by (simp add: validNodes_def)
  have n: "0 < length nodes" using assms(1) by simp
  then have "bl_f bl = (int (length nodes) - 1) div 3"
    using computeQuorum_of_nat [OF n assms(3)] assms(7) by simp
  then have f: "0 \<le> bl_f bl" "bl_f bl < int (length nodes)"
    using n by linarith+
  then obtain l where l: "computeUpdate bl = Inr l"
    using computeUpdate_total [of bl] assms v by auto
  then have "length l < length nodes" using computeUpdate_length [OF l] f by linarith
  then obtain leader where "getLeaderID view (of_nat (length nodes)) nodes True dec per l = Inr leader"
    using getLeaderID_total [OF v assms(4,12)] by blast
  with l show ?thesis using getLeaderID_Inr by blast
qed

theorem blacklist_keeps_leader_available_witness:
  "\<exists>newBlacklist leader. computeUpdate exampleBlacklist = Inr newBlacklist \<and>
    getLeaderID 3 (of_nat (length [1, 2, 3, 4, 5, 6, 7 :: u64])) [1, 2, 3, 4, 5, 6, 7] True 2 3
      newBlacklist = Inr leader \<and> leader \<in> set [1, 2, 3, 4, 5, 6, 7] - set newBlacklist"
  by (rule blacklist_keeps_leader_available [where bl = exampleBlacklist])
     (simp_all add: exampleBlacklist_def emptyViewMetadata_def computeQuorum_def
        signed_divide_int_def)

text \<open>
  C31: pruning does what its documentation says when every observer lists each node at most
  once: a blacklisted node of the cluster is released exactly when more than \<open>f\<close> observers
  attest a prepare from it, and nodes that left the cluster are always released.
\<close>

theorem pruneBlacklist_observers:
  assumes "distinct (map fst preparesFrom)" "\<forall>(from, ids)\<in>set preparesFrom. distinct ids"
  shows "set (pruneBlacklist prev preparesFrom f nodes) =
    {node \<in> set prev. node \<in> set nodes \<and>
       int (card {from. \<exists>ids. (from, ids) \<in> set preparesFrom \<and> node \<in> set ids}) \<le> f}"
  using nodeID2Acks_distinct [OF assms] by (auto simp: pruneBlacklist_def not_less)

theorem pruneBlacklist_observers_witness:
  "set (pruneBlacklist [2, 3, 9] [(1, [2, 3]), (4, [2])] 1 [1, 2, 3, 4]) = {3}"
proof -
  have obs: "{from. \<exists>ids. (from, ids) \<in> set [(1, [2, 3]), (4, [2])] \<and> node \<in> set ids} =
      (if node = 2 then {1, 4} else if node = 3 then {1} else {})" for node :: u64
    by auto
  show ?thesis
    using pruneBlacklist_observers [of "[(1, [2, 3]), (4, [2])]" "[2, 3, 9]" 1 "[1, 2, 3, 4]"]
    unfolding obs by (auto split: if_splits)
qed

text \<open>
  The code counts list entries and not observers, so an observer that repeats a node in
  its attestation releases that node alone, whatever the fault bound is.
\<close>

theorem pruneBlacklist_single_observer:
  "pruneBlacklist [node] [(observer, replicate (Suc (nat f)) node)] f nodes = []"
proof -
  have "count_list (replicate k node) node = k" for k
    by (induction k) auto
  then show ?thesis by (simp add: pruneBlacklist_def nodeID2Acks_def)
qed

text \<open>
  Consecutive skipped views can have the same leader, which is then blacklisted twice: the
  update of the example replaces \<open>[2]\<close> by \<open>[3, 3]\<close>, so node 2 is released although the two
  distinct nodes 2 and 3 would fit the bound \<open>f = 2\<close>.
\<close>

theorem computeUpdate_repeats_leader:
  "\<exists>newBlacklist. computeUpdate exampleBlacklist = Inr newBlacklist \<and> \<not> distinct newBlacklist \<and>
     2 \<in> set (BlackList (bl_prevMD exampleBlacklist)) - set newBlacklist \<and>
     int (card (insert 2 (set newBlacklist))) \<le> bl_f exampleBlacklist"
  using exampleBlacklist_update by (simp add: exampleBlacklist_def emptyViewMetadata_def)

end
