(* ===== verification/VoteSets.thy ===== *)
theory VoteSets
  imports Protos
begin

text \<open>
  The vote bookkeeping of internal/bft/util.go: \<open>voteSet\<close> (at most one vote per voter, the
  votes queued in a channel of capacity \<open>n\<close>) and \<open>nextViews\<close> (the highest view each node
  asked for).

  A channel is the list of its buffered values, oldest first. A send on a full channel with no
  reader blocks the sending goroutine: \<open>registerVote\<close> returns \<open>Blocked\<close> there, and the
  contract below says when that cannot happen.
\<close>

record vote =
  vote_Message :: Message
  vote_sender :: u64

record voteSet =
  voted :: "u64 list"
  votes :: "vote list"
  votesCap :: nat

definition voteSet_clear :: "u64 \<Rightarrow> voteSet" where
  "voteSet_clear n = \<lparr>voted = [], votes = [], votesCap = unat n\<rparr>"

definition registerVote ::
  "(u64 \<Rightarrow> Message \<Rightarrow> bool) \<Rightarrow> voteSet \<Rightarrow> u64 \<Rightarrow> Message \<Rightarrow> voteSet outcome" where
  "registerVote validVote vs voter message =
     (if \<not> validVote voter message then Inr vs
      else if voter \<in> set (voted vs) then Inr vs
      else if length (votes vs) < votesCap vs
      then Inr (vs\<lparr>voted := voter # voted vs,
                   votes := votes vs @ [\<lparr>vote_Message = message, vote_sender = voter\<rparr>]\<rparr>)
      else Inl (Blocked ''votes''))"

text \<open>Receiving the oldest vote from the channel.\<close>

definition takeVote :: "voteSet \<Rightarrow> (vote \<times> voteSet) option" where
  "takeVote vs = (case votes vs of [] \<Rightarrow> None | v # rest \<Rightarrow> Some (v, vs\<lparr>votes := rest\<rparr>))"

record nextViews =
  nv_n :: "(u64 \<times> u64) list"

definition nextViews_clear :: nextViews where
  "nextViews_clear = \<lparr>nv_n = []\<rparr>"

definition registerNext :: "nextViews \<Rightarrow> u64 \<Rightarrow> u64 \<Rightarrow> nextViews" where
  "registerNext nv next sender =
     (if next \<le> lookup0 (nv_n nv) sender then nv
      else nv\<lparr>nv_n := AList.update sender next (nv_n nv)\<rparr>)"

definition sendRecv :: "nextViews \<Rightarrow> u64 \<Rightarrow> u64 \<Rightarrow> bool" where
  "sendRecv nv next sender \<longleftrightarrow> next = lookup0 (nv_n nv) sender"

text \<open>
  What the users of a vote set rely on: no voter counts twice, and every buffered vote is a
  valid vote of a distinct recorded voter.
\<close>

definition voteSet_inv :: "(u64 \<Rightarrow> Message \<Rightarrow> bool) \<Rightarrow> voteSet \<Rightarrow> bool" where
  "voteSet_inv validVote vs \<longleftrightarrow>
     distinct (voted vs) \<and> distinct (map vote_sender (votes vs)) \<and>
     vote_sender ` set (votes vs) \<subseteq> set (voted vs) \<and>
     (\<forall>v\<in>set (votes vs). validVote (vote_sender v) (vote_Message v))"

definition ballots :: "voteSet \<Rightarrow> (u64 \<times> Message) list" where
  "ballots vs = map (\<lambda>v. (vote_sender v, vote_Message v)) (votes vs)"

subsection \<open>The contract of a ballot box\<close>

locale ballot_box =
  fixes cast :: "'s \<Rightarrow> 'v \<Rightarrow> 'm \<Rightarrow> 's outcome"
    and cast_ballots :: "'s \<Rightarrow> ('v \<times> 'm) list"
    and valid :: "'v \<Rightarrow> 'm \<Rightarrow> bool"
    and invar :: "'s \<Rightarrow> bool"
  assumes one_per_voter: "invar s \<Longrightarrow> distinct (map fst (cast_ballots s))"
    and only_valid: "invar s \<Longrightarrow> (v, m) \<in> set (cast_ballots s) \<Longrightarrow> valid v m"
    and cast_appends: "cast s v m = Inr s' \<Longrightarrow>
      cast_ballots s' = cast_ballots s \<or> cast_ballots s' = cast_ballots s @ [(v, m)]"
    and cast_invar: "cast s v m = Inr s' \<Longrightarrow> invar s \<Longrightarrow> invar s'"
begin

text \<open>Counting ballots is counting voters.\<close>

lemma count_ballots_voters:
  assumes "invar s"
  shows "length (filter (\<lambda>(v, m). P m) (cast_ballots s)) =
    card {v. \<exists>m. (v, m) \<in> set (cast_ballots s) \<and> P m}"
proof -
  let ?kept = "filter (\<lambda>(v, m). P m) (cast_ballots s)"
  have "distinct (map fst ?kept)"
    using one_per_voter [OF assms] by (simp add: distinct_map_filter)
  moreover have "set (map fst ?kept) = {v. \<exists>m. (v, m) \<in> set (cast_ballots s) \<and> P m}"
    by force
  ultimately show ?thesis by (metis distinct_card length_map)
qed

end

subsection \<open>Vote sets are ballot boxes\<close>

lemma voteSet_clear_simps [simp]:
  "voted (voteSet_clear n) = []" "votes (voteSet_clear n) = []" "votesCap (voteSet_clear n) = unat n"
  by (simp_all add: voteSet_clear_def)

lemma voteSet_inv_clear [simp, keeps_inv]: "voteSet_inv validVote (voteSet_clear n)"
  by (simp add: voteSet_inv_def)

lemma registerVote_cases:
  assumes "registerVote validVote vs voter m = Inr vs'"
  obtains (same) "vs' = vs"
  | (new) "validVote voter m" "voter \<notin> set (voted vs)"
      "vs' = vs\<lparr>voted := voter # voted vs,
                votes := votes vs @ [\<lparr>vote_Message = m, vote_sender = voter\<rparr>]\<rparr>"
  using assms by (auto simp: registerVote_def split: if_splits)

lemma registerVote_inv [keeps_inv]:
  assumes "registerVote validVote vs voter m = Inr vs'" "voteSet_inv validVote vs"
  shows "voteSet_inv validVote vs'"
  using assms(1)
proof (cases rule: registerVote_cases)
  case same
  with assms show ?thesis by simp
next
  case new
  with assms(2) show ?thesis by (auto simp: voteSet_inv_def)
qed

lemma registerVote_votesCap: "registerVote validVote vs voter m = Inr vs' \<Longrightarrow> votesCap vs' = votesCap vs"
  by (erule registerVote_cases) auto

lemma takeVote_inv [keeps_inv]:
  "takeVote vs = Some (v, vs') \<Longrightarrow> voteSet_inv validVote vs \<Longrightarrow>
   voteSet_inv validVote vs' \<and> validVote (vote_sender v) (vote_Message v)"
  by (force simp: takeVote_def voteSet_inv_def split: list.splits)

lemma voteSet_inv_length:
  "voteSet_inv validVote vs \<Longrightarrow> length (votes vs) \<le> length (voted vs)"
  using distinct_length_le_set [of "map vote_sender (votes vs)" "voted vs"]
  by (auto simp: voteSet_inv_def)

text \<open>
  The channel never fills up while the voters come from a node list no longer than its
  capacity: the goroutine that registers votes is not blocked.
\<close>

lemma registerVote_not_blocked:
  assumes "voteSet_inv validVote vs" "set (voted vs) \<subseteq> set nodes" "length nodes \<le> votesCap vs"
    and "voter \<in> set nodes"
  shows "\<exists>vs'. registerVote validVote vs voter m = Inr vs' \<and> set (voted vs') \<subseteq> set nodes"
proof (cases "voter \<in> set (voted vs)")
  case True
  then show ?thesis using assms(2) by (simp add: registerVote_def)
next
  case False
  have "length (voter # voted vs) \<le> length nodes"
    using False assms(1,2,4) by (intro distinct_length_le_set) (auto simp: voteSet_inv_def)
  then have "length (votes vs) < votesCap vs"
    using voteSet_inv_length [OF assms(1)] assms(3) by simp
  then show ?thesis using False assms(2,4) by (simp add: registerVote_def)
qed

interpretation box: ballot_box "registerVote validVote" ballots validVote "voteSet_inv validVote"
  for validVote
proof unfold_locales
  show "distinct (map fst (ballots vs))" if "voteSet_inv validVote vs" for vs
    using that by (simp add: ballots_def voteSet_inv_def comp_def)
  show "validVote v m" if "voteSet_inv validVote vs" "(v, m) \<in> set (ballots vs)" for vs v m
    using that by (auto simp: ballots_def voteSet_inv_def)
  show "ballots vs' = ballots vs \<or> ballots vs' = ballots vs @ [(v, m)]"
    if "registerVote validVote vs v m = Inr vs'" for vs v m vs'
    using that by (cases rule: registerVote_cases) (auto simp: ballots_def)
qed (rule registerVote_inv)

lemma lookup0_registerNext:
  "lookup0 (nv_n (registerNext nv next sender)) s =
     (if s = sender then max next (lookup0 (nv_n nv) sender) else lookup0 (nv_n nv) s)"
  by (auto simp: registerNext_def max_def)

end
