(* ===== verification/View.thy ===== *)
theory View
  imports Blacklist VoteSets
begin

text \<open>
  The three phase protocol of a view, internal/bft/view.go.

  The goroutine of a view blocks in three loops: waiting for a pre-prepare
  (\<open>processProposal\<close>), for prepares (\<open>processPrepares\<close>) and for commits (\<open>processCommits\<close>).
  The field \<open>v_pc\<close> says where it waits, with the local variables of that loop. One step of the
  view is one case of the \<open>select\<close> it stands at; Go picks any ready case, so the step takes the
  choice as an argument and the traces below range over every choice. The verification of a commit
  runs in its own goroutine: the messages under verification and the channel of verified
  signatures are part of \<open>WaitCommits\<close>.

  Calls that leave the view (communication, persistence, failure detector, synchroniser,
  decider) are the effects of a step, in the order of the code. The verifier, the signer, the
  checkpoint and the outcome of \<open>State.Save\<close> are read from the environment of the step.
  Metrics and logging are left out.
\<close>

datatype Phase = COMMITTED | PROPOSED | PREPARED | ABORT

text \<open>The phases are numbered in the order of the constants.\<close>

fun phaseNumber :: "Phase \<Rightarrow> nat" where
  "phaseNumber COMMITTED = 0"
| "phaseNumber PROPOSED = 1"
| "phaseNumber PREPARED = 2"
| "phaseNumber ABORT = 3"

lemma phaseNumber_inject [simp]: "phaseNumber p = phaseNumber q \<longleftrightarrow> p = q"
  by (cases p; cases q) auto

instantiation Phase :: linorder
begin

definition less_eq_Phase :: "Phase \<Rightarrow> Phase \<Rightarrow> bool" where
  "less_eq_Phase p q \<longleftrightarrow> phaseNumber p \<le> phaseNumber q"

definition less_Phase :: "Phase \<Rightarrow> Phase \<Rightarrow> bool" where
  "less_Phase p q \<longleftrightarrow> phaseNumber p < phaseNumber q"

instance
  by standard (auto simp: less_eq_Phase_def less_Phase_def)

end

datatype viewEffect =
    Broadcast Message
  | SendConsensus u64 Message
  | SaveState SavedMessage
  | Complain u64 bool
  | SyncCall
  | Decide Proposal "Signature list" "RequestInfo list"
  | StoreViewSequence ViewSequence

datatype viewPc =
    NotStarted
  | AtRun
  | WaitProposal
  | WaitPrepares "u64 list"
  | WaitCommits "Signature list" "Message list" "Signature list"
  | Ended

record View =
  v_DecisionsPerLeader :: u64
  v_SelfID :: u64
  v_N :: u64
  v_NodesList :: "u64 list"
  v_LeaderID :: u64
  v_Quorum :: int
  v_Number :: u64
  v_ProposalSequence :: u64
  v_DecisionsInView :: u64
  v_Phase :: Phase
  v_InMsgQSize :: nat
  v_lastVotedProposalByID :: "(u64 \<times> Commit) list"
  v_incMsgs :: "(u64 \<times> Message) list"
  v_myProposalSig :: "Signature option"
  v_inFlightProposal :: "Proposal option"
  v_inFlightRequests :: "RequestInfo list"
  v_lastBroadcastSent :: "Message option"
  v_currPrepareSent :: "Message option"
  v_currCommitSent :: "Message option"
  v_prevPrepareSent :: "Message option"
  v_prevCommitSent :: "Message option"
  v_prePrepare :: "Message option"
  v_prepares :: voteSet
  v_commits :: voteSet
  v_nextPrePrepare :: "Message option"
  v_nextPrepares :: voteSet
  v_nextCommits :: voteSet
  v_blacklistSupported :: bool
  v_abortChan :: "bool option"
  v_pc :: viewPc

text \<open>
  What the view reads from outside: the checkpoint, the application and the persistence layer
  at the time of the step.
\<close>

record 'a viewEnv =
  env_codec :: codec
  env_services :: "'a services"
  env_app :: 'a
  env_checkpoint :: Checkpoint
  env_saveOK :: "SavedMessage \<Rightarrow> bool"

type_synonym 'r viewResult = "('r \<times> View \<times> viewEffect list) outcome"

abbreviation view_unmarshalMetadata :: "'a viewEnv \<Rightarrow> bytes option \<Rightarrow> ViewMetadata option" where
  "view_unmarshalMetadata E md \<equiv> unmarshalMetadata (env_codec E) (bytes_of md)"

abbreviation proposalDigest :: "'a viewEnv \<Rightarrow> Proposal \<Rightarrow> string" where
  "proposalDigest E p \<equiv> Digest (env_codec E) p"

subsection \<open>Starting and stopping\<close>

definition acceptPrepares :: "u64 \<Rightarrow> Message \<Rightarrow> bool" where
  "acceptPrepares sender message \<longleftrightarrow> GetPrepare message \<noteq> None"

definition acceptCommits :: "u64 \<Rightarrow> Message \<Rightarrow> bool" where
  "acceptCommits sender message =
     (case GetCommit message of
        None \<Rightarrow> False
      | Some commit \<Rightarrow>
          (case cmt_Signature commit of None \<Rightarrow> False | Some sig \<Rightarrow> Signer sig = sender))"

definition setupVotes :: "View \<Rightarrow> View" where
  "setupVotes v =
     v\<lparr>v_prepares := voteSet_clear (v_N v), v_nextPrepares := voteSet_clear (v_N v),
       v_commits := voteSet_clear (v_N v), v_nextCommits := voteSet_clear (v_N v)\<rparr>"

text \<open>
  \<open>metricsFile\<close> says whether the metrics file could be opened; when it could not, \<open>Start\<close> returns
  before it creates the vote sets and the goroutine.
\<close>

definition View_Start :: "bool \<Rightarrow> View \<Rightarrow> View" where
  "View_Start metricsFile v =
     (let v1 = v\<lparr>v_incMsgs := [], v_abortChan := Some False, v_lastVotedProposalByID := [],
                v_prePrepare := None, v_nextPrePrepare := None\<rparr>
      in if metricsFile then (setupVotes v1)\<lparr>v_pc := AtRun\<rparr> else v1)"

definition view_stop :: "View \<Rightarrow> View" where
  "view_stop v = (case v_abortChan v of None \<Rightarrow> v | Some _ \<Rightarrow> v\<lparr>v_abortChan := Some True\<rparr>)"

text \<open>Receiving from the nil channel of a view that was not started never succeeds.\<close>

definition Stopped :: "View \<Rightarrow> bool" where
  "Stopped v \<longleftrightarrow> v_abortChan v = Some True"

text \<open>\<open>Abort\<close> waits for the goroutine to end: \<open>viewEnded\<close> was incremented by \<open>Start\<close>.\<close>

definition View_Abort :: "View \<Rightarrow> View outcome" where
  "View_Abort v =
     (let v1 = view_stop v in
      if v_abortChan v1 = None \<or> v_pc v1 = Ended then Inr v1 else Inl (Blocked ''viewEnded''))"

text \<open>\<open>None\<close>: the queue is full and the view is not stopped, the caller waits.\<close>

definition View_HandleMessage :: "View \<Rightarrow> u64 \<Rightarrow> Message \<Rightarrow> View option" where
  "View_HandleMessage v sender m =
     (if Stopped v then Some v
      else if length (v_incMsgs v) < v_InMsgQSize v
      then Some (v\<lparr>v_incMsgs := v_incMsgs v @ [(sender, m)]\<rparr>)
      else None)"

subsection \<open>Handling of messages\<close>

definition processPrePrepare :: "View \<Rightarrow> PrePrepare \<Rightarrow> Message \<Rightarrow> bool \<Rightarrow> u64 \<Rightarrow> View" where
  "processPrePrepare v pp m msgForNextProposal sender =
     (if pp_Proposal pp = None then v
      else if sender \<noteq> v_LeaderID v then v
      else if msgForNextProposal
      then (case v_nextPrePrepare v of None \<Rightarrow> v\<lparr>v_nextPrePrepare := Some m\<rparr> | Some _ \<Rightarrow> v)
      else (case v_prePrepare v of None \<Rightarrow> v\<lparr>v_prePrepare := Some m\<rparr> | Some _ \<Rightarrow> v))"

definition handlePrevSeqMessage :: "View \<Rightarrow> u64 \<Rightarrow> u64 \<Rightarrow> Message \<Rightarrow> viewEffect list outcome" where
  "handlePrevSeqMessage v msgProposalSeq sender m =
     (if GetPrePrepare m \<noteq> None then Inr []
      else case GetCommit m of
        Some cmt \<Rightarrow>
          (if cmt_Assist cmt then Inr []
           else case v_prevCommitSent v of None \<Rightarrow> Inr [] | Some c \<Rightarrow> Inr [SendConsensus sender c])
      | None \<Rightarrow>
          (case GetPrepare m of
             None \<Rightarrow> Inl (Panic ''nil prepare'')
           | Some prp \<Rightarrow>
               (if prp_Assist prp then Inr []
                else case v_prevPrepareSent v of None \<Rightarrow> Inr [] | Some p \<Rightarrow> Inr [SendConsensus sender p])))"

type_synonym proposalInfo = "string \<times> u64 \<times> u64"

definition commitInfo :: "Commit \<Rightarrow> proposalInfo" where
  "commitInfo vote = (cmt_Digest vote, cmt_View vote, cmt_Seq vote)"

definition countsByVotes :: "(u64 \<times> Commit) list \<Rightarrow> proposalInfo \<Rightarrow> nat" where
  "countsByVotes seen info = length (filter (\<lambda>(sender, vote). commitInfo vote = info) seen)"

text \<open>
  The loop over the histogram acts on the first vote that passes the three tests and returns:
  the order of the map does not matter.
\<close>

definition aheadOfView :: "View \<Rightarrow> proposalInfo \<Rightarrow> bool" where
  "aheadOfView v info =
     (case info of (digest, view, seq) \<Rightarrow>
        \<not> view < v_Number v \<and> \<not> (seq \<le> v_ProposalSequence v \<and> view = v_Number v))"

definition discoverIfSyncNeeded :: "View \<Rightarrow> u64 \<Rightarrow> Message \<Rightarrow> View \<times> viewEffect list" where
  "discoverIfSyncNeeded v sender m =
     (case GetCommit m of
        None \<Rightarrow> (v, [])
      | Some commit \<Rightarrow>
          (let threshold = snd (computeQuorum (v_N v)) + 1;
               v1 = v\<lparr>v_lastVotedProposalByID := AList.update sender commit (v_lastVotedProposalByID v)\<rparr>;
               seen = v_lastVotedProposalByID v1
           in if int (length seen) < threshold then (v1, [])
              else if list_ex (\<lambda>(s, vote). threshold \<le> int (countsByVotes seen (commitInfo vote)) \<and>
                                 aheadOfView v1 (commitInfo vote)) seen
              then (view_stop v1, [SyncCall])
              else (v1, [])))"

definition processVote :: "View \<Rightarrow> u64 \<Rightarrow> Message \<Rightarrow> bool \<Rightarrow> View outcome" where
  "processVote v sender m msgForNextProposal =
     (if sender = v_SelfID v then Inr v
      else if GetPrepare m \<noteq> None then
        (if msgForNextProposal
         then andThen (registerVote acceptPrepares (v_nextPrepares v) sender m)
                (\<lambda>vs. Inr (v\<lparr>v_nextPrepares := vs\<rparr>))
         else andThen (registerVote acceptPrepares (v_prepares v) sender m)
                (\<lambda>vs. Inr (v\<lparr>v_prepares := vs\<rparr>)))
      else if GetCommit m \<noteq> None then
        (if msgForNextProposal
         then andThen (registerVote acceptCommits (v_nextCommits v) sender m)
                (\<lambda>vs. Inr (v\<lparr>v_nextCommits := vs\<rparr>))
         else andThen (registerVote acceptCommits (v_commits v) sender m)
                (\<lambda>vs. Inr (v\<lparr>v_commits := vs\<rparr>)))
      else Inr v)"

definition processMsg :: "View \<Rightarrow> u64 \<Rightarrow> Message \<Rightarrow> (View \<times> viewEffect list) outcome" where
  "processMsg v sender m =
     (if Stopped v then Inr (v, [])
      else
        let msgViewNum = viewNumber m; msgProposalSeq = proposalSequence m in
        if msgViewNum \<noteq> v_Number v then
          (if sender \<noteq> v_LeaderID v then Inr (discoverIfSyncNeeded v sender m)
           else Inr (view_stop v,
                     [Complain (v_Number v) False] @ (if msgViewNum > v_Number v then [SyncCall] else [])))
        else if msgProposalSeq = v_ProposalSequence v - 1 \<and> v_ProposalSequence v > 0
        then andThen (handlePrevSeqMessage v msgProposalSeq sender m) (\<lambda>effs. Inr (v, effs))
        else if msgProposalSeq \<noteq> v_ProposalSequence v \<and> msgProposalSeq \<noteq> v_ProposalSequence v + 1
        then Inr (discoverIfSyncNeeded v sender m)
        else
          let msgForNextProposal = (msgProposalSeq = v_ProposalSequence v + 1) in
          case GetPrePrepare m of
            Some pp \<Rightarrow> Inr (processPrePrepare v pp m msgForNextProposal sender, [])
          | None \<Rightarrow> andThen (processVote v sender m msgForNextProposal) (\<lambda>v'. Inr (v', [])))"

subsection \<open>Verification of a proposal\<close>

text \<open>The acknowledgements are a map from the signer to the prepares it saw; nil is the empty map.\<close>

fun collectAcks ::
  "'a viewEnv \<Rightarrow> Proposal \<Rightarrow> Signature list \<Rightarrow> (u64 \<times> u64 list) list \<Rightarrow> string + (u64 \<times> u64 list) list" where
  "collectAcks E prevProp [] acks = Inr acks"
| "collectAcks E prevProp (sig # sigs) acks =
     (case api_VerifyConsenterSig (env_services E) (env_app E) sig prevProp of
        None \<Rightarrow> Inl ''failed verifying consenter signature''
      | Some aux \<Rightarrow>
          (case unmarshalPreparesFrom (env_codec E) aux of
             None \<Rightarrow> Inl ''failed unmarshaling auxiliary input''
           | Some ids \<Rightarrow> collectAcks E prevProp sigs (AList.update (Signer sig) ids acks)))"

definition verifyPrevCommitSignatures ::
  "'a viewEnv \<Rightarrow> Signature list \<Rightarrow> u64 \<Rightarrow> (string + (u64 \<times> u64 list) list) outcome" where
  "verifyPrevCommitSignatures E prevCommitSignatures currVerificationSeq =
     (let prevProp = fst (Checkpoint_Get (env_checkpoint E)) in
      case view_unmarshalMetadata E (Metadata prevProp) of
        None \<Rightarrow> Inl (Panic ''Could not unmarshal the previous persisted proposal metadata'')
      | Some prevMD \<Rightarrow>
          if VerificationSequence prevProp \<noteq> currVerificationSeq then Inr (Inr [])
          else Inr (collectAcks E prevProp prevCommitSignatures []))"

text \<open>The result is cached in the view once it is true.\<close>

definition blacklistingSupported :: "'a viewEnv \<Rightarrow> View \<Rightarrow> int \<Rightarrow> Signature list \<Rightarrow> bool \<times> View" where
  "blacklistingSupported E v f myLastCommitSignatures =
     (if v_blacklistSupported v then (True, v)
      else
        let count = length (filter (\<lambda>sig. api_AuxiliaryData (env_services E) (env_app E) (Msg sig) \<noteq> [])
                       myLastCommitSignatures);
            supported = (int count > f)
        in (supported, v\<lparr>v_blacklistSupported := v_blacklistSupported v \<or> supported\<rparr>))"

definition membershipChange :: "'a viewEnv \<Rightarrow> bool" where
  "membershipChange E =
     (case api_MembershipNotifier (env_services E) of None \<Rightarrow> False | Some notify \<Rightarrow> notify (env_app E))"

definition viewBlacklist :: "View \<Rightarrow> u64 \<Rightarrow> ViewMetadata \<Rightarrow> (u64 \<times> u64 list) list \<Rightarrow> blacklist" where
  "viewBlacklist v currView prevMD preparesFrom =
     \<lparr>bl_currentLeader = v_LeaderID v, bl_leaderRotation = (v_DecisionsPerLeader v > 0),
      bl_prevMD = prevMD, bl_n = v_N v, bl_nodes = v_NodesList v, bl_currView = currView,
      bl_preparesFrom = preparesFrom, bl_f = snd (computeQuorum (v_N v)),
      bl_decisionsPerLeader = v_DecisionsPerLeader v\<rparr>"

definition verifyBlacklist ::
  "'a viewEnv \<Rightarrow> View \<Rightarrow> Signature list \<Rightarrow> u64 \<Rightarrow> u64 list \<Rightarrow> (u64 \<times> u64 list) list \<Rightarrow>
   (string option \<times> View) outcome" where
  "verifyBlacklist E v prevCommitSignatures currVerificationSeq pendingBlacklist prepareAcknowledgements =
     (if v_DecisionsPerLeader v = 0 then
        (if pendingBlacklist \<noteq> [] then Inr (Some ''rotation is inactive but blacklist is not empty'', v)
         else Inr (None, v))
      else
        let (prevProp, myLastCommitSignatures) = Checkpoint_Get (env_checkpoint E) in
        case view_unmarshalMetadata E (Metadata prevProp) of
          None \<Rightarrow> Inl (Panic ''Could not unmarshal the previous persisted proposal metadata'')
        | Some prevMD \<Rightarrow>
            if VerificationSequence prevProp \<noteq> currVerificationSeq then
              (if \<not> equalIntLists (BlackList prevMD) pendingBlacklist
               then Inr (Some ''blacklist changed during reconfiguration'', v) else Inr (None, v))
            else if membershipChange E then
              (if \<not> equalIntLists (BlackList prevMD) pendingBlacklist
               then Inr (Some ''blacklist changed during membership change'', v) else Inr (None, v))
            else
              let (supported, v1) = blacklistingSupported E v (snd (computeQuorum (v_N v))) myLastCommitSignatures in
              if supported \<and> length prevCommitSignatures < length myLastCommitSignatures
              then Inr (Some ''not enough previous commits in pre-prepare'', v1)
              else
                andThen (computeUpdate (viewBlacklist v1 (v_Number v1) prevMD prepareAcknowledgements))
                  (\<lambda>expectedBlacklist.
                     if \<not> equalIntLists pendingBlacklist expectedBlacklist
                     then Inr (Some ''proposed blacklist differs from expected'', v1)
                     else Inr (None, v1)))"

definition verifyProposal ::
  "'a viewEnv \<Rightarrow> View \<Rightarrow> Proposal \<Rightarrow> Signature list \<Rightarrow> ((string + RequestInfo list) \<times> View) outcome" where
  "verifyProposal E v proposal prevCommits =
     (case api_VerifyProposal (env_services E) (env_app E) proposal of
        None \<Rightarrow> Inr (Inl ''bad proposal'', v)
      | Some requests \<Rightarrow>
          (case view_unmarshalMetadata E (Metadata proposal) of
             None \<Rightarrow> Inr (Inl ''bad metadata'', v)
           | Some md \<Rightarrow>
               if ViewId md \<noteq> v_Number v then Inr (Inl ''invalid view number'', v)
               else if LatestSequence md \<noteq> v_ProposalSequence v then Inr (Inl ''invalid proposal sequence'', v)
               else if DecisionsInView md \<noteq> v_DecisionsInView v then Inr (Inl ''invalid decisions in view'', v)
               else
                 let expectedSeq = api_VerificationSequence (env_services E) (env_app E) in
                 if VerificationSequence proposal \<noteq> expectedSeq
                 then Inr (Inl ''verification sequence mismatch'', v)
                 else
                   andThen (verifyPrevCommitSignatures E prevCommits expectedSeq) (\<lambda>acks.
                     case acks of
                       Inl err \<Rightarrow> Inr (Inl err, v)
                     | Inr prepareAcknowledgements \<Rightarrow>
                         andThen (verifyBlacklist E v prevCommits expectedSeq (BlackList md) prepareAcknowledgements)
                           (\<lambda>(err, v1).
                              case err of
                                Some e \<Rightarrow> Inr (Inl e, v1)
                              | None \<Rightarrow>
                                  if CommitSignaturesDigest (env_codec E) prevCommits \<noteq> PrevCommitSignatureDigest md
                                     \<and> v_DecisionsPerLeader v1 > 0
                                  then Inr (Inl ''prev commit signatures mismatch the metadata digest'', v1)
                                  else Inr (Inr requests, v1)))))"

subsection \<open>The leader's side\<close>

fun preparesFromAux ::
  "'a viewEnv \<Rightarrow> Signature list \<Rightarrow> (u64 \<times> u64 list) list \<Rightarrow> (u64 \<times> u64 list) list outcome" where
  "preparesFromAux E [] acks = Inr acks"
| "preparesFromAux E (sig # sigs) acks =
     (case unmarshalPreparesFrom (env_codec E) (api_AuxiliaryData (env_services E) (env_app E) (Msg sig)) of
        None \<Rightarrow> Inl (Panic ''Failed unmarshalling auxiliary data from previously persisted signatures'')
      | Some ids \<Rightarrow> preparesFromAux E sigs (AList.update (Signer sig) ids acks))"

definition updateBlacklistMetadata ::
  "'a viewEnv \<Rightarrow> View \<Rightarrow> ViewMetadata \<Rightarrow> Signature list \<Rightarrow> bytes option \<Rightarrow> ViewMetadata outcome" where
  "updateBlacklistMetadata E v metadata prevSigs prevMetadata =
     (if v_DecisionsPerLeader v = 0 then Inr (metadata\<lparr>BlackList := []\<rparr>)
      else
        andThen (preparesFromAux E prevSigs []) (\<lambda>preparesFrom.
          case view_unmarshalMetadata E prevMetadata of
            None \<Rightarrow> Inl (Panic ''invalid previous proposal view metadata'')
          | Some prevMD \<Rightarrow>
              andThen (computeUpdate (viewBlacklist v (ViewId metadata) prevMD preparesFrom))
                (\<lambda>bl. Inr (metadata\<lparr>BlackList := bl\<rparr>))))"

definition metadataWithUpdatedBlacklist ::
  "'a viewEnv \<Rightarrow> View \<Rightarrow> ViewMetadata \<Rightarrow> u64 \<Rightarrow> Proposal \<Rightarrow> Signature list \<Rightarrow> ViewMetadata outcome" where
  "metadataWithUpdatedBlacklist E v metadata verificationSeq prevProp prevSigs =
     (if verificationSeq = VerificationSequence prevProp \<and> \<not> membershipChange E
      then updateBlacklistMetadata E v metadata prevSigs (Metadata prevProp)
      else Inr metadata)"

definition bindCommitSignaturesToProposalMetadata ::
  "'a viewEnv \<Rightarrow> View \<Rightarrow> ViewMetadata \<Rightarrow> Signature list \<Rightarrow> ViewMetadata" where
  "bindCommitSignaturesToProposalMetadata E v metadata prevSigs =
     (if v_DecisionsPerLeader v = 0 then metadata
      else metadata\<lparr>PrevCommitSignatureDigest := CommitSignaturesDigest (env_codec E) prevSigs\<rparr>)"

definition GetMetadata :: "'a viewEnv \<Rightarrow> View \<Rightarrow> bytes outcome" where
  "GetMetadata E v =
     (let metadata = emptyViewMetadata\<lparr>ViewId := v_Number v, LatestSequence := v_ProposalSequence v,
                       DecisionsInView := v_DecisionsInView v\<rparr>;
          verificationSeq = api_VerificationSequence (env_services E) (env_app E);
          (prevProp, prevSigs) = Checkpoint_Get (env_checkpoint E)
      in case view_unmarshalMetadata E (Metadata prevProp) of
           None \<Rightarrow> Inl (Panic ''invalid unchanged previous proposal view metadata'')
         | Some prevMD \<Rightarrow>
             andThen (metadataWithUpdatedBlacklist E v (metadata\<lparr>BlackList := BlackList prevMD\<rparr>)
                        verificationSeq prevProp prevSigs)
               (\<lambda>metadata'. Inr (marshalMetadata (env_codec E)
                  (bindCommitSignaturesToProposalMetadata E v metadata' prevSigs))))"

definition proposeMsg :: "'a viewEnv \<Rightarrow> View \<Rightarrow> Proposal \<Rightarrow> Message" where
  "proposeMsg E v proposal =
     PrePrepareMsg \<lparr>pp_View = v_Number v, pp_Seq = v_ProposalSequence v, pp_Proposal = Some proposal,
       pp_PrevCommitSignatures =
         (if v_DecisionsPerLeader v > 0 then snd (Checkpoint_Get (env_checkpoint E)) else [])\<rparr>"

definition Propose :: "'a viewEnv \<Rightarrow> View \<Rightarrow> Proposal \<Rightarrow> View option" where
  "Propose E v proposal = View_HandleMessage v (v_LeaderID v) (proposeMsg E v proposal)"

subsection \<open>The three phases\<close>

definition beginProposal :: "View \<Rightarrow> View" where
  "beginProposal v =
     v\<lparr>v_prevPrepareSent := v_currPrepareSent v, v_prevCommitSent := v_currCommitSent v,
       v_currPrepareSent := None, v_currCommitSent := None, v_inFlightProposal := None,
       v_inFlightRequests := [], v_lastBroadcastSent := None, v_pc := WaitProposal\<rparr>"

definition createPrepare :: "'a viewEnv \<Rightarrow> View \<Rightarrow> u64 \<Rightarrow> Proposal \<Rightarrow> Prepare" where
  "createPrepare E v seq proposal =
     \<lparr>prp_View = v_Number v, prp_Seq = seq, prp_Digest = proposalDigest E proposal, prp_Assist = False\<rparr>"

definition acceptPrePrepare :: "'a viewEnv \<Rightarrow> View \<Rightarrow> Message \<Rightarrow> (View \<times> viewEffect list) outcome" where
  "acceptPrePrepare E v receivedProposal =
     (case GetPrePrepare receivedProposal of
        None \<Rightarrow> Inl (Panic ''nil pre-prepare'')
      | Some prePrepare \<Rightarrow>
          (case pp_Proposal prePrepare of
             None \<Rightarrow> Inl (Panic ''nil proposal'')
           | Some proposal \<Rightarrow>
               andThen (verifyProposal E v proposal (pp_PrevCommitSignatures prePrepare)) (\<lambda>(res, v1).
                 case res of
                   Inl err \<Rightarrow>
                     Inr ((view_stop v1)\<lparr>v_Phase := ABORT, v_pc := AtRun\<rparr>,
                          [Complain (v_Number v1) False, SyncCall])
                 | Inr requests \<Rightarrow>
                     let seq = v_ProposalSequence v1;
                         prepare = createPrepare E v1 seq proposal;
                         savedMsg = SavedProposedRecord prePrepare prepare
                     in if \<not> env_saveOK E savedMsg
                        then Inl (Panic ''Failed to save message to state'')
                        else Inr (v1\<lparr>v_lastBroadcastSent := Some (PrepareMsg prepare),
                                    v_currPrepareSent := Some (PrepareMsg (prepare\<lparr>prp_Assist := True\<rparr>)),
                                    v_inFlightProposal := Some proposal,
                                    v_inFlightRequests := requests,
                                    v_Phase := PROPOSED, v_pc := AtRun\<rparr>,
                                  [SaveState savedMsg] @
                                  (if v_SelfID v1 = v_LeaderID v1 then [Broadcast receivedProposal] else [])))))"

definition finishPrepares ::
  "'a viewEnv \<Rightarrow> View \<Rightarrow> Proposal \<Rightarrow> u64 list \<Rightarrow> (View \<times> viewEffect list) outcome" where
  "finishPrepares E v proposal voterIDs =
     (let prpFromRaw = marshalPreparesFrom (env_codec E) voterIDs;
          sig = api_SignProposal (env_services E) (env_app E) proposal prpFromRaw;
          commit = \<lparr>cmt_View = v_Number v, cmt_Seq = v_ProposalSequence v,
                    cmt_Digest = proposalDigest E proposal, cmt_Signature = Some sig, cmt_Assist = False\<rparr>;
          preparedProof = SavedCommit (CommitMsg commit)
      in if \<not> env_saveOK E preparedProof then Inl (Panic ''Failed to save message to state'')
         else Inr (v\<lparr>v_myProposalSig := Some sig,
                     v_currCommitSent := Some (CommitMsg (commit\<lparr>cmt_Assist := True\<rparr>)),
                     v_lastBroadcastSent := Some (CommitMsg commit),
                     v_Phase := PREPARED, v_pc := AtRun\<rparr>,
                   [SaveState preparedProof]))"

text \<open>The head of the loop of \<open>processPrepares\<close>.\<close>

definition continuePrepares :: "'a viewEnv \<Rightarrow> View \<Rightarrow> u64 list \<Rightarrow> (View \<times> viewEffect list) outcome" where
  "continuePrepares E v voterIDs =
     (case v_inFlightProposal v of
        None \<Rightarrow> Inl (Panic ''nil in-flight proposal'')
      | Some proposal \<Rightarrow>
          if int (length voterIDs) < v_Quorum v - 1 then Inr (v\<lparr>v_pc := WaitPrepares voterIDs\<rparr>, [])
          else finishPrepares E v proposal voterIDs)"

definition prepareVote :: "'a viewEnv \<Rightarrow> View \<Rightarrow> u64 list \<Rightarrow> vote \<Rightarrow> (View \<times> viewEffect list) outcome" where
  "prepareVote E v voterIDs vote =
     (case (GetPrepare (vote_Message vote), v_inFlightProposal v) of
        (Some prepare, Some proposal) \<Rightarrow>
          if prp_Digest prepare \<noteq> proposalDigest E proposal then continuePrepares E v voterIDs
          else continuePrepares E v (voterIDs @ [vote_sender vote])
      | _ \<Rightarrow> Inl (Panic ''nil prepare''))"

definition startNextSeq :: "View \<Rightarrow> View" where
  "startNextSeq v =
     v\<lparr>v_ProposalSequence := v_ProposalSequence v + 1, v_DecisionsInView := v_DecisionsInView v + 1,
       v_prePrepare := v_nextPrePrepare v, v_nextPrePrepare := None,
       v_prepares := v_nextPrepares v, v_nextPrepares := voteSet_clear (v_N v),
       v_commits := v_nextCommits v, v_nextCommits := voteSet_clear (v_N v)\<rparr>"

definition decide ::
  "View \<Rightarrow> Proposal \<Rightarrow> Signature list \<Rightarrow> RequestInfo list \<Rightarrow> (View \<times> viewEffect list) outcome" where
  "decide v proposal signatures requests =
     (case v_myProposalSig v of
        None \<Rightarrow> Inl (Panic ''nil signature'')
      | Some sig \<Rightarrow>
          Inr (startNextSeq v,
               [StoreViewSequence \<lparr>ViewActive = True, ProposalSeq = v_ProposalSequence v\<rparr>,
                Decide proposal (signatures @ [sig]) requests]))"

text \<open>What \<open>prepared\<close> does once \<open>processCommits\<close> has returned the signatures, and the head of the loop of the latter.\<close>

definition view_prepared :: "View \<Rightarrow> Proposal \<Rightarrow> Signature list \<Rightarrow> (View \<times> viewEffect list) outcome" where
  "view_prepared v proposal signatures =
     andThen (decide v proposal signatures (v_inFlightRequests v))
       (\<lambda>(v1, effs). Inr (v1\<lparr>v_Phase := COMMITTED, v_pc := AtRun\<rparr>, effs))"

definition continueCommits ::
  "View \<Rightarrow> Signature list \<Rightarrow> Message list \<Rightarrow> Signature list \<Rightarrow> (View \<times> viewEffect list) outcome" where
  "continueCommits v signatures verifying validVotes =
     (case v_inFlightProposal v of
        None \<Rightarrow> Inl (Panic ''nil in-flight proposal'')
      | Some proposal \<Rightarrow>
          if int (length signatures) < v_Quorum v - 1
          then Inr (v\<lparr>v_pc := WaitCommits signatures verifying validVotes\<rparr>, [])
          else view_prepared v proposal signatures)"

text \<open>The goroutine that verifies a commit: the signature it sends, if any.\<close>

definition verifyVote :: "'a viewEnv \<Rightarrow> Proposal \<Rightarrow> Message \<Rightarrow> Signature option outcome" where
  "verifyVote E proposal vote =
     (case GetCommit vote of
        None \<Rightarrow> Inl (Panic ''nil commit'')
      | Some commit \<Rightarrow>
          if cmt_Digest commit \<noteq> proposalDigest E proposal then Inr None
          else case cmt_Signature commit of
            None \<Rightarrow> Inl (Panic ''nil signature'')
          | Some sig \<Rightarrow>
              (case api_VerifyConsenterSig (env_services E) (env_app E) sig proposal of
                 None \<Rightarrow> Inr None
               | Some _ \<Rightarrow> Inr (Some sig)))"

definition commitVerified ::
  "'a viewEnv \<Rightarrow> View \<Rightarrow> nat \<Rightarrow> Signature list \<Rightarrow> Message list \<Rightarrow> Signature list \<Rightarrow> (View \<times> viewEffect list) outcome" where
  "commitVerified E v i signatures verifying validVotes =
     (if i < length verifying \<and> length validVotes < votesCap (v_commits v) then
        (case v_inFlightProposal v of
           None \<Rightarrow> Inl (Panic ''nil in-flight proposal'')
         | Some proposal \<Rightarrow>
             andThen (verifyVote E proposal (verifying ! i)) (\<lambda>res.
               Inr (v\<lparr>v_pc := WaitCommits signatures (take i verifying @ drop (Suc i) verifying)
                        (case res of None \<Rightarrow> validVotes | Some sig \<Rightarrow> validVotes @ [sig])\<rparr>, [])))
      else Inr (v, []))"

definition broadcastLast :: "View \<Rightarrow> viewEffect list" where
  "broadcastLast v = [Broadcast (case v_lastBroadcastSent v of None \<Rightarrow> NoContent | Some m \<Rightarrow> m)]"

definition doPhase :: "'a viewEnv \<Rightarrow> View \<Rightarrow> (View \<times> viewEffect list) outcome" where
  "doPhase E v =
     (case v_Phase v of
        PROPOSED \<Rightarrow> andThen (continuePrepares E v []) (\<lambda>(v', effs). Inr (v', broadcastLast v @ effs))
      | PREPARED \<Rightarrow> andThen (continueCommits v [] [] []) (\<lambda>(v', effs). Inr (v', broadcastLast v @ effs))
      | COMMITTED \<Rightarrow> Inr (beginProposal v, [])
      | ABORT \<Rightarrow> Inr (v, []))"

subsection \<open>The goroutine\<close>

datatype viewChoice =
    ChDeliver u64 Message   \<comment> \<open>\<open>HandleMessage\<close> of another goroutine\<close>
  | ChStop                  \<comment> \<open>\<open>Abort\<close> of another goroutine\<close>
  | ChAbort                 \<comment> \<open>\<open>abortChan\<close> is closed\<close>
  | ChMsg                   \<comment> \<open>a message from \<open>incMsgs\<close>\<close>
  | ChDefault               \<comment> \<open>the default of \<open>run\<close>\<close>
  | ChPrePrepare            \<comment> \<open>a pre-prepare from its channel\<close>
  | ChVote                  \<comment> \<open>a vote from the channel of the vote set\<close>
  | ChVerify nat            \<comment> \<open>a verifying goroutine runs\<close>
  | ChVerified              \<comment> \<open>a signature from \<open>validVotes\<close>\<close>

definition endView :: "View \<Rightarrow> View \<times> viewEffect list" where
  "endView v = (v\<lparr>v_pc := Ended\<rparr>,
     [StoreViewSequence \<lparr>ViewActive = False, ProposalSeq = v_ProposalSequence v\<rparr>])"

definition stepAbort :: "View \<Rightarrow> View \<times> viewEffect list" where
  "stepAbort v =
     (if \<not> Stopped v then (v, [])
      else case v_pc v of
        AtRun \<Rightarrow> endView v
      | WaitProposal \<Rightarrow> (v\<lparr>v_Phase := ABORT, v_pc := AtRun\<rparr>, [])
      | WaitPrepares _ \<Rightarrow> (v\<lparr>v_Phase := ABORT, v_pc := AtRun\<rparr>, [])
      | WaitCommits _ _ _ \<Rightarrow> (v\<lparr>v_Phase := ABORT, v_pc := AtRun\<rparr>, [])
      | _ \<Rightarrow> (v, []))"

definition stepMsg :: "View \<Rightarrow> (View \<times> viewEffect list) outcome" where
  "stepMsg v =
     (if v_pc v = Ended \<or> v_pc v = NotStarted then Inr (v, [])
      else case v_incMsgs v of
        [] \<Rightarrow> Inr (v, [])
      | (sender, m) # rest \<Rightarrow> processMsg (v\<lparr>v_incMsgs := rest\<rparr>) sender m)"

definition stepVote :: "'a viewEnv \<Rightarrow> View \<Rightarrow> (View \<times> viewEffect list) outcome" where
  "stepVote E v =
     (case v_pc v of
        WaitPrepares voterIDs \<Rightarrow>
          (case takeVote (v_prepares v) of
             None \<Rightarrow> Inr (v, [])
           | Some (vote, vs) \<Rightarrow> prepareVote E (v\<lparr>v_prepares := vs\<rparr>) voterIDs vote)
      | WaitCommits signatures verifying validVotes \<Rightarrow>
          (case takeVote (v_commits v) of
             None \<Rightarrow> Inr (v, [])
           | Some (vote, vs) \<Rightarrow>
               Inr (v\<lparr>v_commits := vs,
                      v_pc := WaitCommits signatures (verifying @ [vote_Message vote]) validVotes\<rparr>, []))
      | _ \<Rightarrow> Inr (v, []))"

definition viewStep :: "'a viewEnv \<Rightarrow> View \<Rightarrow> viewChoice \<Rightarrow> (View \<times> viewEffect list) outcome" where
  "viewStep E v ch =
     (case ch of
        ChDeliver sender m \<Rightarrow>
          (case View_HandleMessage v sender m of None \<Rightarrow> Inr (v, []) | Some v' \<Rightarrow> Inr (v', []))
      | ChStop \<Rightarrow> Inr (view_stop v, [])
      | ChAbort \<Rightarrow> Inr (stepAbort v)
      | ChMsg \<Rightarrow> stepMsg v
      | ChDefault \<Rightarrow>
          (if v_pc v = AtRun \<and> \<not> Stopped v \<and> v_incMsgs v = [] then doPhase E v else Inr (v, []))
      | ChPrePrepare \<Rightarrow>
          (case (v_pc v, v_prePrepare v) of
             (WaitProposal, Some m) \<Rightarrow> acceptPrePrepare E (v\<lparr>v_prePrepare := None\<rparr>) m
           | _ \<Rightarrow> Inr (v, []))
      | ChVote \<Rightarrow> stepVote E v
      | ChVerify i \<Rightarrow>
          (case v_pc v of
             WaitCommits signatures verifying validVotes \<Rightarrow>
               commitVerified E v i signatures verifying validVotes
           | _ \<Rightarrow> Inr (v, []))
      | ChVerified \<Rightarrow>
          (case v_pc v of
             WaitCommits signatures verifying (sig # validVotes) \<Rightarrow>
               continueCommits v (signatures @ [sig]) verifying validVotes
           | _ \<Rightarrow> Inr (v, [])))"

text \<open>A run of a view: the steps with their environments, and every effect in order.\<close>

fun viewRun :: "View \<Rightarrow> ('a viewEnv \<times> viewChoice) list \<Rightarrow> (View \<times> viewEffect list) outcome" where
  "viewRun v [] = Inr (v, [])"
| "viewRun v ((E, ch) # steps) =
     andThen (viewStep E v ch) (\<lambda>(v', effs).
       andThen (viewRun v' steps) (\<lambda>(v'', effs'). Inr (v'', effs @ effs')))"

end
