(* ===== verification/ViewSafety.thy ===== *)
theory ViewSafety
  imports View
begin

text \<open>
  Invariants of the view protocol: what the vote sets and the local variables of the three
  loops hold at every step, for any sequence of messages and any choice of the scheduler, and
  the certificate behind every commit and every decision.
\<close>

subsection \<open>Votes that were taken from a vote set\<close>

definition tallied :: "voteSet \<Rightarrow> u64 list \<Rightarrow> bool" where
  "tallied vs ids \<longleftrightarrow>
     distinct ids \<and> set ids \<subseteq> set (voted vs) \<and> set ids \<inter> vote_sender ` set (votes vs) = {}"

lemma tallied_Nil [simp]: "tallied vs []"
  by (simp add: tallied_def)

lemma tallied_register:
  assumes "registerVote acc vs s m = Inr vs'" "tallied vs ids"
  shows "tallied vs' ids"
  using assms(1) by (cases rule: registerVote_cases) (use assms(2) in \<open>auto simp: tallied_def\<close>)

lemma takeVote_Some: "takeVote vs = Some (vt, vs') \<longleftrightarrow> votes vs = vt # votes vs' \<and> vs' = vs\<lparr>votes := votes vs'\<rparr>"
  by (cases vs; cases vs') (auto simp: takeVote_def split: list.splits)

lemma tallied_take:
  assumes "takeVote vs = Some (vt, vs')" "voteSet_inv acc vs" "tallied vs ids"
  shows "tallied vs' (ids @ [vote_sender vt])" "tallied vs' ids"
proof -
  have vs: "votes vs = vt # votes vs'" "vs' = vs\<lparr>votes := votes vs'\<rparr>"
    using assms(1) by (simp_all add: takeVote_Some)
  then have "voted vs' = voted vs" by (metis voteSet.select_convs(1) voteSet.update_convs(2) voteSet.surjective)
  then show "tallied vs' (ids @ [vote_sender vt])" "tallied vs' ids"
    using vs(1) assms(2,3) by (auto simp: tallied_def voteSet_inv_def)
qed

text \<open>The votes of a set belong to the given view and sequence and were delivered by others.\<close>

definition votesOf ::
  "(u64 \<times> Message) set \<Rightarrow> u64 \<Rightarrow> u64 \<Rightarrow> u64 \<Rightarrow> (u64 \<Rightarrow> Message \<Rightarrow> bool) \<Rightarrow> voteSet \<Rightarrow> bool" where
  "votesOf D self view seq acc vs \<longleftrightarrow> voteSet_inv acc vs \<and>
     (\<forall>vt\<in>set (votes vs). (vote_sender vt, vote_Message vt) \<in> D \<and> vote_sender vt \<noteq> self \<and>
        viewNumber (vote_Message vt) = view \<and> proposalSequence (vote_Message vt) = seq)"

lemma votesOf_clear [simp]: "votesOf D self view seq acc (voteSet_clear n)"
  by (simp add: votesOf_def)

lemma votesOf_mono: "votesOf D self view seq acc vs \<Longrightarrow> D \<subseteq> D' \<Longrightarrow> votesOf D' self view seq acc vs"
  by (auto simp: votesOf_def)

lemma votesOf_register:
  assumes "registerVote acc vs s m = Inr vs'" "votesOf D self view seq acc vs"
    and "(s, m) \<in> D" "s \<noteq> self" "viewNumber m = view" "proposalSequence m = seq"
  shows "votesOf D self view seq acc vs'"
  using assms(1)
proof (cases rule: registerVote_cases)
  case same
  with assms show ?thesis by simp
next
  case new
  then show ?thesis using assms registerVote_inv [OF assms(1)] by (auto simp: votesOf_def)
qed

lemma votesOf_take:
  assumes "takeVote vs = Some (vt, vs')" "votesOf D self view seq acc vs"
  shows "votesOf D self view seq acc vs'" "(vote_sender vt, vote_Message vt) \<in> D" "vote_sender vt \<noteq> self"
    "viewNumber (vote_Message vt) = view" "proposalSequence (vote_Message vt) = seq"
    "acc (vote_sender vt) (vote_Message vt)"
proof -
  have "votes vs = vt # votes vs'" using assms(1) by (simp add: takeVote_Some)
  moreover have "voteSet_inv acc vs' \<and> acc (vote_sender vt) (vote_Message vt)"
    using takeVote_inv [OF assms(1), of acc] assms(2) by (simp add: votesOf_def)
  ultimately show "votesOf D self view seq acc vs'" "(vote_sender vt, vote_Message vt) \<in> D"
    "vote_sender vt \<noteq> self" "viewNumber (vote_Message vt) = view"
    "proposalSequence (vote_Message vt) = seq" "acc (vote_sender vt) (vote_Message vt)"
    using assms(2) by (auto simp: votesOf_def)
qed

subsection \<open>What handling a message changes\<close>

definition votingSets_inv :: "(u64 \<times> Message) set \<Rightarrow> View \<Rightarrow> bool" where
  "votingSets_inv D v \<longleftrightarrow>
     votesOf D (v_SelfID v) (v_Number v) (v_ProposalSequence v) acceptPrepares (v_prepares v) \<and>
     votesOf D (v_SelfID v) (v_Number v) (v_ProposalSequence v + 1) acceptPrepares (v_nextPrepares v) \<and>
     votesOf D (v_SelfID v) (v_Number v) (v_ProposalSequence v) acceptCommits (v_commits v) \<and>
     votesOf D (v_SelfID v) (v_Number v) (v_ProposalSequence v + 1) acceptCommits (v_nextCommits v)"

text \<open>Effects that neither persist, broadcast nor decide.\<close>

fun quietEffect :: "viewEffect \<Rightarrow> bool" where
  "quietEffect (SendConsensus n m) = True"
| "quietEffect (Complain v s) = True"
| "quietEffect SyncCall = True"
| "quietEffect (StoreViewSequence s) = True"
| "quietEffect _ = False"

text \<open>The fields that handling a message may change.\<close>

definition messageFrame :: "View \<Rightarrow> View \<Rightarrow> bool" where
  "messageFrame v v' \<longleftrightarrow> (\<exists>lastVoted abortChan pp npp prepares nextPrepares commits nextCommits.
     v' = v\<lparr>v_lastVotedProposalByID := lastVoted, v_abortChan := abortChan, v_prePrepare := pp,
            v_nextPrePrepare := npp, v_prepares := prepares, v_nextPrepares := nextPrepares,
            v_commits := commits, v_nextCommits := nextCommits\<rparr>)"

lemma messageFrameI:
  "messageFrame v (v\<lparr>v_lastVotedProposalByID := lastVoted, v_abortChan := abortChan, v_prePrepare := pp,
            v_nextPrePrepare := npp, v_prepares := prepares, v_nextPrepares := nextPrepares,
            v_commits := commits, v_nextCommits := nextCommits\<rparr>)"
  unfolding messageFrame_def by blast

lemma view_frames:
  "messageFrame v v"
  "messageFrame v (v\<lparr>v_lastVotedProposalByID := a\<rparr>)"
  "messageFrame v (v\<lparr>v_lastVotedProposalByID := a, v_abortChan := b\<rparr>)"
  "messageFrame v (v\<lparr>v_abortChan := b\<rparr>)"
  "messageFrame v (v\<lparr>v_prePrepare := c\<rparr>)"
  "messageFrame v (v\<lparr>v_nextPrePrepare := c\<rparr>)"
  "messageFrame v (v\<lparr>v_prepares := d\<rparr>)"
  "messageFrame v (v\<lparr>v_nextPrepares := d\<rparr>)"
  "messageFrame v (v\<lparr>v_commits := d\<rparr>)"
  "messageFrame v (v\<lparr>v_nextCommits := d\<rparr>)"
  by (cases v, auto simp: messageFrame_def)+

lemma messageFrame_simps:
  assumes "messageFrame v v'"
  shows "v_SelfID v' = v_SelfID v" "v_Number v' = v_Number v" "v_ProposalSequence v' = v_ProposalSequence v"
    "v_Phase v' = v_Phase v" "v_pc v' = v_pc v" "v_inFlightProposal v' = v_inFlightProposal v"
    "v_myProposalSig v' = v_myProposalSig v" "v_Quorum v' = v_Quorum v" "v_N v' = v_N v"
    "v_incMsgs v' = v_incMsgs v" "v_lastBroadcastSent v' = v_lastBroadcastSent v"
    "v_DecisionsInView v' = v_DecisionsInView v" "v_LeaderID v' = v_LeaderID v"
    "v_inFlightRequests v' = v_inFlightRequests v"
  using assms by (auto simp: messageFrame_def)

lemma discover_frame:
  "discoverIfSyncNeeded v s m = (v', effs) \<Longrightarrow>
   messageFrame v v' \<and> v_prepares v' = v_prepares v \<and> v_commits v' = v_commits v \<and>
   v_nextPrepares v' = v_nextPrepares v \<and> v_nextCommits v' = v_nextCommits v \<and> list_all quietEffect effs"
  by (auto simp: discoverIfSyncNeeded_def Let_def view_stop_def view_frames split: option.splits if_splits)

lemma processPrePrepare_frame:
  "messageFrame v (processPrePrepare v pp m next s)"
  "v_prepares (processPrePrepare v pp m next s) = v_prepares v"
  "v_commits (processPrePrepare v pp m next s) = v_commits v"
  "v_nextPrepares (processPrePrepare v pp m next s) = v_nextPrepares v"
  "v_nextCommits (processPrePrepare v pp m next s) = v_nextCommits v"
  by (simp_all add: processPrePrepare_def view_frames split: option.splits)

text \<open>The two tallies of the current sequence, as \<open>processPrepares\<close> and \<open>processCommits\<close> count them.\<close>

definition tallies_kept :: "View \<Rightarrow> View \<Rightarrow> bool" where
  "tallies_kept v v' \<longleftrightarrow> (\<forall>ids. tallied (v_prepares v) ids \<longrightarrow> tallied (v_prepares v') ids) \<and>
     (\<forall>ids. tallied (v_commits v) ids \<longrightarrow> tallied (v_commits v') ids)"

lemma processVote_votes:
  assumes "processVote v s m next = Inr v'" "votingSets_inv D v" "(s, m) \<in> D"
    and "viewNumber m = v_Number v"
    and "proposalSequence m = (if next then v_ProposalSequence v + 1 else v_ProposalSequence v)"
  shows "messageFrame v v' \<and> votingSets_inv D v' \<and> tallies_kept v v'"
proof (cases "s = v_SelfID v \<or> GetPrepare m = None \<and> GetCommit m = None")
  case True
  then have "v' = v" using assms(1) by (simp add: processVote_def split: if_splits)
  then show ?thesis using assms(2) by (simp add: view_frames tallies_kept_def)
next
  case False
  then consider
      (np) vs where "next" "registerVote acceptPrepares (v_nextPrepares v) s m = Inr vs" "v' = v\<lparr>v_nextPrepares := vs\<rparr>"
    | (p) vs where "\<not> next" "registerVote acceptPrepares (v_prepares v) s m = Inr vs" "v' = v\<lparr>v_prepares := vs\<rparr>"
    | (nc) vs where "next" "registerVote acceptCommits (v_nextCommits v) s m = Inr vs" "v' = v\<lparr>v_nextCommits := vs\<rparr>"
    | (c) vs where "\<not> next" "registerVote acceptCommits (v_commits v) s m = Inr vs" "v' = v\<lparr>v_commits := vs\<rparr>"
    using assms(1) by (auto simp: processVote_def andThen_eq_Inr_iff split: if_splits)
  then show ?thesis
    by cases (use False assms(2-5) in \<open>auto simp: votingSets_inv_def view_frames tallies_kept_def
      intro: votesOf_register tallied_register\<close>)
qed

lemma processMsg_votes:
  assumes "processMsg v s m = Inr (v', effs)" "votingSets_inv D v" "(s, m) \<in> D"
  shows "messageFrame v v' \<and> votingSets_inv D v' \<and> tallies_kept v v' \<and> list_all quietEffect effs"
proof -
  have keep: "votingSets_inv D w \<and> tallies_kept v w"
    if "messageFrame v w" "v_prepares w = v_prepares v" "v_commits w = v_commits v"
      "v_nextPrepares w = v_nextPrepares v" "v_nextCommits w = v_nextCommits v" for w
    using assms(2) that messageFrame_simps [OF that(1)] by (simp add: votingSets_inv_def tallies_kept_def)
  consider (same) "v' = v" "list_all quietEffect effs"
    | (stopped) "v' = view_stop v" "list_all quietEffect effs"
    | (disc) "discoverIfSyncNeeded v s m = (v', effs)"
    | (pp) pp nxt where "v' = processPrePrepare v pp m nxt s" "effs = []"
    | (vote) nxt where "processVote v s m nxt = Inr v'" "effs = []" "viewNumber m = v_Number v"
        "proposalSequence m = (if nxt then v_ProposalSequence v + 1 else v_ProposalSequence v)"
    using assms(1)
    by (auto simp: processMsg_def Let_def andThen_eq_Inr_iff handlePrevSeqMessage_def
        split: if_splits option.splits)
  then show ?thesis
  proof cases
    case same
    then show ?thesis using keep [of v] view_frames by simp
  next
    case stopped
    then show ?thesis using keep [of "view_stop v"] view_frames by (simp add: view_stop_def split: option.splits)
  next
    case disc
    then show ?thesis using keep [of v'] discover_frame [OF disc] by simp
  next
    case pp
    then show ?thesis using keep [of v'] processPrePrepare_frame by simp
  next
    case vote
    then show ?thesis using processVote_votes [OF vote(1) assms(2,3) vote(3,4)] by simp
  qed
qed

subsection \<open>The invariant of a running view\<close>

fun commitSigner :: "Message \<Rightarrow> u64" where
  "commitSigner (CommitMsg cmt) = (case cmt_Signature cmt of Some sig \<Rightarrow> Signer sig | None \<Rightarrow> 0)"
| "commitSigner _ = 0"

definition preparedBy :: "codec \<Rightarrow> (u64 \<times> Message) set \<Rightarrow> u64 \<Rightarrow> u64 \<Rightarrow> Proposal \<Rightarrow> u64 \<Rightarrow> bool" where
  "preparedBy C D view seq p i \<longleftrightarrow> (\<exists>prp. (i, PrepareMsg prp) \<in> D \<and> prp_View prp = view \<and>
     prp_Seq prp = seq \<and> prp_Digest prp = Digest C p)"

definition committedBy :: "codec \<Rightarrow> (u64 \<times> Message) set \<Rightarrow> u64 \<Rightarrow> u64 \<Rightarrow> Proposal \<Rightarrow> Signature \<Rightarrow> bool" where
  "committedBy C D view seq p sig \<longleftrightarrow> (\<exists>cmt. (Signer sig, CommitMsg cmt) \<in> D \<and> cmt_View cmt = view \<and>
     cmt_Seq cmt = seq \<and> cmt_Digest cmt = Digest C p \<and> cmt_Signature cmt = Some sig)"

definition underVerification :: "(u64 \<times> Message) set \<Rightarrow> u64 \<Rightarrow> u64 \<Rightarrow> Message \<Rightarrow> bool" where
  "underVerification D view seq m \<longleftrightarrow> (\<exists>cmt sig. m = CommitMsg cmt \<and> cmt_Signature cmt = Some sig \<and>
     (Signer sig, m) \<in> D \<and> cmt_View cmt = view \<and> cmt_Seq cmt = seq)"

text \<open>
  \<open>OK\<close> holds of the signatures some verifier accepted for a proposal, \<open>MY\<close> of the signatures the
  node's own signer made.
\<close>

definition loop_inv ::
  "codec \<Rightarrow> (Signature \<Rightarrow> Proposal \<Rightarrow> bool) \<Rightarrow> (u64 \<times> Message) set \<Rightarrow> View \<Rightarrow> bool" where
  "loop_inv C OK D v =
     (case v_pc v of
        WaitProposal \<Rightarrow> v_Phase v = COMMITTED
      | WaitPrepares ids \<Rightarrow>
          v_Phase v = PROPOSED \<and> tallied (v_prepares v) ids \<and> v_SelfID v \<notin> set ids \<and>
          (\<forall>p i. v_inFlightProposal v = Some p \<longrightarrow> i \<in> set ids \<longrightarrow>
             preparedBy C D (v_Number v) (v_ProposalSequence v) p i)
      | WaitCommits sigs ver vv \<Rightarrow>
          v_Phase v = PREPARED \<and>
          tallied (v_commits v) (map Signer (sigs @ vv) @ map commitSigner ver) \<and>
          v_SelfID v \<notin> set (map Signer (sigs @ vv) @ map commitSigner ver) \<and>
          (\<forall>m\<in>set ver. underVerification D (v_Number v) (v_ProposalSequence v) m) \<and>
          (\<forall>p sig. v_inFlightProposal v = Some p \<longrightarrow> sig \<in> set (sigs @ vv) \<longrightarrow>
             OK sig p \<and> committedBy C D (v_Number v) (v_ProposalSequence v) p sig)
      | _ \<Rightarrow> True)"

definition phase_inv :: "(Signature \<Rightarrow> Proposal \<Rightarrow> bool) \<Rightarrow> View \<Rightarrow> bool" where
  "phase_inv MY v \<longleftrightarrow>
     (v_Phase v = PROPOSED \<longrightarrow> v_inFlightProposal v \<noteq> None) \<and>
     (v_Phase v = PREPARED \<longrightarrow> (\<exists>p sig. v_inFlightProposal v = Some p \<and> v_myProposalSig v = Some sig \<and> MY sig p))"

definition view_inv ::
  "codec \<Rightarrow> (Signature \<Rightarrow> Proposal \<Rightarrow> bool) \<Rightarrow> (Signature \<Rightarrow> Proposal \<Rightarrow> bool) \<Rightarrow> (u64 \<times> Message) set \<Rightarrow> View \<Rightarrow> bool" where
  "view_inv C OK MY D v \<longleftrightarrow>
     set (v_incMsgs v) \<subseteq> D \<and> votingSets_inv D v \<and> loop_inv C OK D v \<and> phase_inv MY v"

lemma view_inv_frames:
  "loop_inv C OK D (v\<lparr>v_incMsgs := q\<rparr>) = loop_inv C OK D v"
  "loop_inv C OK D (v\<lparr>v_abortChan := c\<rparr>) = loop_inv C OK D v"
  "loop_inv C OK D (v\<lparr>v_prePrepare := pp\<rparr>) = loop_inv C OK D v"
  "votingSets_inv D (v\<lparr>v_incMsgs := q\<rparr>) = votingSets_inv D v"
  "votingSets_inv D (v\<lparr>v_abortChan := c\<rparr>) = votingSets_inv D v"
  "votingSets_inv D (v\<lparr>v_prePrepare := pp\<rparr>) = votingSets_inv D v"
  "phase_inv MY (v\<lparr>v_incMsgs := q\<rparr>) = phase_inv MY v"
  "phase_inv MY (v\<lparr>v_abortChan := c\<rparr>) = phase_inv MY v"
  "phase_inv MY (v\<lparr>v_prePrepare := pp\<rparr>) = phase_inv MY v"
  by (simp_all add: loop_inv_def votingSets_inv_def phase_inv_def split: viewPc.split)

text \<open>The certificate behind a decision, and behind a commit.\<close>

definition decisionCert ::
  "codec \<Rightarrow> (Signature \<Rightarrow> Proposal \<Rightarrow> bool) \<Rightarrow> (Signature \<Rightarrow> Proposal \<Rightarrow> bool) \<Rightarrow> (u64 \<times> Message) set \<Rightarrow> View \<Rightarrow>
   Proposal \<Rightarrow> Signature list \<Rightarrow> bool" where
  "decisionCert C OK MY D v p sigs \<longleftrightarrow> (\<exists>others own. sigs = others @ [own] \<and>
     v_Quorum v - 1 \<le> int (length others) \<and> distinct (map Signer others) \<and>
     v_SelfID v \<notin> Signer ` set others \<and> MY own p \<and>
     (\<forall>sig\<in>set others. OK sig p \<and> committedBy C D (v_Number v) (v_ProposalSequence v) p sig))"

definition commitCert :: "codec \<Rightarrow> (u64 \<times> Message) set \<Rightarrow> View \<Rightarrow> Proposal \<Rightarrow> bool" where
  "commitCert C D v p \<longleftrightarrow> (\<exists>ids. distinct ids \<and> v_SelfID v \<notin> set ids \<and> v_Quorum v - 1 \<le> int (length ids) \<and>
     (\<forall>i\<in>set ids. preparedBy C D (v_Number v) (v_ProposalSequence v) p i))"

definition effect_ok ::
  "codec \<Rightarrow> (Signature \<Rightarrow> Proposal \<Rightarrow> bool) \<Rightarrow> (Signature \<Rightarrow> Proposal \<Rightarrow> bool) \<Rightarrow> (u64 \<times> Message) set \<Rightarrow> View \<Rightarrow>
   viewEffect \<Rightarrow> bool" where
  "effect_ok C OK MY D v eff =
     (case eff of
        Decide p sigs reqs \<Rightarrow> v_inFlightProposal v = Some p \<and> decisionCert C OK MY D v p sigs
      | SaveState (SavedCommit m) \<Rightarrow>
          (\<exists>p cmt. v_inFlightProposal v = Some p \<and> m = CommitMsg cmt \<and> cmt_View cmt = v_Number v \<and>
             cmt_Seq cmt = v_ProposalSequence v \<and> cmt_Digest cmt = Digest C p \<and> commitCert C D v p)
      | _ \<Rightarrow> True)"

lemma quiet_effect_ok: "list_all quietEffect effs \<Longrightarrow> list_all (effect_ok C OK MY D v) effs"
  by (induction effs) (auto simp: effect_ok_def split: viewEffect.splits SavedMessage.splits)

definition environment :: "codec \<Rightarrow> (Signature \<Rightarrow> Proposal \<Rightarrow> bool) \<Rightarrow> (Signature \<Rightarrow> Proposal \<Rightarrow> bool) \<Rightarrow> 'a viewEnv \<Rightarrow> bool" where
  "environment C OK MY E \<longleftrightarrow> env_codec E = C \<and>
     (\<forall>sig p aux. api_VerifyConsenterSig (env_services E) (env_app E) sig p = Some aux \<longrightarrow> OK sig p) \<and>
     (\<forall>p raw. MY (api_SignProposal (env_services E) (env_app E) p raw) p)"

lemma verifyBlacklist_frame:
  "verifyBlacklist E v sigs vseq bl acks = Inr (err, v1) \<Longrightarrow> \<exists>b. v1 = v\<lparr>v_blacklistSupported := b\<rparr>"
proof -
  have same: "\<exists>b. v = v\<lparr>v_blacklistSupported := b\<rparr>" by (cases v) auto
  show "verifyBlacklist E v sigs vseq bl acks = Inr (err, v1) \<Longrightarrow> ?thesis"
    using same
    by (auto simp: verifyBlacklist_def blacklistingSupported_def Let_def andThen_eq_Inr_iff
        split: if_splits option.splits prod.splits)
qed

lemma verifyProposal_frame:
  assumes "verifyProposal E v p sigs = Inr (res, v1)"
  obtains b where "v1 = v\<lparr>v_blacklistSupported := b\<rparr>"
proof -
  let ?seq = "api_VerificationSequence (env_services E) (env_app E)"
  have same: "\<exists>b. v = v\<lparr>v_blacklistSupported := b\<rparr>" by (cases v) auto
  have "v1 = v \<or> (\<exists>bl acks err. verifyBlacklist E v sigs ?seq bl acks = Inr (err, v1))"
  proof (cases "verifyPrevCommitSignatures E sigs ?seq")
    case (Inl pan)
    then show ?thesis using assms by (auto simp: verifyProposal_def Let_def split: option.splits if_splits)
  next
    case (Inr acks)
    show ?thesis
    proof (cases acks)
      case Inl
      then show ?thesis using assms Inr by (auto simp: verifyProposal_def Let_def split: option.splits if_splits)
    next
      case acks: (Inr l)
      show ?thesis
        using assms Inr acks
        by (auto simp: verifyProposal_def Let_def andThen_def split: option.splits if_splits sum.splits)
    qed
  qed
  then show ?thesis using that same verifyBlacklist_frame by blast
qed

subsection \<open>Every step keeps it\<close>

lemma view_inv_mono:
  assumes "view_inv C OK MY D v" "D \<subseteq> D'" shows "view_inv C OK MY D' v"
proof -
  have "votingSets_inv D' v"
    using assms votesOf_mono by (auto simp: view_inv_def votingSets_inv_def)
  moreover have "preparedBy C D n s p i \<Longrightarrow> preparedBy C D' n s p i"
    "committedBy C D n s p sig \<Longrightarrow> committedBy C D' n s p sig"
    "underVerification D n s m \<Longrightarrow> underVerification D' n s m" for n s p i sig m
    using assms(2) by (auto simp: preparedBy_def committedBy_def underVerification_def)
  then have "loop_inv C OK D' v"
    using assms(1) by (auto simp: view_inv_def loop_inv_def split: viewPc.splits)
  ultimately show ?thesis using assms by (auto simp: view_inv_def)
qed

lemma processMsg_view_inv:
  assumes "processMsg v s m = Inr (v', effs)" "view_inv C OK MY D v" "(s, m) \<in> D"
  shows "view_inv C OK MY D v' \<and> list_all (effect_ok C OK MY D w) effs"
proof -
  have vs: "votingSets_inv D v" using assms(2) by (simp add: view_inv_def)
  note r = processMsg_votes [OF assms(1) vs assms(3)]
  then have f: "messageFrame v v'" by blast
  have "loop_inv C OK D v'"
    using assms(2) r by (auto simp: view_inv_def loop_inv_def messageFrame_simps [OF f] tallies_kept_def
        split: viewPc.splits)
  then show ?thesis
    using assms(2) r by (simp add: view_inv_def phase_inv_def messageFrame_simps [OF f] quiet_effect_ok)
qed

lemma acceptPrePrepare_view_inv:
  assumes "acceptPrePrepare E v m = Inr (v', effs)" "view_inv C OK MY D v" "v_pc v = WaitProposal"
  shows "view_inv C OK MY D v' \<and> list_all (effect_ok C OK MY D w) effs"
proof -
  obtain pp p res v1 where pp: "GetPrePrepare m = Some pp" "pp_Proposal pp = Some p"
    "verifyProposal E v p (pp_PrevCommitSignatures pp) = Inr (res, v1)"
    using assms(1) by (auto simp: acceptPrePrepare_def andThen_eq_Inr_iff split: option.splits)
  obtain b where v1: "v1 = v\<lparr>v_blacklistSupported := b\<rparr>" using verifyProposal_frame [OF pp(3)] .
  show ?thesis
  proof (cases res)
    case (Inl err)
    then have "v' = (view_stop v1)\<lparr>v_Phase := ABORT, v_pc := AtRun\<rparr>"
      "effs = [Complain (v_Number v1) False, SyncCall]"
      using assms(1) pp by (auto simp: acceptPrePrepare_def)
    then show ?thesis
      using assms(2) v1 by (auto simp: view_inv_def votingSets_inv_def loop_inv_def phase_inv_def
          view_stop_def effect_ok_def split: option.splits)
  next
    case (Inr requests)
    then show ?thesis
      using assms pp v1
      by (auto simp: acceptPrePrepare_def Let_def view_inv_def votingSets_inv_def loop_inv_def phase_inv_def
          effect_ok_def split: if_splits)
  qed
qed

lemma continuePrepares_view_inv:
  assumes "continuePrepares E v ids = Inr (v', effs)" "environment C OK MY E"
    and "set (v_incMsgs v) \<subseteq> D" "votingSets_inv D v" "v_Phase v = PROPOSED"
    and "tallied (v_prepares v) ids" "v_SelfID v \<notin> set ids"
    and "\<And>p i. v_inFlightProposal v = Some p \<Longrightarrow> i \<in> set ids \<Longrightarrow>
      preparedBy C D (v_Number v) (v_ProposalSequence v) p i"
  shows "view_inv C OK MY D v' \<and> list_all (effect_ok C OK MY D v) effs"
proof -
  obtain p where p: "v_inFlightProposal v = Some p"
    using assms(1) by (auto simp: continuePrepares_def split: option.splits)
  show ?thesis
  proof (cases "int (length ids) < v_Quorum v - 1")
    case True
    then show ?thesis
      using assms p by (auto simp: continuePrepares_def view_inv_def votingSets_inv_def loop_inv_def phase_inv_def)
  next
    case False
    have "commitCert C D v p"
      using False assms(6-8) p by (auto simp: commitCert_def tallied_def)
    then show ?thesis
      using False assms(1-5) p
      by (auto simp: continuePrepares_def finishPrepares_def Let_def view_inv_def votingSets_inv_def
          loop_inv_def phase_inv_def environment_def effect_ok_def split: if_splits)
  qed
qed

lemma continueCommits_view_inv:
  assumes "continueCommits v sigs ver vv = Inr (v', effs)" "view_inv C OK MY D v"
    and "v_Phase v = PREPARED"
    and "loop_inv C OK D (v\<lparr>v_pc := WaitCommits sigs ver vv\<rparr>)"
  shows "view_inv C OK MY D v' \<and> list_all (effect_ok C OK MY D v) effs"
proof -
  obtain p sig where p: "v_inFlightProposal v = Some p" "v_myProposalSig v = Some sig" "MY sig p"
    using assms(2,3) by (auto simp: view_inv_def phase_inv_def)
  show ?thesis
  proof (cases "int (length sigs) < v_Quorum v - 1")
    case True
    then show ?thesis
      using assms p by (auto simp: continueCommits_def view_inv_def votingSets_inv_def phase_inv_def)
  next
    case False
    have "decisionCert C OK MY D v p (sigs @ [sig])"
      using False assms(4) p by (auto simp: decisionCert_def loop_inv_def tallied_def)
    moreover have "v' = (startNextSeq v)\<lparr>v_Phase := COMMITTED, v_pc := AtRun\<rparr>"
      "effs = [StoreViewSequence \<lparr>ViewActive = True, ProposalSeq = v_ProposalSequence v\<rparr>,
         Decide p (sigs @ [sig]) (v_inFlightRequests v)]"
      using False assms(1) p by (auto simp: continueCommits_def view_prepared_def decide_def)
    ultimately show ?thesis
      using assms(2) p by (simp add: view_inv_def votingSets_inv_def loop_inv_def phase_inv_def
          startNextSeq_def effect_ok_def)
  qed
qed

lemma stepVote_view_inv:
  assumes "stepVote E v = Inr (v', effs)" "view_inv C OK MY D v" "environment C OK MY E"
  shows "view_inv C OK MY D v' \<and> list_all (effect_ok C OK MY D v) effs"
proof (cases "v_pc v")
  case (WaitPrepares ids)
  have li: "v_Phase v = PROPOSED" "tallied (v_prepares v) ids" "v_SelfID v \<notin> set ids"
    "\<And>p i. v_inFlightProposal v = Some p \<Longrightarrow> i \<in> set ids \<Longrightarrow>
       preparedBy C D (v_Number v) (v_ProposalSequence v) p i"
    using assms(2) WaitPrepares by (auto simp: view_inv_def loop_inv_def)
  show ?thesis
  proof (cases "takeVote (v_prepares v)")
    case None
    then show ?thesis using assms(1,2) WaitPrepares by (simp add: stepVote_def)
  next
    case (Some r)
    obtain vt vs where r: "takeVote (v_prepares v) = Some (vt, vs)" using Some by (cases r) auto
    let ?v = "v\<lparr>v_prepares := vs\<rparr>"
    have vo: "votesOf D (v_SelfID v) (v_Number v) (v_ProposalSequence v) acceptPrepares (v_prepares v)"
      using assms(2) by (simp add: view_inv_def votingSets_inv_def)
    note tk = votesOf_take [OF r vo]
    have vsi: "voteSet_inv acceptPrepares (v_prepares v)" using vo by (simp add: votesOf_def)
    note tl = tallied_take [OF r vsi li(2)]
    have base: "set (v_incMsgs ?v) \<subseteq> D" "votingSets_inv D ?v" "v_Phase ?v = PROPOSED"
      using assms(2) tk(1) li(1) by (auto simp: view_inv_def votingSets_inv_def)
    obtain prp where prp: "vote_Message vt = PrepareMsg prp"
      using tk(6) by (auto simp: acceptPrepares_def)
    obtain p where p: "v_inFlightProposal v = Some p"
      using assms(2) li(1) by (auto simp: view_inv_def phase_inv_def)
    have res: "(if prp_Digest prp \<noteq> proposalDigest E p then continuePrepares E ?v ids
        else continuePrepares E ?v (ids @ [vote_sender vt])) = Inr (v', effs)"
      using assms(1) WaitPrepares r prp p by (simp add: stepVote_def prepareVote_def)
    have cp: "view_inv C OK MY D v' \<and> list_all (effect_ok C OK MY D ?v) effs"
    proof (cases "prp_Digest prp = proposalDigest E p")
      case True
      have "preparedBy C D (v_Number v) (v_ProposalSequence v) p (vote_sender vt)"
        using tk(2,4,5) prp True assms(3) by (auto simp: preparedBy_def environment_def)
      then show ?thesis
        using True res li(3,4) p tl(1) tk(3)
        by (intro continuePrepares_view_inv [OF _ assms(3) base, of "ids @ [vote_sender vt]"]) auto
    next
      case False
      then show ?thesis
        using res li(3,4) tl(2) by (intro continuePrepares_view_inv [OF _ assms(3) base, of ids]) auto
    qed
    moreover have "effect_ok C OK MY D ?v = effect_ok C OK MY D v"
      by (intro ext) (simp add: effect_ok_def decisionCert_def commitCert_def split: viewEffect.split SavedMessage.split)
    ultimately show ?thesis by simp
  qed
next
  case (WaitCommits sigs ver vv)
  show ?thesis
  proof (cases "takeVote (v_commits v)")
    case None
    then show ?thesis using assms(1,2) WaitCommits by (simp add: stepVote_def)
  next
    case (Some r)
    obtain vt vs where r: "takeVote (v_commits v) = Some (vt, vs)" using Some by (cases r) auto
    have vo: "votesOf D (v_SelfID v) (v_Number v) (v_ProposalSequence v) acceptCommits (v_commits v)"
      using assms(2) by (simp add: view_inv_def votingSets_inv_def)
    note tk = votesOf_take [OF r vo]
    have vsi: "voteSet_inv acceptCommits (v_commits v)" using vo by (simp add: votesOf_def)
    have tl: "tallied vs ((map Signer (sigs @ vv) @ map commitSigner ver) @ [vote_sender vt])"
      using assms(2) WaitCommits by (intro tallied_take(1) [OF r vsi]) (simp add: view_inv_def loop_inv_def)
    obtain cmt sig where c: "vote_Message vt = CommitMsg cmt" "cmt_Signature cmt = Some sig" "Signer sig = vote_sender vt"
      using tk(6) by (auto simp: acceptCommits_def split: option.splits)
    have res: "v' = v\<lparr>v_commits := vs, v_pc := WaitCommits sigs (ver @ [vote_Message vt]) vv\<rparr>" "effs = []"
      using assms(1) WaitCommits r by (simp_all add: stepVote_def)
    have "underVerification D (v_Number v) (v_ProposalSequence v) (vote_Message vt)"
      using tk(2,4,5) c by (auto simp: underVerification_def)
    then show ?thesis
      using assms(2) res WaitCommits tl tk(1,3) c
      by (auto simp: view_inv_def votingSets_inv_def loop_inv_def phase_inv_def)
  qed
qed (use assms in \<open>auto simp: stepVote_def\<close>)

lemma tallied_verified:
  assumes "tallied vs (xs @ map commitSigner (a @ m # b))"
  shows "tallied vs (xs @ map commitSigner (a @ b))"
    and "commitSigner m = Signer sig \<Longrightarrow> tallied vs ((xs @ [Signer sig]) @ map commitSigner (a @ b))"
  using assms unfolding tallied_def by simp_all

lemma commitVerified_view_inv:
  assumes "commitVerified E v i sigs ver vv = Inr (v', effs)" "view_inv C OK MY D v"
    and "environment C OK MY E" "v_pc v = WaitCommits sigs ver vv"
  shows "view_inv C OK MY D v' \<and> effs = []"
proof (cases "i < length ver \<and> length vv < votesCap (v_commits v)")
  case False
  then show ?thesis using assms by (auto simp: commitVerified_def)
next
  case True
  obtain p where p0: "v_inFlightProposal v = Some p"
    using assms(1) True by (cases "v_inFlightProposal v") (auto simp: commitVerified_def)
  obtain res where p1: "verifyVote E p (ver ! i) = Inr res"
    using assms(1) True p0 by (cases "verifyVote E p (ver ! i)") (auto simp: commitVerified_def)
  have p: "v_inFlightProposal v = Some p" "verifyVote E p (ver ! i) = Inr res"
    "v' = v\<lparr>v_pc := WaitCommits sigs (take i ver @ drop (Suc i) ver)
             (case res of None \<Rightarrow> vv | Some sig \<Rightarrow> vv @ [sig])\<rparr>" "effs = []"
    using assms(1) True p0 p1 by (simp_all add: commitVerified_def)
  define a b m where "a = take i ver" and "b = drop (Suc i) ver" and "m = ver ! i"
  have ver: "ver = a @ m # b" using True by (simp add: a_def b_def m_def id_take_nth_drop)
  have li: "loop_inv C OK D v" using assms(2) by (simp add: view_inv_def)
  then have uv: "underVerification D (v_Number v) (v_ProposalSequence v) m"
    using assms(4) ver by (simp add: loop_inv_def)
  have tl: "tallied (v_commits v) (map Signer (sigs @ vv) @ map commitSigner (a @ m # b))"
    and self: "v_SelfID v \<notin> set (map Signer (sigs @ vv) @ map commitSigner (a @ m # b))"
    and under: "\<forall>m\<in>set (a @ b). underVerification D (v_Number v) (v_ProposalSequence v) m"
    and ph: "v_Phase v = PREPARED"
    and ok: "\<And>sig. sig \<in> set (sigs @ vv) \<Longrightarrow> OK sig p \<and> committedBy C D (v_Number v) (v_ProposalSequence v) p sig"
    using li assms(4) ver p(1) by (auto simp: loop_inv_def)
  have "loop_inv C OK D v'"
  proof (cases res)
    case None
    then have "v' = v\<lparr>v_pc := WaitCommits sigs (a @ b) vv\<rparr>" using p(3) by (simp add: a_def b_def)
    then show ?thesis
      using tallied_verified(1) [OF tl] self under ph ok p(1) by (simp add: loop_inv_def image_Un)
  next
    case (Some sig)
    obtain cmt where c: "m = CommitMsg cmt" "cmt_Signature cmt = Some sig" "cmt_Digest cmt = Digest C p" "OK sig p"
      using p(2) Some assms(3) by (auto simp: verifyVote_def m_def environment_def split: option.splits if_splits)
    then have cb: "committedBy C D (v_Number v) (v_ProposalSequence v) p sig"
      using uv by (auto simp: underVerification_def committedBy_def)
    have sm: "commitSigner m = Signer sig" using c by simp
    have "v' = v\<lparr>v_pc := WaitCommits sigs (a @ b) (vv @ [sig])\<rparr>" using p(3) Some by (simp add: a_def b_def)
    moreover have "OK s p \<and> committedBy C D (v_Number v) (v_ProposalSequence v) p s"
      if "s \<in> set (sigs @ vv @ [sig])" for s using that ok cb c(4) by auto
    ultimately show ?thesis
      using tallied_verified(2) [OF tl sm] self sm under ph p(1) by (simp add: loop_inv_def image_Un)
  qed
  then show ?thesis using assms(2) p by (simp add: view_inv_def votingSets_inv_def phase_inv_def)
qed

text \<open>The cases of a step, which the inductions over runs share.\<close>

lemma doPhase_result:
  assumes "doPhase E v = Inr (v', effs)"
  obtains (prepares) es where "v_Phase v = PROPOSED" "continuePrepares E v [] = Inr (v', es)" "effs = broadcastLast v @ es"
  | (commits) es where "v_Phase v = PREPARED" "continueCommits v [] [] [] = Inr (v', es)" "effs = broadcastLast v @ es"
  | (begins) "v_Phase v = COMMITTED" "v' = beginProposal v" "effs = []"
  | (aborted) "v_Phase v = ABORT" "v' = v" "effs = []"
proof (cases "v_Phase v")
  case COMMITTED
  then show ?thesis using assms by (intro begins) (simp_all add: doPhase_def)
next
  case ABORT
  then show ?thesis using assms by (intro aborted) (simp_all add: doPhase_def)
next
  case PROPOSED
  then have "andThen (continuePrepares E v []) (\<lambda>(v', effs). Inr (v', broadcastLast v @ effs)) = Inr (v', effs)"
    using assms by (simp add: doPhase_def)
  then show ?thesis by (elim andThenE) (auto intro: prepares [OF PROPOSED])
next
  case PREPARED
  then have "andThen (continueCommits v [] [] []) (\<lambda>(v', effs). Inr (v', broadcastLast v @ effs)) = Inr (v', effs)"
    using assms by (simp add: doPhase_def)
  then show ?thesis by (elim andThenE) (auto intro: commits [OF PREPARED])
qed

lemma stepAbort_result:
  "stepAbort v = (v', effs) \<Longrightarrow> v' = v \<and> effs = [] \<or> v' = v\<lparr>v_Phase := ABORT, v_pc := AtRun\<rparr> \<and> effs = [] \<or>
     v' = v\<lparr>v_pc := Ended\<rparr> \<and> effs = [StoreViewSequence \<lparr>ViewActive = False, ProposalSeq = v_ProposalSequence v\<rparr>]"
  by (cases "v_pc v"; simp add: stepAbort_def endView_def split: if_splits; auto)

lemma view_stop_result: "view_stop v = v \<or> (\<exists>a. view_stop v = v\<lparr>v_abortChan := a\<rparr>)"
  by (auto simp: view_stop_def split: option.splits)

lemma stepVote_result:
  assumes "stepVote E v = Inr (v', effs)"
  obtains (none) "v' = v" "effs = []"
  | (prepare) ids vt vs where "v_pc v = WaitPrepares ids" "takeVote (v_prepares v) = Some (vt, vs)"
      "prepareVote E (v\<lparr>v_prepares := vs\<rparr>) ids vt = Inr (v', effs)"
  | (commit) sigs ver vv vt vs where "v_pc v = WaitCommits sigs ver vv" "takeVote (v_commits v) = Some (vt, vs)"
      "v' = v\<lparr>v_commits := vs, v_pc := WaitCommits sigs (ver @ [vote_Message vt]) vv\<rparr>" "effs = []"
proof -
  have "v' = v \<and> effs = [] \<or>
      (\<exists>ids vt vs. v_pc v = WaitPrepares ids \<and> takeVote (v_prepares v) = Some (vt, vs) \<and>
        prepareVote E (v\<lparr>v_prepares := vs\<rparr>) ids vt = Inr (v', effs)) \<or>
      (\<exists>sigs ver vv vt vs. v_pc v = WaitCommits sigs ver vv \<and> takeVote (v_commits v) = Some (vt, vs) \<and>
        v' = v\<lparr>v_commits := vs, v_pc := WaitCommits sigs (ver @ [vote_Message vt]) vv\<rparr> \<and> effs = [])"
    using assms by (cases "v_pc v") (auto simp: stepVote_def split: option.splits)
  then show ?thesis using none prepare commit by (elim disjE exE conjE)
qed

lemma prepareVote_continues:
  "prepareVote E v ids vt = Inr r \<Longrightarrow> \<exists>ids'. continuePrepares E v ids' = Inr r"
  by (auto simp: prepareVote_def split: option.splits if_splits)

lemma viewStep_result:
  assumes "viewStep E v ch = Inr (v', effs)"
  obtains (idle) "v' = v" "effs = []"
  | (arrives) s m where "ch = ChDeliver s m" "v' = v\<lparr>v_incMsgs := v_incMsgs v @ [(s, m)]\<rparr>" "effs = []"
  | (stops) a where "v' = v\<lparr>v_abortChan := a\<rparr>" "effs = []"
  | (aborts) "v' = v\<lparr>v_Phase := ABORT, v_pc := AtRun\<rparr>" "effs = []"
  | (ends) "v' = v\<lparr>v_pc := Ended\<rparr>" "effs = [StoreViewSequence \<lparr>ViewActive = False, ProposalSeq = v_ProposalSequence v\<rparr>]"
  | (msg) s m q where "v_incMsgs v = (s, m) # q" "processMsg (v\<lparr>v_incMsgs := q\<rparr>) s m = Inr (v', effs)"
  | (phase) "v_pc v = AtRun" "doPhase E v = Inr (v', effs)"
  | (preprepare) m where "v_pc v = WaitProposal" "v_prePrepare v = Some m"
      "acceptPrePrepare E (v\<lparr>v_prePrepare := None\<rparr>) m = Inr (v', effs)"
  | (vote) "stepVote E v = Inr (v', effs)"
  | (verify) i sigs ver vv where "v_pc v = WaitCommits sigs ver vv" "commitVerified E v i sigs ver vv = Inr (v', effs)"
  | (verified) sigs ver sig vv where "v_pc v = WaitCommits sigs ver (sig # vv)"
      "continueCommits v (sigs @ [sig]) ver vv = Inr (v', effs)"
proof (cases ch)
  case (ChDeliver s m)
  then have "v' = v \<and> effs = [] \<or> v' = v\<lparr>v_incMsgs := v_incMsgs v @ [(s, m)]\<rparr> \<and> effs = []"
    using assms by (auto simp: viewStep_def View_HandleMessage_def split: if_splits)
  then show ?thesis using idle arrives [OF ChDeliver] by (elim disjE conjE)
next
  case ChStop
  then have "(v' = v \<and> effs = []) \<or> (\<exists>a. v' = v\<lparr>v_abortChan := a\<rparr> \<and> effs = [])"
    using assms view_stop_result [of v] by (auto simp: viewStep_def)
  then show ?thesis using idle stops by (elim disjE exE conjE)
next
  case ChAbort
  then have "stepAbort v = (v', effs)" using assms by (simp add: viewStep_def)
  from stepAbort_result [OF this] show ?thesis using idle aborts ends by (elim disjE conjE)
next
  case ChMsg
  then have "v' = v \<and> effs = [] \<or> (\<exists>s m q. v_incMsgs v = (s, m) # q \<and> processMsg (v\<lparr>v_incMsgs := q\<rparr>) s m = Inr (v', effs))"
    using assms by (auto simp: viewStep_def stepMsg_def split: if_splits list.splits)
  then show ?thesis using idle msg by (elim disjE exE conjE)
next
  case ChDefault
  then have "v' = v \<and> effs = [] \<or> v_pc v = AtRun \<and> doPhase E v = Inr (v', effs)"
    using assms by (auto simp: viewStep_def split: if_splits)
  then show ?thesis using idle phase by (elim disjE conjE)
next
  case ChPrePrepare
  then have "v' = v \<and> effs = [] \<or> (\<exists>m. v_pc v = WaitProposal \<and> v_prePrepare v = Some m \<and>
      acceptPrePrepare E (v\<lparr>v_prePrepare := None\<rparr>) m = Inr (v', effs))"
    using assms by (auto simp: viewStep_def split: viewPc.splits option.splits)
  then show ?thesis using idle preprepare by (elim disjE exE conjE)
next
  case ChVote
  then show ?thesis using assms vote by (simp add: viewStep_def)
next
  case (ChVerify i)
  then have "v' = v \<and> effs = [] \<or> (\<exists>sigs ver vv. v_pc v = WaitCommits sigs ver vv \<and> commitVerified E v i sigs ver vv = Inr (v', effs))"
    using assms by (auto simp: viewStep_def split: viewPc.splits)
  then show ?thesis using idle verify by (elim disjE exE conjE)
next
  case ChVerified
  then have "v' = v \<and> effs = [] \<or> (\<exists>sigs ver sig vv. v_pc v = WaitCommits sigs ver (sig # vv) \<and>
      continueCommits v (sigs @ [sig]) ver vv = Inr (v', effs))"
    using assms by (auto simp: viewStep_def split: viewPc.splits list.splits)
  then show ?thesis using idle verified by (elim disjE exE conjE)
qed

lemma viewStep_view_inv:
  assumes "viewStep E v ch = Inr (v', effs)" "view_inv C OK MY D v" "environment C OK MY E"
    and "\<And>s m. ch = ChDeliver s m \<Longrightarrow> (s, m) \<in> D"
  shows "view_inv C OK MY D v' \<and> list_all (effect_ok C OK MY D v) effs"
  using assms(1)
proof (cases rule: viewStep_result)
  case (arrives s m)
  then show ?thesis using assms(2,4) by (auto simp: view_inv_def view_inv_frames)
next
  case (stops a)
  then show ?thesis using assms(2) by (auto simp: view_inv_def view_inv_frames)
next
  case aborts
  then show ?thesis using assms(2) by (auto simp: view_inv_def votingSets_inv_def loop_inv_def phase_inv_def)
next
  case ends
  then show ?thesis using assms(2) by (auto simp: view_inv_def votingSets_inv_def loop_inv_def phase_inv_def effect_ok_def)
next
  case (msg s m q)
  have "view_inv C OK MY D (v\<lparr>v_incMsgs := q\<rparr>)" "(s, m) \<in> D"
    using assms(2) msg(1) by (simp_all add: view_inv_def view_inv_frames)
  with msg(2) show ?thesis by (rule processMsg_view_inv)
next
  case phase
  have bl: "list_all (effect_ok C OK MY D v) (broadcastLast v)" by (simp add: broadcastLast_def effect_ok_def)
  from phase(2) show ?thesis
  proof (cases rule: doPhase_result)
    case (prepares es)
    have "set (v_incMsgs v) \<subseteq> D" "votingSets_inv D v" using assms(2) by (simp_all add: view_inv_def)
    then show ?thesis using continuePrepares_view_inv [OF prepares(2) assms(3) _ _ prepares(1)] prepares(3) bl by simp
  next
    case (commits es)
    have "loop_inv C OK D (v\<lparr>v_pc := WaitCommits [] [] []\<rparr>)" using commits(1) by (simp add: loop_inv_def)
    then show ?thesis using continueCommits_view_inv [OF commits(2) assms(2) commits(1)] commits(3) bl by simp
  next
    case begins
    then show ?thesis
      using assms(2) by (auto simp: beginProposal_def view_inv_def votingSets_inv_def loop_inv_def phase_inv_def)
  qed (use assms(2) in simp)
next
  case (preprepare m)
  have "view_inv C OK MY D (v\<lparr>v_prePrepare := None\<rparr>)" using assms(2) by (simp add: view_inv_def view_inv_frames)
  then show ?thesis using acceptPrePrepare_view_inv preprepare(1,3) by fastforce
next
  case vote
  then show ?thesis by (rule stepVote_view_inv [OF _ assms(2,3)])
next
  case (verify i sigs ver vv)
  then show ?thesis using commitVerified_view_inv [OF _ assms(2,3)] by fastforce
next
  case (verified sigs ver sig vv)
  have "v_Phase v = PREPARED" "loop_inv C OK D (v\<lparr>v_pc := WaitCommits (sigs @ [sig]) ver vv\<rparr>)"
    using assms(2) verified(1) by (auto simp: view_inv_def loop_inv_def)
  then show ?thesis using continueCommits_view_inv [OF verified(2) assms(2)] by blast
qed (use assms(2) in simp)

subsection \<open>What never changes\<close>

text \<open>The identity of a view: no step changes these fields.\<close>

definition viewIdentity :: "View \<Rightarrow> u64 \<times> u64 \<times> int \<times> u64 \<times> u64 list \<times> u64 \<times> u64" where
  "viewIdentity v = (v_SelfID v, v_Number v, v_Quorum v, v_N v, v_NodesList v, v_LeaderID v, v_DecisionsPerLeader v)"

lemma messageFrame_identity: "messageFrame v v' \<Longrightarrow> viewIdentity v' = viewIdentity v"
  by (auto simp: messageFrame_def viewIdentity_def)

lemma processVote_frame: "processVote v s m nxt = Inr v' \<Longrightarrow> messageFrame v v'"
  by (auto simp: processVote_def andThen_eq_Inr_iff view_frames split: if_splits)

text \<open>Handling a message sends nothing but the assist messages of the previous sequence.\<close>

lemma processMsg_frame:
  assumes "processMsg v s m = Inr (v', effs)"
  shows "messageFrame v v' \<and> v_prevPrepareSent v' = v_prevPrepareSent v \<and> v_prevCommitSent v' = v_prevCommitSent v \<and>
    (list_all quietEffect effs \<and> (\<forall>n m. SendConsensus n m \<in> set effs \<longrightarrow>
      v_prevPrepareSent v = Some m \<or> v_prevCommitSent v = Some m))"
proof -
  have stop: "messageFrame v (view_stop v)" by (simp add: view_stop_def view_frames split: option.splits)
  have discF: "messageFrame v w \<and> (\<forall>n m. SendConsensus n m \<notin> set es) \<and> list_all quietEffect es"
    if "discoverIfSyncNeeded v s m = (w, es)" for w es
    using discover_frame [OF that] that
    by (auto simp: discoverIfSyncNeeded_def Let_def split: option.splits if_splits)
  have prevF: "\<forall>n m. SendConsensus n m \<in> set es \<longrightarrow> v_prevPrepareSent v = Some m \<or> v_prevCommitSent v = Some m"
    "list_all quietEffect es" if "handlePrevSeqMessage v sq s m = Inr es" for sq es
    using that by (auto simp: handlePrevSeqMessage_def split: option.splits if_splits)
  have mf: "messageFrame v w \<Longrightarrow> v_prevPrepareSent w = v_prevPrepareSent v \<and> v_prevCommitSent w = v_prevCommitSent v" for w
    by (auto simp: messageFrame_def)
  show ?thesis
  proof (cases "Stopped v \<or> viewNumber m \<noteq> v_Number v")
    case True
    show ?thesis
    proof (cases "Stopped v \<or> s = v_LeaderID v")
      case sl: True
      have "v' = v \<and> effs = [] \<or> v' = view_stop v \<and>
          effs = [Complain (v_Number v) False] @ (if viewNumber m > v_Number v then [SyncCall] else [])"
        using assms sl True by (cases "Stopped v") (simp_all add: processMsg_def Let_def)
      then show ?thesis using stop mf [OF stop] view_frames(1) [of v] by fastforce
    next
      case False
      then have "discoverIfSyncNeeded v s m = (v', effs)"
        using assms True by (simp add: processMsg_def Let_def)
      then show ?thesis using discF [of v' effs] mf [of v'] by simp
    qed
  next
    case False
    show ?thesis
    proof (cases "proposalSequence m = v_ProposalSequence v - 1 \<and> v_ProposalSequence v > 0")
      case True
      then have "processMsg v s m = andThen (handlePrevSeqMessage v (proposalSequence m) s m) (\<lambda>es. Inr (v, es))"
        using False by (simp add: processMsg_def Let_def)
      then have "handlePrevSeqMessage v (proposalSequence m) s m = Inr effs" "v' = v"
        using assms by (cases "handlePrevSeqMessage v (proposalSequence m) s m"; simp)+
      then show ?thesis using prevF view_frames(1) by simp
    next
      case nprev: False
      have "discoverIfSyncNeeded v s m = (v', effs) \<or>
          (\<exists>pp nxt. v' = processPrePrepare v pp m nxt s) \<and> effs = [] \<or>
          (\<exists>nxt. processVote v s m nxt = Inr v') \<and> effs = []"
        using False nprev assms
        by (simp add: processMsg_def Let_def andThen_eq_Inr_iff split: if_splits option.splits) metis+
      then show ?thesis
        using discF [of v' effs] mf [of v'] processPrePrepare_frame(1) processVote_frame by fastforce
    qed
  qed
qed

lemma continuePrepares_result:
  assumes "continuePrepares E v ids = Inr (v', effs)"
  obtains (wait) "v' = v\<lparr>v_pc := WaitPrepares ids\<rparr>" "effs = []"
  | (enough) p sig commit where "v_inFlightProposal v = Some p"
      "commit = \<lparr>cmt_View = v_Number v, cmt_Seq = v_ProposalSequence v,
         cmt_Digest = proposalDigest E p, cmt_Signature = Some sig, cmt_Assist = False\<rparr>"
      "v' = v\<lparr>v_myProposalSig := Some sig,
         v_currCommitSent := Some (CommitMsg (commit\<lparr>cmt_Assist := True\<rparr>)),
         v_lastBroadcastSent := Some (CommitMsg commit), v_Phase := PREPARED, v_pc := AtRun\<rparr>"
      "effs = [SaveState (SavedCommit (CommitMsg commit))]"
      "sig = api_SignProposal (env_services E) (env_app E) p (marshalPreparesFrom (env_codec E) ids)"
  using assms
  by (auto simp: continuePrepares_def finishPrepares_def Let_def split: option.splits if_splits)

lemma continueCommits_result:
  assumes "continueCommits v sigs ver vv = Inr (v', effs)"
  obtains (wait) "v' = v\<lparr>v_pc := WaitCommits sigs ver vv\<rparr>" "effs = []"
  | (enough) p sig where "v_inFlightProposal v = Some p" "v_myProposalSig v = Some sig"
      "v' = (startNextSeq v)\<lparr>v_Phase := COMMITTED, v_pc := AtRun\<rparr>"
      "effs = [StoreViewSequence \<lparr>ViewActive = True, ProposalSeq = v_ProposalSequence v\<rparr>,
         Decide p (sigs @ [sig]) (v_inFlightRequests v)]"
  using assms by (auto simp: continueCommits_def view_prepared_def decide_def split: option.splits if_splits)

lemma acceptPrePrepare_result:
  assumes "acceptPrePrepare E v m = Inr (v', effs)"
  obtains (bad) b where "v' = (view_stop (v\<lparr>v_blacklistSupported := b\<rparr>))\<lparr>v_Phase := ABORT, v_pc := AtRun\<rparr>"
      "effs = [Complain (v_Number v) False, SyncCall]"
  | (good) pp p b requests prepare where "m = PrePrepareMsg pp" "pp_Proposal pp = Some p"
      "verifyProposal E v p (pp_PrevCommitSignatures pp) = Inr (Inr requests, v\<lparr>v_blacklistSupported := b\<rparr>)"
      "prepare = createPrepare E v (v_ProposalSequence v) p"
      "v' = v\<lparr>v_blacklistSupported := b, v_lastBroadcastSent := Some (PrepareMsg prepare),
         v_currPrepareSent := Some (PrepareMsg (prepare\<lparr>prp_Assist := True\<rparr>)),
         v_inFlightProposal := Some p, v_inFlightRequests := requests,
         v_Phase := PROPOSED, v_pc := AtRun\<rparr>"
      "effs = [SaveState (SavedProposedRecord pp prepare)] @
         (if v_SelfID v = v_LeaderID v then [Broadcast m] else [])"
proof -
  obtain pp p res v1 where pp: "GetPrePrepare m = Some pp" "pp_Proposal pp = Some p"
    "verifyProposal E v p (pp_PrevCommitSignatures pp) = Inr (res, v1)"
    using assms by (auto simp: acceptPrePrepare_def andThen_eq_Inr_iff split: option.splits)
  obtain b where v1: "v1 = v\<lparr>v_blacklistSupported := b\<rparr>" using verifyProposal_frame [OF pp(3)] .
  show ?thesis
  proof (cases res)
    case (Inl err)
    then show ?thesis using bad [of b] assms pp v1 by (simp add: acceptPrePrepare_def)
  next
    case (Inr requests)
    then show ?thesis
      using good [of pp p requests b] assms pp v1
      by (simp add: acceptPrePrepare_def Let_def createPrepare_def split: if_splits)
  qed
qed

end
