(* ===== verification/ViewHistory.thy ===== *)
theory ViewHistory
  imports ViewSafety
begin

text \<open>
  What a view has persisted, and how it relates to what the view sends: every prepare, commit and
  pre-prepare is saved before it is sent, at most one digest is prepared for a sequence of the
  view, a commit follows the prepare of the same digest, and a decision follows the commit.
  The history is the list of the effects so far; it may start with what a previous incarnation
  of the view saved, so that the results also hold after a recovery from the log.
\<close>

definition proposedIn :: "viewEffect list \<Rightarrow> Prepare set" where
  "proposedIn H = {prp. \<exists>pp. SaveState (SavedProposedRecord pp prp) \<in> set H}"

definition committedIn :: "viewEffect list \<Rightarrow> Commit set" where
  "committedIn H = {c. SaveState (SavedCommit (CommitMsg c)) \<in> set H}"

fun persistedMsg :: "viewEffect list \<Rightarrow> Message \<Rightarrow> bool" where
  "persistedMsg H (PrepareMsg prp) = (\<exists>prp'\<in>proposedIn H. prp = prp' \<or> prp = prp'\<lparr>prp_Assist := True\<rparr>)"
| "persistedMsg H (CommitMsg c) = (\<exists>c'\<in>committedIn H. c = c' \<or> c = c'\<lparr>cmt_Assist := True\<rparr>)"
| "persistedMsg H (PrePrepareMsg pp) = (\<exists>prp. SaveState (SavedProposedRecord pp prp) \<in> set H)"
| "persistedMsg H _ = True"

fun justified :: "codec \<Rightarrow> viewEffect list \<Rightarrow> viewEffect \<Rightarrow> bool" where
  "justified C H (Broadcast m) = persistedMsg H m"
| "justified C H (SendConsensus n m) = persistedMsg H m"
| "justified C H (Decide p sigs reqs) = (\<exists>c\<in>committedIn H. cmt_Digest c = Digest C p)"
| "justified C H _ = True"

text \<open>Every effect is justified by the effects before it.\<close>

fun persistFirst :: "codec \<Rightarrow> viewEffect list \<Rightarrow> viewEffect list \<Rightarrow> bool" where
  "persistFirst C H [] = True"
| "persistFirst C H (e # es) = (justified C H e \<and> persistFirst C (H @ [e]) es)"

definition onePerSeq :: "viewEffect list \<Rightarrow> bool" where
  "onePerSeq H \<longleftrightarrow> (\<forall>prp\<in>proposedIn H. \<forall>prp'\<in>proposedIn H.
     prp_Seq prp = prp_Seq prp' \<longrightarrow> prp_Digest prp = prp_Digest prp')"

definition pcPhase :: "View \<Rightarrow> bool" where
  "pcPhase v =
     (case v_pc v of
        WaitProposal \<Rightarrow> v_Phase v = COMMITTED
      | WaitPrepares ids \<Rightarrow> v_Phase v = PROPOSED
      | WaitCommits sigs ver vv \<Rightarrow> v_Phase v = PREPARED
      | _ \<Rightarrow> True)"

definition sentMessages :: "View \<Rightarrow> Message set" where
  "sentMessages v = set_option (v_currPrepareSent v) \<union> set_option (v_currCommitSent v) \<union>
     set_option (v_prevPrepareSent v) \<union> set_option (v_prevCommitSent v) \<union>
     (if v_Phase v \<in> {PROPOSED, PREPARED} then set_option (v_lastBroadcastSent v) else {})"

definition hist_inv :: "codec \<Rightarrow> viewEffect list \<Rightarrow> View \<Rightarrow> bool" where
  "hist_inv C H v \<longleftrightarrow> onePerSeq H \<and> pcPhase v \<and>
     (\<forall>prp\<in>proposedIn H. prp_View prp = v_Number v \<and> prp_Seq prp \<le> v_ProposalSequence v) \<and>
     (\<forall>c\<in>committedIn H. cmt_View c = v_Number v \<and>
        (\<exists>prp\<in>proposedIn H. prp_Seq prp = cmt_Seq c \<and> prp_Digest prp = cmt_Digest c)) \<and>
     (v_Phase v = COMMITTED \<longrightarrow> (\<forall>prp\<in>proposedIn H. prp_Seq prp < v_ProposalSequence v)) \<and>
     (v_Phase v \<in> {PROPOSED, PREPARED} \<longrightarrow> (\<exists>p. v_inFlightProposal v = Some p \<and>
        (\<exists>prp\<in>proposedIn H. prp_Seq prp = v_ProposalSequence v \<and> prp_Digest prp = Digest C p) \<and>
        (v_Phase v = PREPARED \<longrightarrow>
          (\<exists>c\<in>committedIn H. cmt_Seq c = v_ProposalSequence v \<and> cmt_Digest c = Digest C p)))) \<and>
     (\<forall>m\<in>sentMessages v. persistedMsg H m)"

lemma proposedIn_append [simp]: "proposedIn (H @ H') = proposedIn H \<union> proposedIn H'"
  by (auto simp: proposedIn_def)

lemma committedIn_append [simp]: "committedIn (H @ H') = committedIn H \<union> committedIn H'"
  by (auto simp: committedIn_def)

lemma quiet_proposedIn [simp]: "list_all quietEffect effs \<Longrightarrow> proposedIn effs = {}"
  by (induction effs) (auto simp: proposedIn_def)

lemma quiet_committedIn [simp]: "list_all quietEffect effs \<Longrightarrow> committedIn effs = {}"
  by (induction effs) (auto simp: committedIn_def)

lemma history_single [simp]:
  "proposedIn [] = {}" "committedIn [] = {}"
  "proposedIn [Broadcast m] = {}" "committedIn [Broadcast m] = {}"
  "proposedIn [SaveState (SavedProposedRecord pp prp)] = {prp}"
  "committedIn [SaveState (SavedProposedRecord pp prp)] = {}"
  "proposedIn [SaveState (SavedCommit m)] = {}"
  "committedIn [SaveState (SavedCommit (CommitMsg c))] = {c}"
  "proposedIn [StoreViewSequence s, Decide p sigs reqs] = {}"
  "committedIn [StoreViewSequence s, Decide p sigs reqs] = {}"
  by (auto simp: proposedIn_def committedIn_def)

lemma persistedMsg_mono: "persistedMsg H m \<Longrightarrow> persistedMsg (H @ H') m"
  by (cases "(H, m)" rule: persistedMsg.cases) auto

lemma persistFirst_append:
  "persistFirst C H (a @ b) \<longleftrightarrow> persistFirst C H a \<and> persistFirst C (H @ a) b"
  by (induction a arbitrary: H) auto

lemma onePerSeq_cong: "proposedIn H' = proposedIn H \<Longrightarrow> onePerSeq H' = onePerSeq H"
  by (simp only: onePerSeq_def)

lemma hist_invD:
  assumes "hist_inv C H v"
  shows "onePerSeq H" "pcPhase v"
    "\<And>prp. prp \<in> proposedIn H \<Longrightarrow> prp_View prp = v_Number v"
    "\<And>prp. prp \<in> proposedIn H \<Longrightarrow> prp_Seq prp \<le> v_ProposalSequence v"
    "\<And>c. c \<in> committedIn H \<Longrightarrow> cmt_View c = v_Number v"
    "\<And>c. c \<in> committedIn H \<Longrightarrow> \<exists>prp\<in>proposedIn H. prp_Seq prp = cmt_Seq c \<and> prp_Digest prp = cmt_Digest c"
    "\<And>prp. v_Phase v = COMMITTED \<Longrightarrow> prp \<in> proposedIn H \<Longrightarrow> prp_Seq prp < v_ProposalSequence v"
    "v_Phase v \<in> {PROPOSED, PREPARED} \<Longrightarrow> \<exists>p. v_inFlightProposal v = Some p \<and>
        (\<exists>prp\<in>proposedIn H. prp_Seq prp = v_ProposalSequence v \<and> prp_Digest prp = Digest C p) \<and>
        (v_Phase v = PREPARED \<longrightarrow>
          (\<exists>c\<in>committedIn H. cmt_Seq c = v_ProposalSequence v \<and> cmt_Digest c = Digest C p))"
    "\<And>m. m \<in> sentMessages v \<Longrightarrow> persistedMsg H m"
  using assms unfolding hist_inv_def by blast+

lemma hist_invI:
  assumes "onePerSeq H" "pcPhase v"
    "\<And>prp. prp \<in> proposedIn H \<Longrightarrow> prp_View prp = v_Number v \<and> prp_Seq prp \<le> v_ProposalSequence v"
    "\<And>c. c \<in> committedIn H \<Longrightarrow> cmt_View c = v_Number v \<and>
        (\<exists>prp\<in>proposedIn H. prp_Seq prp = cmt_Seq c \<and> prp_Digest prp = cmt_Digest c)"
    "\<And>prp. v_Phase v = COMMITTED \<Longrightarrow> prp \<in> proposedIn H \<Longrightarrow> prp_Seq prp < v_ProposalSequence v"
    "v_Phase v \<in> {PROPOSED, PREPARED} \<Longrightarrow> \<exists>p. v_inFlightProposal v = Some p \<and>
        (\<exists>prp\<in>proposedIn H. prp_Seq prp = v_ProposalSequence v \<and> prp_Digest prp = Digest C p) \<and>
        (v_Phase v = PREPARED \<longrightarrow>
          (\<exists>c\<in>committedIn H. cmt_Seq c = v_ProposalSequence v \<and> cmt_Digest c = Digest C p))"
    "\<And>m. m \<in> sentMessages v \<Longrightarrow> persistedMsg H m"
  shows "hist_inv C H v"
  using assms unfolding hist_inv_def by blast

text \<open>Adding effects that save nothing keeps the invariant when the view keeps its phase.\<close>

lemma hist_inv_quiet:
  assumes "hist_inv C H v" "proposedIn effs = {}" "committedIn effs = {}"
    and "v_Number v' = v_Number v" "v_ProposalSequence v' = v_ProposalSequence v" "v_Phase v' = v_Phase v"
    and "v_inFlightProposal v' = v_inFlightProposal v" "sentMessages v' \<subseteq> sentMessages v" "pcPhase v'"
  shows "hist_inv C (H @ effs) v'"
proof -
  note d = hist_invD [OF assms(1)]
  have new: "proposedIn (H @ effs) = proposedIn H" "committedIn (H @ effs) = committedIn H"
    using assms(2,3) by simp_all
  show ?thesis
  proof (rule hist_invI, unfold new)
    show "onePerSeq (H @ effs)" using d(1) onePerSeq_cong [OF new(1)] by blast
    show "persistedMsg (H @ effs) m" if "m \<in> sentMessages v'" for m
      using that assms(8) d(9) by (intro persistedMsg_mono) blast
    show "pcPhase v'" by (rule assms(9))
    show "prp_View prp = v_Number v' \<and> prp_Seq prp \<le> v_ProposalSequence v'" if "prp \<in> proposedIn H" for prp
      using d(3,4) [OF that] assms(4,5) by simp
    show "cmt_View c = v_Number v' \<and>
        (\<exists>prp\<in>proposedIn H. prp_Seq prp = cmt_Seq c \<and> prp_Digest prp = cmt_Digest c)" if "c \<in> committedIn H" for c
      using d(5,6) [OF that] assms(4) by simp
    show "prp_Seq prp < v_ProposalSequence v'" if "v_Phase v' = COMMITTED" "prp \<in> proposedIn H" for prp
      using d(7) that assms(5,6) by simp
    show "\<exists>p. v_inFlightProposal v' = Some p \<and>
        (\<exists>prp\<in>proposedIn H. prp_Seq prp = v_ProposalSequence v' \<and> prp_Digest prp = Digest C p) \<and>
        (v_Phase v' = PREPARED \<longrightarrow>
          (\<exists>c\<in>committedIn H. cmt_Seq c = v_ProposalSequence v' \<and> cmt_Digest c = Digest C p))"
      if "v_Phase v' \<in> {PROPOSED, PREPARED}"
      using d(8) that unfolding assms(5-7) by blast
  qed
qed

lemma sentMessages_frames [simp]:
  "sentMessages (v\<lparr>v_incMsgs := q\<rparr>) = sentMessages v"
  "sentMessages (v\<lparr>v_abortChan := a\<rparr>) = sentMessages v"
  "sentMessages (v\<lparr>v_prePrepare := pp\<rparr>) = sentMessages v"
  "sentMessages (v\<lparr>v_pc := pc\<rparr>) = sentMessages v"
  "sentMessages (v\<lparr>v_prepares := vs\<rparr>) = sentMessages v"
  "sentMessages (v\<lparr>v_commits := vs\<rparr>) = sentMessages v"
  "sentMessages (v\<lparr>v_commits := vs, v_pc := pc\<rparr>) = sentMessages v"
  by (simp_all add: sentMessages_def)

lemma pcPhase_frames [simp]:
  "pcPhase (v\<lparr>v_incMsgs := q\<rparr>) = pcPhase v"
  "pcPhase (v\<lparr>v_abortChan := a\<rparr>) = pcPhase v"
  "pcPhase (v\<lparr>v_prePrepare := pp\<rparr>) = pcPhase v"
  "pcPhase (v\<lparr>v_prepares := vs\<rparr>) = pcPhase v"
  "pcPhase (v\<lparr>v_pc := WaitCommits sigs ver vv\<rparr>) = (v_Phase v = PREPARED)"
  "pcPhase (v\<lparr>v_commits := vs, v_pc := WaitCommits sigs ver vv\<rparr>) = (v_Phase v = PREPARED)"
  "pcPhase (v\<lparr>v_pc := Ended\<rparr>)"
  by (simp_all add: pcPhase_def split: viewPc.split)

lemma persistFirst_quiet:
  assumes "list_all quietEffect effs" "\<And>n m. SendConsensus n m \<in> set effs \<Longrightarrow> persistedMsg H m"
  shows "persistFirst C H effs"
  using assms
proof (induction effs arbitrary: H)
  case (Cons e es)
  have "persistFirst C (H @ [e]) es"
  proof (rule Cons.IH)
    show "persistedMsg (H @ [e]) m" if "SendConsensus n m \<in> set es" for n m
      using that by (intro persistedMsg_mono Cons.prems(2) [of n]) simp
  qed (use Cons.prems in simp)
  then show ?case using Cons.prems by (cases e) auto
qed simp

lemma messageFrame_sent:
  assumes "messageFrame v v'" shows "sentMessages v' = sentMessages v" "pcPhase v' = pcPhase v"
  using assms by (auto simp: messageFrame_def sentMessages_def pcPhase_def split: viewPc.splits)

lemma processMsg_hist:
  assumes "processMsg v s m = Inr (v', effs)" "hist_inv C H v"
  shows "hist_inv C (H @ effs) v' \<and> persistFirst C H effs"
proof -
  note f = processMsg_frame [OF assms(1)]
  have mf: "messageFrame v v'" and q: "list_all quietEffect effs" using f by auto
  have "hist_inv C (H @ effs) v'"
    using q messageFrame_simps [OF mf] messageFrame_sent [OF mf] hist_invD(2) [OF assms(2)]
    by (intro hist_inv_quiet [OF assms(2)]) simp_all
  moreover have "persistedMsg H m'" if "SendConsensus n m' \<in> set effs" for n m'
    using f that by (intro hist_invD(9) [OF assms(2)]) (auto simp: sentMessages_def)
  ultimately show ?thesis using persistFirst_quiet [OF q] by blast
qed

lemma acceptPrePrepare_hist:
  assumes "acceptPrePrepare E v m = Inr (v', effs)" "hist_inv C H v" "env_codec E = C"
    and "v_pc v = WaitProposal"
  shows "hist_inv C (H @ effs) v' \<and> persistFirst C H effs"
  using assms(1)
proof (cases rule: acceptPrePrepare_result)
  case (bad b)
  note d = hist_invD [OF assms(2)]
  have new: "proposedIn (H @ effs) = proposedIn H" "committedIn (H @ effs) = committedIn H"
    using bad(2) by simp_all
  have "sentMessages v' \<subseteq> sentMessages v" "v_Phase v' = ABORT" "v_pc v' = AtRun"
    "v_Number v' = v_Number v" "v_ProposalSequence v' = v_ProposalSequence v"
    using bad(1) by (auto simp: sentMessages_def view_stop_def split: option.splits)
  then have "hist_inv C (H @ effs) v'"
    using d(1,3-6) by (intro hist_invI persistedMsg_mono d(9), unfold new onePerSeq_cong [OF new(1)])
      (auto simp: pcPhase_def)
  then show ?thesis using bad by simp
next
  case (good pp p b requests prepare)
  note d = hist_invD [OF assms(2)]
  have ph: "v_Phase v = COMMITTED" using d(2) assms(4) by (simp add: pcPhase_def)
  have new: "proposedIn (H @ effs) = insert prepare (proposedIn H)" "committedIn (H @ effs) = committedIn H"
    using good(6) by (auto simp: proposedIn_def committedIn_def)
  have prep: "prp_Seq prepare = v_ProposalSequence v" "prp_View prepare = v_Number v" "prp_Digest prepare = Digest C p"
    using good(4) assms(3) by (simp_all add: createPrepare_def)
  have v': "v_Phase v' = PROPOSED" "v_pc v' = AtRun" "v_inFlightProposal v' = Some p"
    "v_Number v' = v_Number v" "v_ProposalSequence v' = v_ProposalSequence v"
    using good(5) by simp_all
  have sent: "sentMessages v' \<subseteq> insert (PrepareMsg prepare)
      (insert (PrepareMsg (prepare\<lparr>prp_Assist := True\<rparr>)) (sentMessages v))"
    using good(5) by (auto simp: sentMessages_def)
  have fresh: "prp_Seq a \<noteq> prp_Seq prepare" if "a \<in> proposedIn H" for a
    using d(7) [OF ph that] prep(1) by auto
  have "hist_inv C (H @ effs) v'"
  proof (rule hist_invI, unfold new)
    show "onePerSeq (H @ effs)"
      using d(1) fresh unfolding onePerSeq_def new by (metis insertE)
    show "persistedMsg (H @ effs) m'" if "m' \<in> sentMessages v'" for m'
      using that sent new(1) persistedMsg_mono [OF d(9)] by (cases "m' \<in> sentMessages v") auto
    show "\<exists>pa. v_inFlightProposal v' = Some pa \<and>
       (\<exists>prp\<in>insert prepare (proposedIn H). prp_Seq prp = v_ProposalSequence v' \<and> prp_Digest prp = Digest C pa) \<and>
       (v_Phase v' = PREPARED \<longrightarrow>
          (\<exists>c\<in>committedIn H. cmt_Seq c = v_ProposalSequence v' \<and> cmt_Digest c = Digest C pa))"
      using v' prep by simp
  qed (use v' prep d(3-6) in \<open>auto simp: pcPhase_def\<close>)
  then show ?thesis using good(1,6) by auto
qed

lemma continuePrepares_hist:
  assumes "continuePrepares E v ids = Inr (v', effs)" "hist_inv C H v" "env_codec E = C"
    and "v_Phase v = PROPOSED"
  shows "hist_inv C (H @ effs) v' \<and> persistFirst C H effs"
  using assms(1)
proof (cases rule: continuePrepares_result)
  case wait
  then have "hist_inv C (H @ effs) v'"
    using assms(4) by (intro hist_inv_quiet [OF assms(2)]) (auto simp: sentMessages_def pcPhase_def)
  then show ?thesis using wait by simp
next
  case (enough p sig commit)
  note d = hist_invD [OF assms(2)]
  have sent: "sentMessages v' \<subseteq> insert (CommitMsg commit)
      (insert (CommitMsg (commit\<lparr>cmt_Assist := True\<rparr>)) (sentMessages v))"
    using enough(3) assms(4) by (auto simp: sentMessages_def)
  have new: "committedIn (H @ effs) = insert commit (committedIn H)" "proposedIn (H @ effs) = proposedIn H"
    using enough(4) by auto
  have v': "v_Phase v' = PREPARED" "v_pc v' = AtRun" "v_inFlightProposal v' = Some p"
    "v_Number v' = v_Number v" "v_ProposalSequence v' = v_ProposalSequence v"
    using enough(1,3) by simp_all
  obtain prp where prp: "prp \<in> proposedIn H" "prp_Seq prp = v_ProposalSequence v" "prp_Digest prp = Digest C p"
    using d(8) assms(4) enough(1) by auto
  have c: "cmt_Seq commit = v_ProposalSequence v" "cmt_View commit = v_Number v" "cmt_Digest commit = Digest C p"
    using enough(2) assms(3) by simp_all
  have "hist_inv C (H @ effs) v'"
  proof (rule hist_invI, unfold new)
    show "onePerSeq (H @ effs)" using d(1) onePerSeq_cong [OF new(2)] by blast
    show "persistedMsg (H @ effs) m'" if "m' \<in> sentMessages v'" for m'
      using that sent new(1) persistedMsg_mono [OF d(9)] by (cases "m' \<in> sentMessages v") auto
    show "cmt_View c' = v_Number v' \<and>
        (\<exists>prp\<in>proposedIn H. prp_Seq prp = cmt_Seq c' \<and> prp_Digest prp = cmt_Digest c')"
      if "c' \<in> insert commit (committedIn H)" for c'
      using that d(5,6) c prp v'(4) by auto
  qed (use v' prp c d(3,4) in \<open>auto simp: pcPhase_def\<close>)
  then show ?thesis using enough(4) by simp
qed

lemma continueCommits_hist:
  assumes "continueCommits v sigs ver vv = Inr (v', effs)" "hist_inv C H v"
    and "v_Phase v = PREPARED" "v_ProposalSequence v \<noteq> max_u64"
  shows "hist_inv C (H @ effs) v' \<and> persistFirst C H effs"
  using assms(1)
proof (cases rule: continueCommits_result)
  case wait
  then have "hist_inv C (H @ effs) v'"
    using assms(3) by (intro hist_inv_quiet [OF assms(2)]) (auto simp: sentMessages_def pcPhase_def)
  then show ?thesis using wait by simp
next
  case (enough p sig)
  note d = hist_invD [OF assms(2)]
  have lt: "prp_Seq prp < v_ProposalSequence v + 1" if "prp \<in> proposedIn H" for prp
    using d(4) [OF that] unat_plus_one [OF assms(4)] by (simp add: word_less_nat_alt word_le_nat_alt)
  have sent: "sentMessages v' \<subseteq> sentMessages v"
    using enough(3) by (auto simp: sentMessages_def startNextSeq_def)
  have new: "proposedIn (H @ effs) = proposedIn H" "committedIn (H @ effs) = committedIn H"
    using enough(4) by auto
  have v': "v_Phase v' = COMMITTED" "v_pc v' = AtRun" "v_Number v' = v_Number v"
    "v_ProposalSequence v' = v_ProposalSequence v + 1"
    using enough(3) by (simp_all add: startNextSeq_def)
  have "hist_inv C (H @ effs) v'"
  proof (rule hist_invI, unfold new)
    show "onePerSeq (H @ effs)" using d(1) onePerSeq_cong [OF new(1)] by blast
    show "persistedMsg (H @ effs) m'" if "m' \<in> sentMessages v'" for m'
      using that sent by (intro persistedMsg_mono d(9)) blast
  qed (use v' lt d(3,5,6) in \<open>auto simp: pcPhase_def intro: less_imp_le\<close>)
  moreover have "\<exists>c\<in>committedIn H. cmt_Digest c = Digest C p"
    using d(8) assms(3) enough(1) by auto
  moreover have "committedIn (H @ [StoreViewSequence \<lparr>ViewActive = True, ProposalSeq = v_ProposalSequence v\<rparr>]) = committedIn H"
    by (simp add: committedIn_def)
  ultimately show ?thesis using enough(4) by simp
qed

subsection \<open>Every step is recorded\<close>

lemma stepVote_hist:
  assumes "stepVote E v = Inr (v', effs)" "hist_inv C H v" "env_codec E = C"
  shows "hist_inv C (H @ effs) v' \<and> persistFirst C H effs"
  using assms(1)
proof (cases rule: stepVote_result)
  case none
  then show ?thesis using assms(2) by simp
next
  case (prepare ids vt vs)
  have ph: "v_Phase v = PROPOSED" using hist_invD(2) [OF assms(2)] prepare(1) by (simp add: pcPhase_def)
  have "hist_inv C H (v\<lparr>v_prepares := vs\<rparr>)"
    using hist_inv_quiet [OF assms(2), of "[]" "v\<lparr>v_prepares := vs\<rparr>"] hist_invD(2) [OF assms(2)] by simp
  then show ?thesis using continuePrepares_hist [OF _ _ assms(3)] prepareVote_continues [OF prepare(3)] ph by force
next
  case (commit sigs ver vv vt vs)
  then show ?thesis
    using hist_inv_quiet [OF assms(2), of "[]" v'] hist_invD(2) [OF assms(2)] by (auto simp: pcPhase_def [of v])
qed

lemma commitVerified_result:
  "commitVerified E v i sigs ver vv = Inr (v', effs) \<Longrightarrow>
   effs = [] \<and> (v' = v \<or> (\<exists>ver' vv'. v' = v\<lparr>v_pc := WaitCommits sigs ver' vv'\<rparr>))"
  by (auto simp: commitVerified_def andThen_eq_Inr_iff split: if_splits option.splits)

lemma doPhase_hist:
  assumes "doPhase E v = Inr (v', effs)" "hist_inv C H v" "env_codec E = C"
    and "v_ProposalSequence v \<noteq> max_u64" "v_pc v = AtRun"
  shows "hist_inv C (H @ effs) v' \<and> persistFirst C H effs"
proof -
  note d = hist_invD [OF assms(2)]
  have b: "proposedIn (broadcastLast v) = {}" "committedIn (broadcastLast v) = {}"
    by (simp_all add: broadcastLast_def)
  have inv: "hist_inv C (H @ broadcastLast v) v"
    using d(2) by (intro hist_inv_quiet [OF assms(2) b]) simp_all
  have pb: "persistFirst C H (broadcastLast v)" if "v_Phase v \<in> {PROPOSED, PREPARED}"
    using d(9) that by (cases "v_lastBroadcastSent v") (auto simp: broadcastLast_def sentMessages_def)
  from assms(1) show ?thesis
  proof (cases rule: doPhase_result)
    case (prepares es)
    then show ?thesis
      using continuePrepares_hist [OF prepares(2) inv assms(3)] pb by (simp add: persistFirst_append)
  next
    case (commits es)
    then show ?thesis
      using continueCommits_hist [OF commits(2) inv _ assms(4)] pb by (simp add: persistFirst_append)
  next
    case begins
    have "sentMessages v' \<subseteq> sentMessages v" using begins(1,2) by (auto simp: sentMessages_def beginProposal_def)
    then have "hist_inv C H v'"
      using d(1,3-7) d(9) begins(1,2) by (intro hist_invI) (auto simp: pcPhase_def beginProposal_def)
    then show ?thesis using begins(3) by simp
  next
    case aborted
    then show ?thesis using assms(2) by simp
  qed
qed

lemma viewStep_hist:
  assumes "viewStep E v ch = Inr (v', effs)" "hist_inv C H v" "env_codec E = C"
    and "v_ProposalSequence v \<noteq> max_u64"
  shows "hist_inv C (H @ effs) v' \<and> persistFirst C H effs"
proof -
  note d = hist_invD [OF assms(2)]
  note quiet = hist_inv_quiet [OF assms(2)]
  from assms(1) show ?thesis
  proof (cases rule: viewStep_result)
    case idle
    then show ?thesis using assms(2) by simp
  next
    case (arrives s m)
    then show ?thesis using quiet [of "[]" v'] d(2) by simp
  next
    case (stops a)
    then show ?thesis using quiet [of "[]" v'] d(2) by simp
  next
    case aborts
    have "sentMessages v' \<subseteq> sentMessages v" using aborts(1) by (auto simp: sentMessages_def)
    then have "hist_inv C H v'"
      using d(1,3-6) d(9) aborts(1) by (intro hist_invI) (auto simp: pcPhase_def)
    then show ?thesis using aborts(2) by simp
  next
    case ends
    then show ?thesis using quiet [of effs v'] by (simp add: proposedIn_def committedIn_def)
  next
    case (msg s m q)
    have "hist_inv C H (v\<lparr>v_incMsgs := q\<rparr>)" using quiet [of "[]" "v\<lparr>v_incMsgs := q\<rparr>"] d(2) by simp
    then show ?thesis using processMsg_hist [OF msg(2)] by blast
  next
    case phase
    then show ?thesis using doPhase_hist [OF _ assms(2-4)] by blast
  next
    case (preprepare m)
    have "hist_inv C H (v\<lparr>v_prePrepare := None\<rparr>)" using quiet [of "[]" "v\<lparr>v_prePrepare := None\<rparr>"] d(2) by simp
    then show ?thesis using acceptPrePrepare_hist [OF preprepare(3) _ assms(3)] preprepare(1) by simp
  next
    case vote
    then show ?thesis by (rule stepVote_hist [OF _ assms(2,3)])
  next
    case (verify i sigs ver vv)
    then show ?thesis
      using commitVerified_result [OF verify(2)] quiet [of "[]" v'] assms(2) d(2) by (auto simp: pcPhase_def [of v])
  next
    case (verified sigs ver sig vv)
    then have "v_Phase v = PREPARED" using d(2) by (simp add: pcPhase_def)
    then show ?thesis using continueCommits_hist [OF verified(2) assms(2) _ assms(4)] by blast
  qed
qed

subsection \<open>Decisions with their sequence\<close>

text \<open>
  \<open>decide\<close> publishes the sequence right before it calls the decider. The decisions of a history
  are the proposals with the sequence last published.
\<close>

fun decisionsFrom :: "u64 \<Rightarrow> viewEffect list \<Rightarrow> (u64 \<times> Proposal \<times> Signature list) list" where
  "decisionsFrom s [] = []"
| "decisionsFrom s (StoreViewSequence vs # es) = decisionsFrom (ProposalSeq vs) es"
| "decisionsFrom s (Decide p sigs reqs # es) = (s, p, sigs) # decisionsFrom s es"
| "decisionsFrom s (e # es) = decisionsFrom s es"

fun lastStored :: "u64 \<Rightarrow> viewEffect list \<Rightarrow> u64" where
  "lastStored s [] = s"
| "lastStored s (StoreViewSequence vs # es) = lastStored (ProposalSeq vs) es"
| "lastStored s (e # es) = lastStored s es"

lemma decisionsFrom_append:
  "decisionsFrom s (a @ b) = decisionsFrom s a @ decisionsFrom (lastStored s a) b"
  by (induction s a rule: decisionsFrom.induct) auto

lemma quiet_decisions: "list_all quietEffect effs \<Longrightarrow> decisionsFrom s effs = []"
  by (induction s effs rule: decisionsFrom.induct) auto

lemma continueCommits_decisions:
  "continueCommits v sigs ver vv = Inr (v', effs) \<Longrightarrow> (s, p, sg) \<in> set (decisionsFrom s0 effs) \<Longrightarrow>
   s = v_ProposalSequence v \<and> (\<exists>reqs. Decide p sg reqs \<in> set effs)"
  by (erule continueCommits_result) auto

lemma continuePrepares_decisions:
  "continuePrepares E v ids = Inr (v', effs) \<Longrightarrow> decisionsFrom s0 effs = []"
  by (erule continuePrepares_result) auto

text \<open>A view decides only in the phase \<open>PREPARED\<close> and at its current sequence.\<close>

lemma viewStep_decisions:
  assumes "viewStep E v ch = Inr (v', effs)" "(s, p, sg) \<in> set (decisionsFrom s0 effs)" "pcPhase v"
  shows "s = v_ProposalSequence v \<and> (\<exists>reqs. Decide p sg reqs \<in> set effs) \<and> v_Phase v = PREPARED"
  using assms(1)
proof (cases rule: viewStep_result)
  case (msg n m q)
  then show ?thesis using processMsg_frame quiet_decisions assms(2) by fastforce
next
  case phase
  from phase(2) show ?thesis
  proof (cases rule: doPhase_result)
    case (prepares es)
    then show ?thesis using continuePrepares_decisions [OF prepares(2)] assms(2) by (simp add: broadcastLast_def)
  next
    case (commits es)
    then show ?thesis using continueCommits_decisions [OF commits(2)] assms(2) by (auto simp: broadcastLast_def)
  qed (use assms(2) in simp_all)
next
  case (preprepare m)
  from preprepare(3) show ?thesis using assms(2) by (cases rule: acceptPrePrepare_result) (auto split: if_splits)
next
  case vote
  then show ?thesis
  proof (cases rule: stepVote_result)
    case (prepare ids vt vs)
    then show ?thesis using prepareVote_continues [OF prepare(3)] continuePrepares_decisions assms(2) by fastforce
  qed (use assms(2) in simp_all)
next
  case (verify i sigs ver vv)
  then show ?thesis using commitVerified_result [OF verify(2)] assms(2) by simp
next
  case (verified sigs ver sig vv)
  then show ?thesis using continueCommits_decisions [OF verified(2) assms(2)] assms(3) by (simp add: pcPhase_def)
qed (use assms(2) in simp_all)

end
