(* ===== verification/Agreement.thy ===== *)
theory Agreement
  imports ViewHistory
begin

text \<open>
  Runs of a view and the safety of the protocol: the certificate of every decision, that
  everything sent was persisted before, and agreement between the correct nodes of a view.
\<close>

subsection \<open>The identity of a view\<close>

definition sameView :: "View \<Rightarrow> View \<Rightarrow> bool" where
  "sameView v v' \<longleftrightarrow> viewIdentity v' = viewIdentity v \<and>
     (v_ProposalSequence v' = v_ProposalSequence v \<or> v_ProposalSequence v' = v_ProposalSequence v + 1)"

lemma sameView_refl [simp]: "sameView v v"
  by (simp add: sameView_def)

lemma continuePrepares_same: "continuePrepares E v ids = Inr (v', effs) \<Longrightarrow> sameView v v'"
  by (erule continuePrepares_result) (simp_all add: sameView_def viewIdentity_def)

lemma continueCommits_same: "continueCommits v sigs ver vv = Inr (v', effs) \<Longrightarrow> sameView v v'"
  by (erule continueCommits_result) (simp_all add: sameView_def viewIdentity_def startNextSeq_def)

lemma acceptPrePrepare_same: "acceptPrePrepare E v m = Inr (v', effs) \<Longrightarrow> sameView v v'"
  by (erule acceptPrePrepare_result)
    (simp_all add: sameView_def viewIdentity_def view_stop_def split: option.splits)

lemma processMsg_same: "processMsg v s m = Inr (v', effs) \<Longrightarrow> sameView v v'"
  using processMsg_frame [of v s m v' effs] messageFrame_identity messageFrame_simps(3)
  by (auto simp: sameView_def)

lemma sameView_update [simp]:
  "sameView (v\<lparr>v_incMsgs := q\<rparr>) w = sameView v w"
  "sameView (v\<lparr>v_prePrepare := pp\<rparr>) w = sameView v w"
  "sameView (v\<lparr>v_prepares := vs\<rparr>) w = sameView v w"
  "sameView v (w\<lparr>v_incMsgs := q\<rparr>) = sameView v w"
  "sameView v (w\<lparr>v_abortChan := a\<rparr>) = sameView v w"
  "sameView v (w\<lparr>v_pc := pc\<rparr>) = sameView v w"
  "sameView v (w\<lparr>v_Phase := ph\<rparr>) = sameView v w"
  "sameView v (w\<lparr>v_commits := vs\<rparr>) = sameView v w"
  by (simp_all add: sameView_def viewIdentity_def)

lemma viewStep_same:
  assumes "viewStep E v ch = Inr (v', effs)"
  shows "sameView v v'"
  using assms
proof (cases rule: viewStep_result)
  case (msg s m q)
  then show ?thesis using processMsg_same [OF msg(2)] by simp
next
  case phase
  from phase(2) show ?thesis
    by (cases rule: doPhase_result)
      (auto simp: beginProposal_def sameView_def viewIdentity_def dest!: continuePrepares_same continueCommits_same)
next
  case (preprepare m)
  then show ?thesis using acceptPrePrepare_same [OF preprepare(3)] by simp
next
  case vote
  then show ?thesis
  proof (cases rule: stepVote_result)
    case (prepare ids vt vs)
    then show ?thesis using prepareVote_continues [OF prepare(3)] continuePrepares_same by fastforce
  qed simp_all
next
  case (verify i sigs ver vv)
  then show ?thesis using commitVerified_result [OF verify(2)] by auto
next
  case (verified sigs ver sig vv)
  then show ?thesis using continueCommits_same by blast
qed simp_all

subsection \<open>Runs\<close>

definition deliveries :: "('a viewEnv \<times> viewChoice) list \<Rightarrow> (u64 \<times> Message) set" where
  "deliveries steps = {(s, m). \<exists>E. (E, ChDeliver s m) \<in> set steps}"

text \<open>What is known of a decision: the state in which it was taken and its certificate.\<close>

definition decisionOf ::
  "codec \<Rightarrow> (Signature \<Rightarrow> Proposal \<Rightarrow> bool) \<Rightarrow> (Signature \<Rightarrow> Proposal \<Rightarrow> bool) \<Rightarrow> (u64 \<times> Message) set \<Rightarrow>
   viewEffect list \<Rightarrow> View \<Rightarrow> u64 \<times> Proposal \<times> Signature list \<Rightarrow> bool" where
  "decisionOf C OK MY D H v d = (case d of (s, p, sigs) \<Rightarrow>
     \<exists>w. viewIdentity w = viewIdentity v \<and> v_ProposalSequence w = s \<and> decisionCert C OK MY D w p sigs \<and>
       (\<exists>c\<in>committedIn H. cmt_Seq c = s \<and> cmt_Digest c = Digest C p))"

lemma decisionOf_mono:
  "decisionOf C OK MY D H v d \<Longrightarrow> viewIdentity v' = viewIdentity v \<Longrightarrow> decisionOf C OK MY D (H @ H') v' d"
  unfolding decisionOf_def by (cases d) fastforce

lemma viewRun_safe:
  assumes "viewRun v steps = Inr (v', effs)" "view_inv C OK MY D v" "hist_inv C H v"
    and "\<And>E. E \<in> fst ` set steps \<Longrightarrow> environment C OK MY E" "deliveries steps \<subseteq> D"
    and "unat (v_ProposalSequence v) + length steps < 2 ^ 64"
  shows "view_inv C OK MY D v' \<and> hist_inv C (H @ effs) v' \<and> persistFirst C H effs \<and>
    viewIdentity v' = viewIdentity v \<and>
    (\<forall>d\<in>set (decisionsFrom s0 effs). decisionOf C OK MY D (H @ effs) v d) \<and>
    (\<forall>e\<in>set effs. \<exists>w. viewIdentity w = viewIdentity v \<and> effect_ok C OK MY D w e)"
  using assms
proof (induction v steps arbitrary: effs H s0 rule: viewRun.induct)
  case (2 v E ch steps)
  obtain v1 effs1 effs2 where r: "viewStep E v ch = Inr (v1, effs1)"
    "viewRun v1 steps = Inr (v', effs2)" "effs = effs1 @ effs2"
    using 2(2) by (auto simp: andThen_eq_Inr_iff)
  have env: "environment C OK MY E" using 2(5) [of E] by simp
  have del: "\<And>s m. ch = ChDeliver s m \<Longrightarrow> (s, m) \<in> D" "deliveries steps \<subseteq> D"
    using 2(6) by (auto simp: deliveries_def)
  note v1 = viewStep_view_inv [OF r(1) 2(3) env del(1)]
  have nm: "v_ProposalSequence v \<noteq> max_u64" using 2(7) by (intro unat_not_max) simp
  have cod: "env_codec E = C" using env by (simp add: environment_def)
  note h1 = viewStep_hist [OF r(1) 2(4) cod nm]
  have sv: "sameView v v1" by (rule viewStep_same [OF r(1)])
  then have id: "viewIdentity v1 = viewIdentity v" by (simp add: sameView_def)
  have bound: "unat (v_ProposalSequence v1) + length steps < 2 ^ 64"
    using sv 2(7) unat_plus_one [OF nm] by (auto simp: sameView_def)
  have rest: "view_inv C OK MY D v' \<and> hist_inv C ((H @ effs1) @ effs2) v' \<and> persistFirst C (H @ effs1) effs2 \<and>
    viewIdentity v' = viewIdentity v1 \<and>
    (\<forall>d\<in>set (decisionsFrom (lastStored s0 effs1) effs2). decisionOf C OK MY D ((H @ effs1) @ effs2) v1 d) \<and>
    (\<forall>e\<in>set effs2. \<exists>w. viewIdentity w = viewIdentity v1 \<and> effect_ok C OK MY D w e)"
    using v1 h1 2(5) del(2) bound by (intro 2(1) [OF r(2)]) auto
  have new: "decisionOf C OK MY D (H @ effs) v d" if "d \<in> set (decisionsFrom s0 effs1)" for d
  proof (cases d)
    case (fields s p sigs)
    have dd: "s = v_ProposalSequence v \<and> (\<exists>reqs. Decide p sigs reqs \<in> set effs1) \<and> v_Phase v = PREPARED"
      using viewStep_decisions [OF r(1)] that fields hist_invD(2) [OF 2(4)] by blast
    then obtain reqs where "Decide p sigs reqs \<in> set effs1" by blast
    then have "effect_ok C OK MY D v (Decide p sigs reqs)" using v1 by (auto simp: list_all_iff)
    then have cert: "decisionCert C OK MY D v p sigs" "v_inFlightProposal v = Some p"
      by (simp_all add: effect_ok_def)
    obtain c where "c \<in> committedIn H" "cmt_Seq c = v_ProposalSequence v" "cmt_Digest c = Digest C p"
      using hist_invD(8) [OF 2(4)] dd cert(2) by auto
    then have "decisionOf C OK MY D H v d" using fields dd cert(1) unfolding decisionOf_def by auto
    then show ?thesis by (rule decisionOf_mono) simp
  qed
  have "decisionOf C OK MY D (H @ effs) v d" if "d \<in> set (decisionsFrom s0 effs)" for d
  proof (cases "d \<in> set (decisionsFrom s0 effs1)")
    case True
    then show ?thesis by (rule new)
  next
    case False
    then show ?thesis
      using that rest id r(3) decisionOf_mono [of C OK MY D "(H @ effs1) @ effs2" v1 d v "[]"]
      by (simp add: decisionsFrom_append)
  qed
  moreover have "\<exists>w. viewIdentity w = viewIdentity v \<and> effect_ok C OK MY D w e" if "e \<in> set effs" for e
    using that rest id v1 r(3) by (auto simp: list_all_iff)
  ultimately show ?case using rest id h1 r(3) by (simp add: persistFirst_append)
qed simp

text \<open>A view as \<open>NewProposer\<close> makes it when there is nothing to restore.\<close>

definition freshView :: "View \<Rightarrow> bool" where
  "freshView v \<longleftrightarrow> v_Phase v = COMMITTED \<and> v_currPrepareSent v = None \<and> v_currCommitSent v = None \<and>
     v_prevPrepareSent v = None \<and> v_prevCommitSent v = None"

definition verifiedIn :: "('a viewEnv \<times> viewChoice) list \<Rightarrow> Signature \<Rightarrow> Proposal \<Rightarrow> bool" where
  "verifiedIn steps sig p \<longleftrightarrow> (\<exists>(E, ch)\<in>set steps. \<exists>aux.
     api_VerifyConsenterSig (env_services E) (env_app E) sig p = Some aux)"

definition signedIn :: "('a viewEnv \<times> viewChoice) list \<Rightarrow> Signature \<Rightarrow> Proposal \<Rightarrow> bool" where
  "signedIn steps sig p \<longleftrightarrow> (\<exists>(E, ch)\<in>set steps. \<exists>raw.
     sig = api_SignProposal (env_services E) (env_app E) p raw)"

lemma freshView_invs:
  assumes "freshView v"
  shows "view_inv C OK MY D (View_Start True v)" "hist_inv C [] (View_Start True v)"
proof -
  show "view_inv C OK MY D (View_Start True v)"
    using assms by (simp add: View_Start_def setupVotes_def freshView_def view_inv_def votingSets_inv_def
        loop_inv_def phase_inv_def Let_def)
  show "hist_inv C [] (View_Start True v)"
    using assms by (intro hist_invI) (simp_all add: View_Start_def setupVotes_def freshView_def
        pcPhase_def sentMessages_def Let_def onePerSeq_def)
qed

lemma View_Start_fields [simp]:
  "v_SelfID (View_Start b v) = v_SelfID v" "v_Number (View_Start b v) = v_Number v"
  "v_Quorum (View_Start b v) = v_Quorum v" "v_ProposalSequence (View_Start b v) = v_ProposalSequence v"
  "viewIdentity (View_Start b v) = viewIdentity v"
  by (simp_all add: View_Start_def setupVotes_def viewIdentity_def Let_def)

text \<open>A run of a node from a fresh view.\<close>

definition freshRun :: "codec \<Rightarrow> View \<Rightarrow> ('a viewEnv \<times> viewChoice) list \<Rightarrow> View \<Rightarrow> viewEffect list \<Rightarrow> bool" where
  "freshRun C v steps v' effs \<longleftrightarrow> freshView v \<and> viewRun (View_Start True v) steps = Inr (v', effs) \<and>
     (\<forall>(E, ch)\<in>set steps. env_codec E = C) \<and> unat (v_ProposalSequence v) + length steps < 2 ^ 64"

lemma freshRun_safe:
  assumes "freshRun C v steps v' effs"
  shows "hist_inv C effs v'" "persistFirst C [] effs" "viewIdentity v' = viewIdentity v"
    "\<And>s0 d. d \<in> set (decisionsFrom s0 effs) \<Longrightarrow>
      decisionOf C (verifiedIn steps) (signedIn steps) (deliveries steps) effs v d"
    "\<And>e. e \<in> set effs \<Longrightarrow> \<exists>w. viewIdentity w = viewIdentity v \<and>
      effect_ok C (verifiedIn steps) (signedIn steps) (deliveries steps) w e"
proof -
  have fv: "freshView v" and run: "viewRun (View_Start True v) steps = Inr (v', effs)"
    and cod: "\<And>E ch. (E, ch) \<in> set steps \<Longrightarrow> env_codec E = C"
    and b: "unat (v_ProposalSequence (View_Start True v)) + length steps < 2 ^ 64"
    using assms by (auto simp: freshRun_def)
  have env: "environment C (verifiedIn steps) (signedIn steps) E" if "E \<in> fst ` set steps" for E
    using that cod by (force simp: environment_def verifiedIn_def signedIn_def)
  note all = viewRun_safe [OF run freshView_invs [OF fv] env order_refl b, simplified]
  show "hist_inv C effs v'" "persistFirst C [] effs" "viewIdentity v' = viewIdentity v" using all by blast+
  show "decisionOf C (verifiedIn steps) (signedIn steps) (deliveries steps) effs v d"
    if "d \<in> set (decisionsFrom s0 effs)" for s0 d
    using all that decisionOf_mono [of C "verifiedIn steps" "signedIn steps" "deliveries steps" effs "View_Start True v" d v "[]"]
    by simp
  show "\<exists>w. viewIdentity w = viewIdentity v \<and>
      effect_ok C (verifiedIn steps) (signedIn steps) (deliveries steps) w e" if "e \<in> set effs" for e
    using all that by blast
qed

lemma persistFirst_sent:
  "persistFirst C H effs \<Longrightarrow> Broadcast m \<in> set effs \<or> SendConsensus n m \<in> set effs \<Longrightarrow> persistedMsg (H @ effs) m"
proof (induction effs arbitrary: H)
  case (Cons e es)
  show ?case
  proof (cases "Broadcast m = e \<or> SendConsensus n m = e")
    case True
    then have "persistedMsg H m" using Cons.prems(1) by auto
    then show ?thesis by (rule persistedMsg_mono)
  next
    case False
    then show ?thesis using Cons.IH [of "H @ [e]"] Cons.prems by auto
  qed
qed simp

subsection \<open>An example\<close>

text \<open>
  A run of a cluster of four nodes: the correct nodes 1, 2 and 3 order one proposal of the leader 1
  while node 4 is silent. The codec and the services are concrete functions.
\<close>

definition exampleCodec :: codec where
  "exampleCodec = \<lparr>marshalMetadata = (\<lambda>md. [ucast (ViewId md), ucast (LatestSequence md), ucast (DecisionsInView md)]),
     unmarshalMetadata = (\<lambda>b. case b of [x, y, z] \<Rightarrow>
         Some (emptyViewMetadata\<lparr>ViewId := ucast x, LatestSequence := ucast y, DecisionsInView := ucast z\<rparr>)
       | _ \<Rightarrow> Some emptyViewMetadata),
     marshalPreparesFrom = (\<lambda>ids. map ucast ids), unmarshalPreparesFrom = (\<lambda>b. Some (map ucast b)),
     marshalViewData = (\<lambda>_. []), unmarshalViewData = (\<lambda>_. None),
     marshalSaved = (\<lambda>_. []), unmarshalSaved = (\<lambda>_. None),
     asn1Proposal = (\<lambda>p. Payload p @ Header p @ bytes_of (Metadata p)), asn1Signatures = (\<lambda>_. [1]), sha256 = (\<lambda>b. b)\<rparr>"

definition exampleServices :: "u64 \<Rightarrow> unit services" where
  "exampleServices self = \<lparr>api_VerifyProposal = (\<lambda>_ _. Some []), api_VerifyConsenterSig = (\<lambda>_ sig p. Some (Msg sig)),
     api_VerifySignature = (\<lambda>_ _. True), api_VerificationSequence = (\<lambda>_. 0),
     api_RequestsFromProposal = (\<lambda>_ _. []), api_AuxiliaryData = (\<lambda>_ m. m), api_MembershipNotifier = None,
     api_SignProposal = (\<lambda>_ p raw. \<lparr>Signer = self, Value = [], Msg = []\<rparr>), api_Sign = (\<lambda>_ _. [])\<rparr>"

definition exampleEnv :: "u64 \<Rightarrow> unit viewEnv" where
  "exampleEnv self = \<lparr>env_codec = exampleCodec, env_services = exampleServices self, env_app = (),
     env_checkpoint = \<lparr>ckp_proposal = \<lparr>Payload = [], Header = [], Metadata = None, VerificationSequence = 0\<rparr>,
       ckp_signatures = []\<rparr>, env_saveOK = (\<lambda>_. True)\<rparr>"

definition exampleView :: "u64 \<Rightarrow> View" where
  "exampleView self = \<lparr>v_DecisionsPerLeader = 0, v_SelfID = self, v_N = 4, v_NodesList = [1, 2, 3, 4], v_LeaderID = 1,
     v_Quorum = 3, v_Number = 0, v_ProposalSequence = 1, v_DecisionsInView = 0, v_Phase = COMMITTED,
     v_InMsgQSize = 10, v_lastVotedProposalByID = [], v_incMsgs = [], v_myProposalSig = None,
     v_inFlightProposal = None, v_inFlightRequests = [], v_lastBroadcastSent = None,
     v_currPrepareSent = None, v_currCommitSent = None, v_prevPrepareSent = None, v_prevCommitSent = None,
     v_prePrepare = None, v_prepares = voteSet_clear 0, v_commits = voteSet_clear 0, v_nextPrePrepare = None,
     v_nextPrepares = voteSet_clear 0, v_nextCommits = voteSet_clear 0, v_blacklistSupported = False,
     v_abortChan = None, v_pc = NotStarted\<rparr>"

definition exampleProposal :: Proposal where
  "exampleProposal = \<lparr>Payload = [7], Header = [], Metadata = Some [0, 1, 0], VerificationSequence = 0\<rparr>"

definition examplePP :: Message where
  "examplePP = PrePrepareMsg \<lparr>pp_View = 0, pp_Seq = 1, pp_Proposal = Some exampleProposal, pp_PrevCommitSignatures = []\<rparr>"

definition examplePrepare :: Message where
  "examplePrepare = PrepareMsg \<lparr>prp_View = 0, prp_Seq = 1, prp_Digest = Digest exampleCodec exampleProposal, prp_Assist = False\<rparr>"

definition exampleCommit :: "u64 \<Rightarrow> Message" where
  "exampleCommit n = CommitMsg \<lparr>cmt_View = 0, cmt_Seq = 1, cmt_Digest = Digest exampleCodec exampleProposal,
     cmt_Signature = Some \<lparr>Signer = n, Value = [], Msg = []\<rparr>, cmt_Assist = False\<rparr>"

definition exampleChoices :: "u64 \<Rightarrow> u64 \<Rightarrow> viewChoice list" where
  "exampleChoices a b = [ChDefault, ChDeliver 1 examplePP, ChMsg, ChPrePrepare, ChDefault,
     ChDeliver a examplePrepare, ChMsg, ChVote, ChDeliver b examplePrepare, ChMsg, ChVote, ChDefault,
     ChDeliver a (exampleCommit a), ChMsg, ChVote, ChVerify 0, ChVerified,
     ChDeliver b (exampleCommit b), ChMsg, ChVote, ChVerify 0, ChVerified]"

definition exampleSteps :: "u64 \<Rightarrow> (unit viewEnv \<times> viewChoice) list" where
  "exampleSteps n = map (\<lambda>ch. (exampleEnv n, ch))
     (if n = 1 then exampleChoices 2 3 else if n = 2 then exampleChoices 1 3 else exampleChoices 1 2)"

definition exampleEffects :: "u64 \<Rightarrow> viewEffect list" where
  "exampleEffects n =
     (case viewRun (View_Start True (exampleView n)) (exampleSteps n) of Inr (v, effs) \<Rightarrow> effs | _ \<Rightarrow> [])"

definition exampleFinal :: "u64 \<Rightarrow> View" where
  "exampleFinal n =
     (case viewRun (View_Start True (exampleView n)) (exampleSteps n) of Inr (v, effs) \<Rightarrow> v | _ \<Rightarrow> exampleView n)"

lemma viewRun_result:
  assumes "(case viewRun v steps of Inr _ \<Rightarrow> True | Inl _ \<Rightarrow> False)"
  shows "viewRun v steps = Inr (case viewRun v steps of Inr (v, effs) \<Rightarrow> v | _ \<Rightarrow> w,
     case viewRun v steps of Inr (v, effs) \<Rightarrow> effs | _ \<Rightarrow> [])"
  using assms by (auto split: sum.splits)

lemma exampleRun:
  assumes "n \<in> {1, 2, 3}"
  shows "freshRun exampleCodec (exampleView n) (exampleSteps n) (exampleFinal n) (exampleEffects n)"
proof -
  have "\<forall>n\<in>{1, 2, 3}. case viewRun (View_Start True (exampleView n)) (exampleSteps n) of Inr _ \<Rightarrow> True | Inl _ \<Rightarrow> False"
    by code_simp
  then have "viewRun (View_Start True (exampleView n)) (exampleSteps n) = Inr (exampleFinal n, exampleEffects n)"
    unfolding exampleFinal_def exampleEffects_def using assms by (intro viewRun_result) blast
  moreover have "length (exampleSteps n) = 22" by (simp add: exampleSteps_def exampleChoices_def)
  moreover have "\<forall>(E, ch)\<in>set (exampleSteps n). env_codec E = exampleCodec"
    by (auto simp: exampleSteps_def exampleEnv_def)
  ultimately show ?thesis
    by (simp add: freshRun_def freshView_def exampleView_def)
qed

lemma exampleDecision:
  "\<forall>n\<in>{1, 2, 3}. map (\<lambda>(s, p, sigs). (s, p)) (decisionsFrom 0 (exampleEffects n)) = [(1, exampleProposal)]"
  by code_simp

subsection \<open>Properties\<close>

text \<open>
  C4: whatever messages arrive and whatever the scheduler chooses, a view hands a proposal to
  the application only with a quorum of signatures: all but the last are of distinct nodes
  other than this one, each was accepted by the verifier for this very proposal and came in a
  commit of its signer for this view, sequence and digest; the last one is the node's own.
\<close>

theorem decision_has_quorum_certificate:
  assumes "freshRun C v steps v' effs" "(s, p, sigs) \<in> set (decisionsFrom s0 effs)"
  shows "\<exists>others own. sigs = others @ [own] \<and> v_Quorum v \<le> int (length sigs) \<and>
    distinct (map Signer others) \<and> v_SelfID v \<notin> Signer ` set others \<and> signedIn steps own p \<and>
    (\<forall>sig\<in>set others. verifiedIn steps sig p \<and>
       (\<exists>cmt. (Signer sig, CommitMsg cmt) \<in> deliveries steps \<and> cmt_View cmt = v_Number v \<and> cmt_Seq cmt = s \<and>
          cmt_Digest cmt = Digest C p \<and> cmt_Signature cmt = Some sig))"
proof -
  obtain w where w: "viewIdentity w = viewIdentity v" "v_ProposalSequence w = s"
    "decisionCert C (verifiedIn steps) (signedIn steps) (deliveries steps) w p sigs"
    using freshRun_safe(4) [OF assms] by (auto simp: decisionOf_def)
  then show ?thesis
    by (fastforce simp: decisionCert_def committedBy_def viewIdentity_def)
qed

theorem decision_has_quorum_certificate_witness:
  "\<exists>s p sigs. (s, p, sigs) \<in> set (decisionsFrom 0 (exampleEffects 2)) \<and>
     (\<exists>others own. sigs = others @ [own] \<and> 3 \<le> int (length sigs) \<and> distinct (map Signer others))"
proof -
  have "decisionsFrom 0 (exampleEffects 2) \<noteq> []" using exampleDecision by force
  then obtain s p sigs where d: "(s, p, sigs) \<in> set (decisionsFrom 0 (exampleEffects 2))"
    by (metis list.set_intros(1) neq_Nil_conv prod_cases3)
  then show ?thesis
    using decision_has_quorum_certificate [OF exampleRun, of 2 s p sigs 0] by (fastforce simp: exampleView_def)
qed

text \<open>
  C10: a view persists before it speaks. Every pre-prepare, prepare and commit it sends or sends again is
  in the log before it is sent, a decision comes after the commit for that digest was logged, and the log never
  holds two prepares with different digests for one sequence, nor a commit without the prepare.
\<close>

theorem persists_before_sending:
  assumes "freshRun C v steps v' effs"
  shows "persistFirst C [] effs \<and> onePerSeq effs \<and>
    (\<forall>c\<in>committedIn effs. \<exists>prp\<in>proposedIn effs. prp_Seq prp = cmt_Seq c \<and> prp_Digest prp = cmt_Digest c \<and>
       prp_View prp = v_Number v)"
proof -
  note h = freshRun_safe [OF assms]
  have "v_Number v' = v_Number v" using h(3) by (simp add: viewIdentity_def)
  then show ?thesis using h(2) hist_invD(1,3,6) [OF h(1)] by metis
qed

theorem persists_before_sending_witness:
  "persistFirst exampleCodec [] (exampleEffects 2) \<and> onePerSeq (exampleEffects 2)"
  using persists_before_sending [OF exampleRun, of 2] by simp

text \<open>
  C11: a commit is only made on a prepared proposal: when a view logs a commit, prepares for
  the same view, sequence and digest have arrived from at least \<open>Quorum - 1\<close> distinct nodes other than itself.
\<close>

theorem commit_has_prepare_quorum:
  assumes "freshRun C v steps v' effs" "c \<in> committedIn effs"
  shows "\<exists>ids. distinct ids \<and> v_SelfID v \<notin> set ids \<and> v_Quorum v - 1 \<le> int (length ids) \<and>
    (\<forall>i\<in>set ids. \<exists>prp. (i, PrepareMsg prp) \<in> deliveries steps \<and> prp_View prp = v_Number v \<and>
       prp_Seq prp = cmt_Seq c \<and> prp_Digest prp = cmt_Digest c)"
proof -
  obtain w where w: "viewIdentity w = viewIdentity v"
    "effect_ok C (verifiedIn steps) (signedIn steps) (deliveries steps) w (SaveState (SavedCommit (CommitMsg c)))"
    using freshRun_safe(5) [OF assms(1)] assms(2) unfolding committedIn_def by blast
  then obtain p where "cmt_Seq c = v_ProposalSequence w" "cmt_Digest c = Digest C p"
    "commitCert C (deliveries steps) w p"
    by (auto simp: effect_ok_def)
  then show ?thesis using w(1) by (fastforce simp: commitCert_def preparedBy_def viewIdentity_def)
qed

theorem commit_has_prepare_quorum_witness:
  "\<exists>c (ids :: u64 list). c \<in> committedIn (exampleEffects 3) \<and> distinct ids \<and> 2 \<le> int (length ids)"
proof -
  obtain c where c: "exampleCommit 3 = CommitMsg c" by (simp add: exampleCommit_def)
  have "SaveState (SavedCommit (exampleCommit 3)) \<in> set (exampleEffects 3)" by code_simp
  then have m: "c \<in> committedIn (exampleEffects 3)" using c by (simp add: committedIn_def)
  have n: "3 \<in> {1, 2, 3 :: u64}" by simp
  obtain ids :: "u64 list" where "distinct ids" "v_Quorum (exampleView 3) - 1 \<le> int (length ids)"
    using commit_has_prepare_quorum [OF exampleRun [OF n] m] by blast
  then show ?thesis using m by (auto simp: exampleView_def)
qed

subsection \<open>Agreement\<close>

text \<open>The nodes that back a digest at a sequence: they logged a commit for it.\<close>

definition backsDigest :: "viewEffect list \<Rightarrow> u64 \<Rightarrow> string \<Rightarrow> bool" where
  "backsDigest effs s d \<longleftrightarrow> (\<exists>c\<in>committedIn effs. cmt_Seq c = s \<and> cmt_Digest c = d)"

lemma backs_once:
  assumes "hist_inv C effs v" "backsDigest effs s d" "backsDigest effs s d'"
  shows "d = d'"
proof -
  obtain c c' where c: "c \<in> committedIn effs" "cmt_Seq c = s" "cmt_Digest c = d"
    "c' \<in> committedIn effs" "cmt_Seq c' = s" "cmt_Digest c' = d'"
    using assms(2,3) unfolding backsDigest_def by blast
  obtain a b where "a \<in> proposedIn effs" "b \<in> proposedIn effs" "prp_Seq a = s" "prp_Seq b = s"
    "prp_Digest a = d" "prp_Digest b = d'"
    using hist_invD(6) [OF assms(1) c(1)] hist_invD(6) [OF assms(1) c(4)] c by auto
  then show ?thesis using hist_invD(1) [OF assms(1)] unfolding onePerSeq_def by metis
qed

text \<open>The channels are authenticated: a correct node sent the commits that arrive in its name.\<close>

definition authenticCommits ::
  "u64 set \<Rightarrow> (u64 \<Rightarrow> viewEffect list) \<Rightarrow> (u64 \<Rightarrow> ('a viewEnv \<times> viewChoice) list) \<Rightarrow> bool" where
  "authenticCommits correct eff steps \<longleftrightarrow> (\<forall>x\<in>correct. \<forall>y\<in>correct. \<forall>c. (x, CommitMsg c) \<in> deliveries (steps y) \<longrightarrow>
     (\<exists>n. Broadcast (CommitMsg c) \<in> set (eff x) \<or> SendConsensus n (CommitMsg c) \<in> set (eff x)))"

lemma decision_quorum:
  assumes "validNodes nodes" "freshRun C v steps v' effs" "(s, p, sigs) \<in> set (decisionsFrom s0 effs)"
    and "v_Quorum v = int (quorumSize nodes)" "fst ` deliveries steps \<subseteq> set nodes" "v_SelfID v \<in> set nodes"
  obtains A where "isQuorum nodes A" "v_SelfID v \<in> A"
    "\<And>x. x \<in> A \<Longrightarrow> x \<noteq> v_SelfID v \<Longrightarrow> \<exists>c. (x, CommitMsg c) \<in> deliveries steps \<and> cmt_Seq c = s \<and> cmt_Digest c = Digest C p"
    "backsDigest effs s (Digest C p)"
proof -
  obtain w where w: "viewIdentity w = viewIdentity v" "v_ProposalSequence w = s"
    "decisionCert C (verifiedIn steps) (signedIn steps) (deliveries steps) w p sigs"
    "backsDigest effs s (Digest C p)"
    using freshRun_safe(4) [OF assms(2,3)] by (auto simp: decisionOf_def backsDigest_def)
  obtain others own where o: "sigs = others @ [own]" "v_Quorum v - 1 \<le> int (length others)"
    "distinct (map Signer others)" "v_SelfID v \<notin> Signer ` set others"
    "\<And>sig. sig \<in> set others \<Longrightarrow> committedBy C (deliveries steps) (v_Number v) s p sig"
    using w(1-3) by (auto simp: decisionCert_def viewIdentity_def)
  let ?A = "insert (v_SelfID v) (Signer ` set others)"
  have "card ?A = Suc (length others)"
    using o(3,4) by (metis List.finite_set card_insert_disjoint distinct_card finite_imageI length_map list.set_map)
  then have "quorumSize nodes \<le> card ?A" using o(2) assms(4) by simp
  moreover have sub: "?A \<subseteq> set nodes"
    using o(5) assms(5,6) by (force simp: committedBy_def)
  ultimately have "isQuorum nodes ?A" by (simp add: isQuorum_def)
  moreover have "\<exists>c. (x, CommitMsg c) \<in> deliveries steps \<and> cmt_Seq c = s \<and> cmt_Digest c = Digest C p"
    if "x \<in> ?A" "x \<noteq> v_SelfID v" for x
    using that o(5) by (force simp: committedBy_def)
  ultimately show ?thesis using that [of ?A] w(4) by blast
qed

lemma authentic_backs:
  assumes "freshRun C v steps v' effs"
    and "Broadcast (CommitMsg c) \<in> set effs \<or> SendConsensus n (CommitMsg c) \<in> set effs"
  shows "backsDigest effs (cmt_Seq c) (cmt_Digest c)"
  using persistFirst_sent [OF freshRun_safe(2) [OF assms(1)] assms(2)] by (auto simp: backsDigest_def)

text \<open>What the correct nodes of a view do, and the commits behind a decision of one of them.\<close>

definition correctRuns ::
  "codec \<Rightarrow> u64 list \<Rightarrow> u64 set \<Rightarrow> (u64 \<Rightarrow> View) \<Rightarrow> (u64 \<Rightarrow> ('a viewEnv \<times> viewChoice) list) \<Rightarrow> (u64 \<Rightarrow> View) \<Rightarrow>
   (u64 \<Rightarrow> viewEffect list) \<Rightarrow> bool" where
  "correctRuns C nodes F V steps V' eff \<longleftrightarrow> (\<forall>x\<in>set nodes - F. freshRun C (V x) (steps x) (V' x) (eff x) \<and> v_SelfID (V x) = x \<and>
      v_Quorum (V x) = int (quorumSize nodes) \<and> fst ` deliveries (steps x) \<subseteq> set nodes)"

lemma decision_backed:
  assumes "validNodes nodes" "correctRuns C nodes F V steps V' eff" "authenticCommits (set nodes - F) eff steps"
    and n: "n \<in> set nodes - F" and d: "(s, r, sg) \<in> set (decisionsFrom s2 (eff n))"
  obtains A where "isQuorum nodes A" "\<And>x. x \<in> A - F \<Longrightarrow> backsDigest (eff x) s (Digest C r)"
proof -
  have run: "freshRun C (V n) (steps n) (V' n) (eff n)" and self: "v_SelfID (V n) = n"
    and q: "v_Quorum (V n) = int (quorumSize nodes)" and del: "fst ` deliveries (steps n) \<subseteq> set nodes"
    using assms(2) n by (auto simp: correctRuns_def)
  have mem: "v_SelfID (V n) \<in> set nodes" using n self by simp
  obtain A where A: "isQuorum nodes A" "v_SelfID (V n) \<in> A"
    "\<And>x. x \<in> A \<Longrightarrow> x \<noteq> v_SelfID (V n) \<Longrightarrow>
       \<exists>c. (x, CommitMsg c) \<in> deliveries (steps n) \<and> cmt_Seq c = s \<and> cmt_Digest c = Digest C r"
    "backsDigest (eff n) s (Digest C r)"
    by (rule decision_quorum [OF assms(1) run d q del mem]) (rule that)
  have "backsDigest (eff x) s (Digest C r)" if x: "x \<in> A - F" for x
  proof (cases "x = n")
    case False
    then obtain c where c: "(x, CommitMsg c) \<in> deliveries (steps n)" "cmt_Seq c = s" "cmt_Digest c = Digest C r"
      using A(3) x self by blast
    have xn: "x \<in> set nodes - F" using A(1) x by (auto simp: isQuorum_def)
    then obtain m where "Broadcast (CommitMsg c) \<in> set (eff x) \<or> SendConsensus m (CommitMsg c) \<in> set (eff x)"
      using assms(3) n c(1) unfolding authenticCommits_def by blast
    moreover have "freshRun C (V x) (steps x) (V' x) (eff x)" using assms(2) xn by (simp add: correctRuns_def)
    ultimately have "backsDigest (eff x) (cmt_Seq c) (cmt_Digest c)" by (rule authentic_backs [rotated])
    then show ?thesis using c(2,3) by simp
  qed (use A(4) in simp)
  then show ?thesis using A(1) that by blast
qed

text \<open>
  C1: agreement. In a view whose correct nodes all run the protocol with the quorum of the cluster
  and at most \<open>f\<close> faulty members, two correct nodes never decide proposals with
  different digests at the same sequence, whatever the faulty members and the network do. The channels must be
  authenticated.
\<close>

theorem agreement_in_view:
  assumes "validNodes nodes" "F \<subseteq> set nodes" "card F \<le> maxFaulty nodes"
    and "correctRuns C nodes F V steps V' eff" "authenticCommits (set nodes - F) eff steps"
    and "a \<in> set nodes - F" "(s, p, sigs) \<in> set (decisionsFrom s0 (eff a))"
    and "b \<in> set nodes - F" "(s, q, sigs') \<in> set (decisionsFrom s1 (eff b))"
  shows "Digest C p = Digest C q"
proof -
  obtain A where A: "isQuorum nodes A" "\<And>x. x \<in> A - F \<Longrightarrow> backsDigest (eff x) s (Digest C p)"
    using decision_backed [OF assms(1,4,5,6,7)] by blast
  obtain B where B: "isQuorum nodes B" "\<And>x. x \<in> B - F \<Longrightarrow> backsDigest (eff x) s (Digest C q)"
    using decision_backed [OF assms(1,4,5,8,9)] by blast
  obtain x where x: "x \<in> A" "x \<in> B" "x \<notin> F"
    using cluster.quorums_share_correct [OF assms(1) A(1) B(1) assms(2,3)] by blast
  then have "x \<in> set nodes - F" using A(1) by (auto simp: isQuorum_def)
  then have "freshRun C (V x) (steps x) (V' x) (eff x)" using assms(4) by (simp add: correctRuns_def)
  moreover have "backsDigest (eff x) s (Digest C p)" "backsDigest (eff x) s (Digest C q)"
    using A(2) B(2) x by simp_all
  ultimately show ?thesis by (rule backs_once [OF freshRun_safe(1)])
qed

theorem agreement_in_view_witness:
  "\<exists>p q sigs sigs'. (1, p, sigs) \<in> set (decisionsFrom 0 (exampleEffects 2)) \<and>
     (1, q, sigs') \<in> set (decisionsFrom 0 (exampleEffects 3)) \<and> Digest exampleCodec p = Digest exampleCodec q"
proof -
  have nodes: "set [1, 2, 3, 4 :: u64] - {4} = {1, 2, 3}" by auto
  have v: "validNodes [1, 2, 3, 4]" by (simp add: validNodes_def)
  have f: "card {4 :: u64} \<le> maxFaulty [1, 2, 3, 4]" "int (quorumSize [1, 2, 3, 4]) = 3"
    using maxFaulty_eq [OF v] quorumSize_eq [OF v] by simp_all
  have run: "correctRuns exampleCodec [1, 2, 3, 4] {4} exampleView exampleSteps exampleFinal exampleEffects"
    unfolding correctRuns_def nodes
  proof
    fix x :: u64 assume "x \<in> {1, 2, 3}"
    moreover have "fst ` deliveries (exampleSteps x) \<subseteq> set [1, 2, 3, 4]"
      by (auto simp: deliveries_def exampleSteps_def exampleChoices_def split: if_splits)
    ultimately show "freshRun exampleCodec (exampleView x) (exampleSteps x) (exampleFinal x) (exampleEffects x) \<and>
        v_SelfID (exampleView x) = x \<and> v_Quorum (exampleView x) = int (quorumSize [1, 2, 3, 4]) \<and>
        fst ` deliveries (exampleSteps x) \<subseteq> set [1, 2, 3, 4]"
      using exampleRun f(2) by (simp add: exampleView_def)
  qed
  have sent: "\<forall>x\<in>{1, 2, 3}. Broadcast (exampleCommit x) \<in> set (exampleEffects x)" by code_simp
  have "authenticCommits (set [1, 2, 3, 4] - {4}) exampleEffects exampleSteps"
    unfolding authenticCommits_def nodes
  proof (intro ballI allI impI)
    fix x y c assume "x \<in> {1, 2, 3 :: u64}" "(x, CommitMsg c) \<in> deliveries (exampleSteps y)"
    then have "CommitMsg c = exampleCommit x" "x \<in> {1, 2, 3}"
      by (auto simp: deliveries_def exampleSteps_def exampleChoices_def examplePP_def examplePrepare_def
          split: if_splits)
    then show "\<exists>n. Broadcast (CommitMsg c) \<in> set (exampleEffects x) \<or>
        SendConsensus n (CommitMsg c) \<in> set (exampleEffects x)" using sent by metis
  qed
  note agree = agreement_in_view [OF v _ f(1) run this, of 2 1 _ _ 0 3 _ _ 0]
  have dec: "\<exists>p sigs. (1, p, sigs) \<in> set (decisionsFrom 0 (exampleEffects n))" if "n \<in> {1, 2, 3}" for n
  proof -
    have "map (\<lambda>(s, p, sigs). (s, p)) (decisionsFrom 0 (exampleEffects n)) = [(1, exampleProposal)]"
      using exampleDecision that by blast
    then have "(1, exampleProposal) \<in> set (map (\<lambda>(s, p, sigs). (s, p)) (decisionsFrom 0 (exampleEffects n)))"
      by (simp only: list.set insertI1)
    then show ?thesis by auto
  qed
  obtain p sigs where p: "(1, p, sigs) \<in> set (decisionsFrom 0 (exampleEffects 2))" using dec [of 2] by auto
  obtain q sigs' where q: "(1, q, sigs') \<in> set (decisionsFrom 0 (exampleEffects 3))" using dec [of 3] by auto
  have "Digest exampleCodec p = Digest exampleCodec q" by (rule agree) (use p q in auto)
  then show ?thesis using p q by blast
qed

end
