(* ===== verification/Persistence.thy ===== *)
theory Persistence
  imports Agreement LogSpec
begin

text \<open>
  The persistence layer: \<open>InFlightData\<close> and \<open>ProposalMaker\<close> of internal/bft/util.go and
  \<open>PersistedState\<close> of internal/bft/state.go. The log is reached through its function \<open>Append\<close>,
  an argument of \<open>PersistedState_Save\<close>; its contract is \<open>write_ahead_log\<close>.

  Errors are strings; an error of \<open>Restore\<close> makes \<open>NewProposer\<close> panic.
\<close>

subsection \<open>The in-flight proposal\<close>

record inFlightProposalData =
  ifp_proposal :: "Proposal option"
  ifp_prepared :: bool

type_synonym InFlightData = "inFlightProposalData option"

definition InFlightProposal :: "InFlightData \<Rightarrow> Proposal option" where
  "InFlightProposal ifp = (case ifp of None \<Rightarrow> None | Some d \<Rightarrow> ifp_proposal d)"

definition IsInFlightPrepared :: "InFlightData \<Rightarrow> bool" where
  "IsInFlightPrepared ifp = (case ifp of None \<Rightarrow> False | Some d \<Rightarrow> ifp_prepared d)"

definition StoreProposal :: "InFlightData \<Rightarrow> Proposal \<Rightarrow> InFlightData" where
  "StoreProposal ifp prop = Some \<lparr>ifp_proposal = Some prop, ifp_prepared = False\<rparr>"

definition StorePrepares :: "InFlightData \<Rightarrow> u64 \<Rightarrow> u64 \<Rightarrow> InFlightData outcome" where
  "StorePrepares ifp view seq =
     (case InFlightProposal ifp of
        None \<Rightarrow> Inl (Panic ''stored prepares but proposal is not initialized'')
      | Some p \<Rightarrow> Inr (Some \<lparr>ifp_proposal = Some p, ifp_prepared = True\<rparr>))"

definition InFlight_clear :: "InFlightData \<Rightarrow> InFlightData" where
  "InFlight_clear ifp = None"

subsection \<open>Saving\<close>

record 'w PersistedState =
  ps_InFlightProposal :: InFlightData
  ps_Entries :: "bytes list"
  ps_WAL :: 'w

definition storeProposal :: "'w PersistedState \<Rightarrow> PrePrepare \<Rightarrow> 'w PersistedState outcome" where
  "storeProposal ps prePrepare =
     (case pp_Proposal prePrepare of
        None \<Rightarrow> Inl (Panic ''nil proposal'')
      | Some proposal \<Rightarrow>
          Inr (ps\<lparr>ps_InFlightProposal := StoreProposal (ps_InFlightProposal ps) proposal\<rparr>))"

definition storePrepared :: "'w PersistedState \<Rightarrow> Message \<Rightarrow> 'w PersistedState outcome" where
  "storePrepared ps commitMsg =
     (case GetCommit commitMsg of
        None \<Rightarrow> Inl (Panic ''nil commit'')
      | Some cmt \<Rightarrow>
          andThen (StorePrepares (ps_InFlightProposal ps) (cmt_View cmt) (cmt_Seq cmt))
            (\<lambda>ifp. Inr (ps\<lparr>ps_InFlightProposal := ifp\<rparr>)))"

fun isProposedRecord :: "SavedMessage \<Rightarrow> bool" where
  "isProposedRecord (SavedProposedRecord pp prp) = True"
| "isProposedRecord _ = False"

definition recordInFlight :: "'w PersistedState \<Rightarrow> SavedMessage \<Rightarrow> 'w PersistedState outcome" where
  "recordInFlight ps msg =
     (case msg of
        SavedProposedRecord pp prp \<Rightarrow> storeProposal ps pp
      | SavedCommit m \<Rightarrow> storePrepared ps m
      | _ \<Rightarrow> Inr ps)"

text \<open>The boolean is \<open>err == nil\<close>.\<close>

definition PersistedState_Save ::
  "codec \<Rightarrow> ('w \<Rightarrow> bytes \<Rightarrow> bool \<Rightarrow> 'e + 'w) \<Rightarrow> 'w PersistedState \<Rightarrow> SavedMessage \<Rightarrow>
   ('w PersistedState \<times> bool) outcome" where
  "PersistedState_Save C walAppend ps msgToSave =
     andThen (recordInFlight ps msgToSave) (\<lambda>ps1.
       case walAppend (ps_WAL ps1) (marshalSaved C msgToSave) (isProposedRecord msgToSave) of
         Inl err \<Rightarrow> Inr (ps1, False)
       | Inr wal \<Rightarrow> Inr (ps1\<lparr>ps_WAL := wal\<rparr>, True))"

subsection \<open>Loading\<close>

definition LoadNewViewIfApplicable :: "codec \<Rightarrow> 'w PersistedState \<Rightarrow> string + ViewAndSeq option" where
  "LoadNewViewIfApplicable C ps =
     (if ps_Entries ps = [] then Inr None
      else case unmarshalSaved C (last (ps_Entries ps)) of
        None \<Rightarrow> Inl ''failed unmarshaling last entry from WAL''
      | Some (SavedNewView md) \<Rightarrow> Inr (Some \<lparr>vs_View = ViewId md, vs_Seq = LatestSequence md\<rparr>)
      | Some _ \<Rightarrow> Inr None)"

definition LoadViewChangeIfApplicable :: "codec \<Rightarrow> 'w PersistedState \<Rightarrow> string + u64 option" where
  "LoadViewChangeIfApplicable C ps =
     (if ps_Entries ps = [] then Inr None
      else case unmarshalSaved C (last (ps_Entries ps)) of
        None \<Rightarrow> Inl ''failed unmarshaling last entry from WAL''
      | Some (SavedViewChange nextView) \<Rightarrow> Inr (Some nextView)
      | Some _ \<Rightarrow> Inr None)"

definition recoverProposed ::
  "codec \<Rightarrow> 'w PersistedState \<Rightarrow> PrePrepare \<Rightarrow> Prepare \<Rightarrow> View \<Rightarrow> ('w PersistedState \<times> View) outcome" where
  "recoverProposed C ps pp prepare v =
     (case pp_Proposal pp of
        None \<Rightarrow> Inl (Panic ''nil proposal'')
      | Some prop \<Rightarrow>
          andThen (storeProposal ps pp) (\<lambda>ps1.
            case unmarshalMetadata C (bytes_of (Metadata prop)) of
              None \<Rightarrow> Inl (Panic ''Failed to unmarshal proposal metadata'')
            | Some md \<Rightarrow>
                Inr (ps1, v\<lparr>v_inFlightProposal := Some prop, v_lastBroadcastSent := Some (PrepareMsg prepare),
                            v_Phase := PROPOSED, v_Number := pp_View pp, v_ProposalSequence := pp_Seq pp,
                            v_DecisionsInView := DecisionsInView md\<rparr>)))"

definition recoverPrepared ::
  "codec \<Rightarrow> 'w PersistedState \<Rightarrow> Message \<Rightarrow> View \<Rightarrow> bytes list \<Rightarrow> ('w PersistedState \<times> View \<times> string option) outcome" where
  "recoverPrepared C ps commitMsg v entries =
     (if length entries < 2
      then Inr (ps, v, Some ''last message is a commit, but expected to also have a matching pre-prepare'')
      else case unmarshalSaved C (entries ! (length entries - 2)) of
        None \<Rightarrow> Inr (ps, v, Some ''failed unmarshaling last entry from WAL'')
      | Some (SavedProposedRecord pp prepare) \<Rightarrow>
          (if v_ProposalSequence v < pp_Seq pp
           then Inr (ps, v, Some ''last proposal sequence persisted into WAL is greater than last committed sequence'')
           else if v_ProposalSequence v > pp_Seq pp then Inr (ps, v, None)
           else case pp_Proposal pp of
             None \<Rightarrow> Inl (Panic ''nil proposal'')
           | Some prop \<Rightarrow>
               andThen (storeProposal ps pp) (\<lambda>ps1.
               andThen (storePrepared ps1 commitMsg) (\<lambda>ps2.
                 case unmarshalMetadata C (bytes_of (Metadata prop)) of
                   None \<Rightarrow> Inl (Panic ''Failed to unmarshal proposal metadata'')
                 | Some md \<Rightarrow>
                     (case GetCommit commitMsg of
                        None \<Rightarrow> Inl (Panic ''nil commit'')
                      | Some cmt \<Rightarrow>
                          (case cmt_Signature cmt of
                             None \<Rightarrow> Inl (Panic ''nil signature'')
                           | Some sig \<Rightarrow>
                               Inr (ps2, v\<lparr>v_inFlightProposal := Some prop, v_lastBroadcastSent := Some commitMsg,
                                          v_Phase := PREPARED, v_Number := pp_View pp,
                                          v_ProposalSequence := pp_Seq pp, v_DecisionsInView := DecisionsInView md,
                                          v_myProposalSig := Some sig\<rparr>, None))))))
      | Some _ \<Rightarrow> Inr (ps, v, Some ''expected second last message to be a pre-prepare''))"

definition Restore :: "codec \<Rightarrow> 'w PersistedState \<Rightarrow> View \<Rightarrow> ('w PersistedState \<times> View \<times> string option) outcome" where
  "Restore C ps v0 =
     (let v = v0\<lparr>v_Phase := COMMITTED\<rparr>; entries = ps_Entries ps in
      if entries = [] then Inr (ps, v, None)
      else case unmarshalSaved C (last entries) of
        None \<Rightarrow> Inr (ps, v, Some ''failed unmarshaling last entry from WAL'')
      | Some (SavedProposedRecord pp prepare) \<Rightarrow>
          andThen (recoverProposed C ps pp prepare v) (\<lambda>(ps1, v1). Inr (ps1, v1, None))
      | Some (SavedCommit commitMsg) \<Rightarrow> recoverPrepared C ps commitMsg v entries
      | Some (SavedNewView md) \<Rightarrow> Inr (ps, v, None)
      | Some (SavedViewChange nextView) \<Rightarrow> Inr (ps, v, None)
      | Some SavedNothing \<Rightarrow> Inr (ps, v, Some ''unrecognized record''))"

subsection \<open>Making a view\<close>

record ProposalMaker =
  pm_DecisionsPerLeader :: u64
  pm_N :: u64
  pm_NodesList :: "u64 list"
  pm_SelfID :: u64
  pm_InMsqQSize :: nat
  pm_restored :: bool
  pm_ViewSequences :: "ViewSequence option"

definition bareView :: "ProposalMaker \<Rightarrow> u64 \<Rightarrow> u64 \<Rightarrow> u64 \<Rightarrow> u64 \<Rightarrow> int \<Rightarrow> View" where
  "bareView pm leader propSeq viewNum decisionsInView quorum =
     \<lparr>v_DecisionsPerLeader = pm_DecisionsPerLeader pm, v_SelfID = pm_SelfID pm, v_N = pm_N pm,
      v_NodesList = pm_NodesList pm, v_LeaderID = leader, v_Quorum = quorum, v_Number = viewNum,
      v_ProposalSequence = propSeq, v_DecisionsInView = decisionsInView, v_Phase = COMMITTED,
      v_InMsgQSize = pm_InMsqQSize pm, v_lastVotedProposalByID = [], v_incMsgs = [],
      v_myProposalSig = None, v_inFlightProposal = None, v_inFlightRequests = [],
      v_lastBroadcastSent = None, v_currPrepareSent = None, v_currCommitSent = None,
      v_prevPrepareSent = None, v_prevCommitSent = None, v_prePrepare = None,
      v_prepares = voteSet_clear 0, v_commits = voteSet_clear 0, v_nextPrePrepare = None,
      v_nextPrepares = voteSet_clear 0, v_nextCommits = voteSet_clear 0, v_blacklistSupported = False,
      v_abortChan = None, v_pc = NotStarted\<rparr>"

definition catchUp :: "View \<Rightarrow> u64 \<Rightarrow> u64 \<Rightarrow> u64 \<Rightarrow> View" where
  "catchUp view propSeq viewNum decisionsInView =
     (let view1 = (if propSeq > v_ProposalSequence view
                   then view\<lparr>v_ProposalSequence := propSeq, v_DecisionsInView := decisionsInView\<rparr>
                   else view)
      in if viewNum > v_Number view1
         then view1\<lparr>v_Number := viewNum, v_DecisionsInView := decisionsInView\<rparr> else view1)"

definition NewProposer ::
  "codec \<Rightarrow> 'w PersistedState \<Rightarrow> ProposalMaker \<Rightarrow> u64 \<Rightarrow> u64 \<Rightarrow> u64 \<Rightarrow> u64 \<Rightarrow> int \<Rightarrow>
   (View \<times> 'w PersistedState \<times> ProposalMaker) outcome" where
  "NewProposer C ps pm leader propSeq viewNum decisionsInView quorum =
     (let view = bareView pm leader propSeq viewNum decisionsInView quorum;
          pm1 = pm\<lparr>pm_ViewSequences := Some \<lparr>ViewActive = True, ProposalSeq = propSeq\<rparr>\<rparr>
      in if pm_restored pm1 then Inr (catchUp view propSeq viewNum decisionsInView, ps, pm1)
         else andThen (Restore C ps view) (\<lambda>(ps1, view1, err).
           case err of
             Some e \<Rightarrow> Inl (Panic ''Failed restoring view from WAL'')
           | None \<Rightarrow> Inr (catchUp view1 propSeq viewNum decisionsInView, ps1, pm1\<lparr>pm_restored := True\<rparr>)))"

end
