(* ===== verification/Recovery.thy ===== *)
theory Recovery
  imports Persistence
begin

text \<open>
  Crash and recovery. The log of a view holds exactly what \<open>NewProposer\<close> needs to put a new view
  into the state the crashed one was in, and a recovered node keeps the votes it cast before.
\<close>

subsection \<open>The pre-prepare channels\<close>

definition chan_inv :: "View \<Rightarrow> bool" where
  "chan_inv v \<longleftrightarrow>
     (\<forall>m. v_prePrepare v = Some m \<longrightarrow> (\<exists>pp. m = PrePrepareMsg pp \<and> pp_View pp = v_Number v \<and>
        pp_Seq pp = v_ProposalSequence v \<and> pp_Proposal pp \<noteq> None)) \<and>
     (\<forall>m. v_nextPrePrepare v = Some m \<longrightarrow> (\<exists>pp. m = PrePrepareMsg pp \<and> pp_View pp = v_Number v \<and>
        pp_Seq pp = v_ProposalSequence v + 1 \<and> pp_Proposal pp \<noteq> None))"

lemma chan_inv_cong:
  "chan_inv v \<Longrightarrow> v_prePrepare v' = v_prePrepare v \<or> v_prePrepare v' = None \<Longrightarrow>
   v_nextPrePrepare v' = v_nextPrePrepare v \<Longrightarrow> v_Number v' = v_Number v \<Longrightarrow>
   v_ProposalSequence v' = v_ProposalSequence v \<Longrightarrow> chan_inv v'"
  by (auto simp: chan_inv_def)

lemma processPrePrepare_chan:
  assumes "chan_inv v" "pp_View pp = v_Number v"
    and "pp_Seq pp = (if nxt then v_ProposalSequence v + 1 else v_ProposalSequence v)"
  shows "chan_inv (processPrePrepare v pp (PrePrepareMsg pp) nxt s)"
  using assms by (auto simp: processPrePrepare_def chan_inv_def split: option.splits if_splits)

lemma discover_chan: "discoverIfSyncNeeded v s m = (v', effs) \<Longrightarrow> chan_inv v \<Longrightarrow> chan_inv v'"
  by (auto simp: discoverIfSyncNeeded_def Let_def view_stop_def chan_inv_def split: option.splits if_splits)

lemma processVote_chan: "processVote v s m nxt = Inr v' \<Longrightarrow> chan_inv v \<Longrightarrow> chan_inv v'"
  by (auto simp: processVote_def andThen_eq_Inr_iff chan_inv_def split: if_splits)

lemma processMsg_chan:
  assumes "processMsg v s m = Inr (v', effs)" "chan_inv v"
  shows "chan_inv v'"
proof (cases "Stopped v \<or> viewNumber m \<noteq> v_Number v")
  case True
  then have "v' = v \<or> v' = view_stop v \<or> discoverIfSyncNeeded v s m = (v', effs)"
    using assms(1) by (cases "s = v_LeaderID v") (auto simp: processMsg_def Let_def split: if_splits)
  then show ?thesis using assms(2) discover_chan by (auto simp: view_stop_def chan_inv_def split: option.splits)
next
  case False
  show ?thesis
  proof (cases "proposalSequence m = v_ProposalSequence v - 1 \<and> v_ProposalSequence v > 0")
    case True
    then have "processMsg v s m = andThen (handlePrevSeqMessage v (proposalSequence m) s m) (\<lambda>es. Inr (v, es))"
      using False by (simp add: processMsg_def Let_def)
    then have "v' = v" using assms(1) by (cases "handlePrevSeqMessage v (proposalSequence m) s m") auto
    then show ?thesis using assms(2) by simp
  next
    case nprev: False
    show ?thesis
    proof (cases "proposalSequence m \<noteq> v_ProposalSequence v \<and> proposalSequence m \<noteq> v_ProposalSequence v + 1")
      case True
      then have "discoverIfSyncNeeded v s m = (v', effs)"
        using False assms(1) by (simp only: processMsg_def Let_def nprev if_False if_True de_Morgan_disj not_not simp_thms) simp
      then show ?thesis using discover_chan assms(2) by blast
    next
      case inWindow: False
      let ?nxt = "proposalSequence m = v_ProposalSequence v + 1"
      have p: "processMsg v s m = (case GetPrePrepare m of
            Some pp \<Rightarrow> Inr (processPrePrepare v pp m ?nxt s, [])
          | None \<Rightarrow> andThen (processVote v s m ?nxt) (\<lambda>v'. Inr (v', [])))"
        using False by (simp only: processMsg_def Let_def nprev inWindow if_False de_Morgan_disj not_not simp_thms)
      show ?thesis
      proof (cases "GetPrePrepare m")
        case None
        then have "processVote v s m ?nxt = Inr v'"
          using p assms(1) by (cases "processVote v s m ?nxt") simp_all
        then show ?thesis using processVote_chan assms(2) by blast
      next
        case (Some pp)
        then have m: "m = PrePrepareMsg pp" by (cases m) auto
        have "v' = processPrePrepare v pp m ?nxt s" using p Some assms(1) by simp
        then show ?thesis
          using processPrePrepare_chan [OF assms(2), of pp ?nxt s] False inWindow m by (auto split: if_splits)
      qed
    qed
  qed
qed

subsection \<open>What the log holds\<close>

fun savedLog :: "SavedMessage list \<Rightarrow> viewEffect list \<Rightarrow> SavedMessage list" where
  "savedLog L [] = L"
| "savedLog L (SaveState m # es) = savedLog (if isProposedRecord m then [m] else L @ [m]) es"
| "savedLog L (e # es) = savedLog L es"

lemma savedLog_append: "savedLog L (a @ b) = savedLog (savedLog L a) b"
  by (induction L a rule: savedLog.induct) auto

lemma savedLog_quiet: "list_all quietEffect effs \<Longrightarrow> savedLog L effs = L"
  by (induction L effs rule: savedLog.induct) auto

text \<open>The entries the log returns are the marshaled messages.\<close>

fun appendsOf :: "codec \<Rightarrow> viewEffect list \<Rightarrow> (bytes \<times> bool) list" where
  "appendsOf C [] = []"
| "appendsOf C (SaveState m # es) = (marshalSaved C m, isProposedRecord m) # appendsOf C es"
| "appendsOf C (e # es) = appendsOf C es"

lemma logAfter_savedLog:
  "logAfter (map (marshalSaved C) L) (appendsOf C effs) = map (marshalSaved C) (savedLog L effs)"
proof (induction L effs rule: savedLog.induct)
  case (2 L m es)
  then show ?case by (cases "isProposedRecord m") auto
qed auto

definition proposedWith :: "codec \<Rightarrow> View \<Rightarrow> PrePrepare \<Rightarrow> bool" where
  "proposedWith C v pp \<longleftrightarrow> pp_View pp = v_Number v \<and> pp_Seq pp = v_ProposalSequence v \<and>
     (\<exists>p md. pp_Proposal pp = Some p \<and> v_inFlightProposal v = Some p \<and>
        unmarshalMetadata C (bytes_of (Metadata p)) = Some md \<and> DecisionsInView md = v_DecisionsInView v)"

definition log_inv :: "codec \<Rightarrow> SavedMessage list \<Rightarrow> View \<Rightarrow> bool" where
  "log_inv C L v \<longleftrightarrow> chan_inv v \<and> pcPhase v \<and>
     (v_Phase v = PROPOSED \<longrightarrow> (\<exists>pp prp. L = [SavedProposedRecord pp prp] \<and> proposedWith C v pp \<and>
        v_lastBroadcastSent v = Some (PrepareMsg prp))) \<and>
     (v_Phase v = PREPARED \<longrightarrow> (\<exists>pp prp c sig. L = [SavedProposedRecord pp prp, SavedCommit (CommitMsg c)] \<and>
        proposedWith C v pp \<and> v_lastBroadcastSent v = Some (CommitMsg c) \<and>
        cmt_Signature c = Some sig \<and> v_myProposalSig v = Some sig)) \<and>
     (v_Phase v = COMMITTED \<longrightarrow> L = [] \<or> (\<exists>pp prp c. L = [SavedProposedRecord pp prp, SavedCommit (CommitMsg c)] \<and>
        pp_Seq pp < v_ProposalSequence v))"

lemma log_inv_same:
  assumes "log_inv C L v" "chan_inv v'" "pcPhase v'" "v_Phase v' = v_Phase v"
    and "v_Number v' = v_Number v" "v_ProposalSequence v' = v_ProposalSequence v"
    and "v_inFlightProposal v' = v_inFlightProposal v" "v_DecisionsInView v' = v_DecisionsInView v"
    and "v_lastBroadcastSent v' = v_lastBroadcastSent v" "v_myProposalSig v' = v_myProposalSig v"
  shows "log_inv C L v'"
  using assms by (simp add: log_inv_def proposedWith_def)

lemma verifyProposal_metadata:
  assumes "verifyProposal E v p sigs = Inr (Inr requests, v1)"
  shows "\<exists>md. view_unmarshalMetadata E (Metadata p) = Some md \<and> ViewId md = v_Number v \<and>
    LatestSequence md = v_ProposalSequence v \<and> DecisionsInView md = v_DecisionsInView v"
  using assms by (auto simp: verifyProposal_def Let_def split: option.splits if_splits)

lemma acceptPrePrepare_log:
  assumes "acceptPrePrepare E v m = Inr (v', effs)" "log_inv C L v" "env_codec E = C"
    and "m = PrePrepareMsg pp" "pp_View pp = v_Number v" "pp_Seq pp = v_ProposalSequence v"
  shows "log_inv C (savedLog L effs) v'"
  using assms(1)
proof (cases rule: acceptPrePrepare_result)
  case (bad b)
  then have "chan_inv v'" "v_Phase v' = ABORT" "v_pc v' = AtRun"
    using assms(2) by (auto simp: log_inv_def chan_inv_def view_stop_def split: option.splits)
  then show ?thesis by (simp add: log_inv_def pcPhase_def)
next
  case (good pp' p b requests prepare)
  have chan: "chan_inv v'" using good(5) assms(2) by (auto simp: log_inv_def chan_inv_def)
  obtain md where "unmarshalMetadata C (bytes_of (Metadata p)) = Some md" "DecisionsInView md = v_DecisionsInView v"
    using verifyProposal_metadata [OF good(3)] assms(3) by auto
  then have "proposedWith C v' pp"
    using good(1,2,5) assms(4-6) by (simp add: proposedWith_def)
  then show ?thesis using chan good(1,5,6) assms(4) by (simp add: log_inv_def pcPhase_def)
qed

lemma continuePrepares_log:
  assumes "continuePrepares E v ids = Inr (v', effs)" "log_inv C L v" "v_Phase v = PROPOSED"
  shows "log_inv C (savedLog L effs) v'"
  using assms(1)
proof (cases rule: continuePrepares_result)
  case wait
  then show ?thesis
    using assms(2,3) by (auto simp: log_inv_def pcPhase_def chan_inv_def proposedWith_def)
next
  case (enough p sig commit)
  then show ?thesis
    using assms(2,3) by (auto simp: log_inv_def pcPhase_def chan_inv_def proposedWith_def)
qed

lemma continueCommits_log:
  assumes "continueCommits v sigs ver vv = Inr (v', effs)" "log_inv C L v" "v_Phase v = PREPARED"
    and "v_ProposalSequence v \<noteq> max_u64"
  shows "log_inv C (savedLog L effs) v'"
  using assms(1)
proof (cases rule: continueCommits_result)
  case wait
  then show ?thesis
    using assms(2,3) by (auto simp: log_inv_def pcPhase_def chan_inv_def proposedWith_def)
next
  case (enough p sig)
  have "v_ProposalSequence v < v_ProposalSequence v + 1"
    using unat_plus_one [OF assms(4)] by (simp add: word_less_nat_alt)
  then show ?thesis
    using enough assms(2,3) by (auto simp: log_inv_def pcPhase_def chan_inv_def startNextSeq_def proposedWith_def)
qed

lemma processMsg_log:
  assumes "processMsg v s m = Inr (v', effs)" "log_inv C L v"
  shows "log_inv C (savedLog L effs) v'"
proof -
  note f = processMsg_frame [OF assms(1)]
  have mf: "messageFrame v v'" using f by blast
  have "savedLog L effs = L" using f by (intro savedLog_quiet) blast
  then show ?thesis
    using messageFrame_simps [OF mf] messageFrame_sent(2) [OF mf] processMsg_chan [OF assms(1)] assms(2)
    by (simp add: log_inv_def proposedWith_def)
qed

lemma log_inv_frames:
  "log_inv C L v \<Longrightarrow> log_inv C L (v\<lparr>v_incMsgs := q\<rparr>)"
  "log_inv C L v \<Longrightarrow> log_inv C L (v\<lparr>v_abortChan := a\<rparr>)"
  "log_inv C L v \<Longrightarrow> log_inv C L (v\<lparr>v_prePrepare := None\<rparr>)"
  "log_inv C L v \<Longrightarrow> log_inv C L (v\<lparr>v_prepares := vs\<rparr>)"
  "log_inv C L v \<Longrightarrow> log_inv C L (v\<lparr>v_pc := Ended\<rparr>)"
  "log_inv C L v \<Longrightarrow> v_Phase v = PREPARED \<Longrightarrow> log_inv C L (v\<lparr>v_pc := WaitCommits sigs ver vv\<rparr>)"
  "log_inv C L v \<Longrightarrow> v_Phase v = PREPARED \<Longrightarrow> log_inv C L (v\<lparr>v_commits := vs, v_pc := WaitCommits sigs ver vv\<rparr>)"
  "log_inv C L v \<Longrightarrow> log_inv C L (v\<lparr>v_Phase := ABORT, v_pc := AtRun\<rparr>)"
  "log_inv C L v \<Longrightarrow> v_Phase v = COMMITTED \<Longrightarrow> log_inv C L (beginProposal v)"
  by (auto simp: log_inv_def chan_inv_def proposedWith_def beginProposal_def pcPhase_def split: viewPc.splits)

lemma stepVote_log:
  assumes "stepVote E v = Inr (v', effs)" "log_inv C L v"
  shows "log_inv C (savedLog L effs) v'"
  using assms(1)
proof (cases rule: stepVote_result)
  case (prepare ids vt vs)
  have "v_Phase v = PROPOSED" using assms(2) prepare(1) by (simp add: log_inv_def pcPhase_def)
  then show ?thesis
    using continuePrepares_log log_inv_frames(4) [OF assms(2)] prepareVote_continues [OF prepare(3)] by force
next
  case (commit sigs ver vv vt vs)
  have "v_Phase v = PREPARED" using assms(2) commit(1) by (simp add: log_inv_def pcPhase_def)
  then show ?thesis using log_inv_frames(7) [OF assms(2)] commit(3,4) by simp
qed (use assms(2) in simp)

lemma doPhase_log:
  assumes "doPhase E v = Inr (v', effs)" "log_inv C L v" "v_ProposalSequence v \<noteq> max_u64"
  shows "log_inv C (savedLog L effs) v'"
proof -
  have bl: "savedLog L (broadcastLast v @ es) = savedLog L es" for es by (simp add: broadcastLast_def)
  from assms(1) show ?thesis
  proof (cases rule: doPhase_result)
    case (prepares es)
    then show ?thesis using continuePrepares_log [OF prepares(2) assms(2)] by (simp add: bl)
  next
    case (commits es)
    then show ?thesis using continueCommits_log [OF commits(2) assms(2) _ assms(3)] by (simp add: bl)
  next
    case begins
    then show ?thesis using log_inv_frames(9) [OF assms(2)] by simp
  qed (use assms(2) in simp)
qed

lemma viewStep_log:
  assumes "viewStep E v ch = Inr (v', effs)" "log_inv C L v" "env_codec E = C"
    and "v_ProposalSequence v \<noteq> max_u64"
  shows "log_inv C (savedLog L effs) v'"
  using assms(1)
proof (cases rule: viewStep_result)
  case (msg s m q)
  then show ?thesis using processMsg_log log_inv_frames(1) [OF assms(2)] by blast
next
  case phase
  then show ?thesis using doPhase_log [OF _ assms(2,4)] by blast
next
  case (preprepare m)
  obtain pp where pp: "m = PrePrepareMsg pp" "pp_View pp = v_Number v" "pp_Seq pp = v_ProposalSequence v"
    using assms(2) preprepare(2) by (auto simp: log_inv_def chan_inv_def)
  show ?thesis
    using acceptPrePrepare_log [OF preprepare(3) log_inv_frames(3) [OF assms(2)] assms(3) pp(1)] pp by simp
next
  case vote
  then show ?thesis by (rule stepVote_log [OF _ assms(2)])
next
  case (verify i sigs ver vv)
  have "v_Phase v = PREPARED" using assms(2) verify(1) by (simp add: log_inv_def pcPhase_def)
  then show ?thesis using commitVerified_result [OF verify(2)] log_inv_frames(6) [OF assms(2)] assms(2) by auto
next
  case (verified sigs ver sig vv)
  have "v_Phase v = PREPARED" using assms(2) verified(1) by (simp add: log_inv_def pcPhase_def)
  then show ?thesis by (rule continueCommits_log [OF verified(2) assms(2) _ assms(4)])
qed (use log_inv_frames(1,2,5,8) [OF assms(2)] assms(2) in simp_all)

lemma viewRun_log:
  "viewRun v steps = Inr (v', effs) \<Longrightarrow> log_inv C L v \<Longrightarrow> \<forall>(E, ch)\<in>set steps. env_codec E = C \<Longrightarrow>
   unat (v_ProposalSequence v) + length steps < 2 ^ 64 \<Longrightarrow> log_inv C (savedLog L effs) v'"
proof (induction v steps arbitrary: effs L rule: viewRun.induct)
  case (2 v E ch steps)
  obtain v1 effs1 effs2 where r: "viewStep E v ch = Inr (v1, effs1)"
    "viewRun v1 steps = Inr (v', effs2)" "effs = effs1 @ effs2"
    using 2(2) by (auto simp: andThen_eq_Inr_iff)
  have nm: "v_ProposalSequence v \<noteq> max_u64" using 2(5) by (intro unat_not_max) simp
  have "log_inv C (savedLog L effs1) v1" using viewStep_log [OF r(1) 2(3) _ nm] 2(4) by simp
  moreover have "unat (v_ProposalSequence v1) + length steps < 2 ^ 64"
    using viewStep_same [OF r(1)] 2(5) unat_plus_one [OF nm] by (auto simp: sameView_def)
  ultimately show ?case using 2(1) [OF r(2)] 2(4) r(3) by (simp add: savedLog_append)
qed simp

subsection \<open>Saving through the log\<close>

fun saveAll ::
  "codec \<Rightarrow> ('w \<Rightarrow> bytes \<Rightarrow> bool \<Rightarrow> 'e + 'w) \<Rightarrow> 'w PersistedState \<Rightarrow> viewEffect list \<Rightarrow>
   ('w PersistedState \<times> bool) outcome" where
  "saveAll C walAppend ps [] = Inr (ps, True)"
| "saveAll C walAppend ps (SaveState m # es) =
     andThen (PersistedState_Save C walAppend ps m)
       (\<lambda>(ps1, ok). if ok then saveAll C walAppend ps1 es else Inr (ps1, False))"
| "saveAll C walAppend ps (e # es) = saveAll C walAppend ps es"

lemma recordInFlight_wal: "recordInFlight ps m = Inr ps1 \<Longrightarrow> ps_WAL ps1 = ps_WAL ps"
  by (auto simp: recordInFlight_def storeProposal_def storePrepared_def andThen_eq_Inr_iff
      split: SavedMessage.splits option.splits)

lemma PersistedState_Save_ok:
  assumes "PersistedState_Save C walAppend ps m = Inr (ps1, True)"
  shows "walAppend (ps_WAL ps) (marshalSaved C m) (isProposedRecord m) = Inr (ps_WAL ps1)"
proof -
  obtain ps0 where "recordInFlight ps m = Inr ps0"
    "(case walAppend (ps_WAL ps0) (marshalSaved C m) (isProposedRecord m) of
        Inl err \<Rightarrow> Inr (ps0, False) | Inr wal \<Rightarrow> Inr (ps0\<lparr>ps_WAL := wal\<rparr>, True)) = (Inr (ps1, True) :: _ outcome)"
    using assms by (auto simp: PersistedState_Save_def andThen_eq_Inr_iff)
  then show ?thesis using recordInFlight_wal by (cases "walAppend (ps_WAL ps0) (marshalSaved C m) (isProposedRecord m)") force+
qed

context write_ahead_log
begin

lemma saveAll_recovered:
  "saveAll C walAppend ps effs = Inr (ps', True) \<Longrightarrow> invar (ps_WAL ps) \<Longrightarrow>
   invar (ps_WAL ps') \<and> recovered (ps_WAL ps') = logAfter (recovered (ps_WAL ps)) (appendsOf C effs)"
proof (induction effs arbitrary: ps)
  case (Cons e es)
  show ?case
  proof (cases "\<exists>m. e = SaveState m")
    case False
    then show ?thesis using Cons by (cases e) auto
  next
    case True
    then obtain m where m: "e = SaveState m" by blast
    then obtain ps1 where ps1: "PersistedState_Save C walAppend ps m = Inr (ps1, True)"
      "saveAll C walAppend ps1 es = Inr (ps', True)"
      using Cons.prems(1) by (auto simp: andThen_eq_Inr_iff split: if_splits)
    note a = PersistedState_Save_ok [OF ps1(1)]
    have "invar (ps_WAL ps1)" by (rule append_invar [OF Cons.prems(2) a])
    then show ?thesis using Cons.IH [OF ps1(2)] append_recovered [OF Cons.prems(2) a] m by simp
  qed
qed simp

end

subsection \<open>Restoring\<close>

definition savedRoundtrip :: "codec \<Rightarrow> SavedMessage list \<Rightarrow> bool" where
  "savedRoundtrip C L \<longleftrightarrow> (\<forall>m\<in>set L. unmarshalSaved C (marshalSaved C m) = Some m)"

lemma freshRun_log:
  assumes "freshRun C v steps v' effs"
  shows "log_inv C (savedLog [] effs) v'"
proof -
  have "log_inv C [] (View_Start True v)"
    using assms by (simp add: freshRun_def freshView_def log_inv_def chan_inv_def View_Start_def setupVotes_def
        pcPhase_def)
  then show ?thesis using viewRun_log [of "View_Start True v" steps v' effs C "[]"] assms
    by (simp add: freshRun_def)
qed

text \<open>The view \<open>NewProposer\<close> makes from the log of a crashed view.\<close>

definition resumes :: "View \<Rightarrow> View \<Rightarrow> bool" where
  "resumes v w \<longleftrightarrow> v_Phase w = v_Phase v \<and> v_Number w = v_Number v \<and> v_ProposalSequence w = v_ProposalSequence v \<and>
     v_DecisionsInView w = v_DecisionsInView v \<and>
     (v_Phase v \<in> {PROPOSED, PREPARED} \<longrightarrow> v_inFlightProposal w = v_inFlightProposal v \<and>
        v_lastBroadcastSent w = v_lastBroadcastSent v) \<and>
     (v_Phase v = PREPARED \<longrightarrow> v_myProposalSig w = v_myProposalSig v)"

definition restoredInFlight :: "View \<Rightarrow> InFlightData \<Rightarrow> bool" where
  "restoredInFlight v ifp \<longleftrightarrow> (v_Phase v \<in> {PROPOSED, PREPARED} \<longrightarrow> InFlightProposal ifp = v_inFlightProposal v \<and>
     (IsInFlightPrepared ifp \<longleftrightarrow> v_Phase v = PREPARED))"

lemmas restore_defs = NewProposer_def Restore_def recoverProposed_def recoverPrepared_def catchUp_def bareView_def
  storeProposal_def storePrepared_def StoreProposal_def StorePrepares_def InFlightProposal_def IsInFlightPrepared_def

lemma NewProposer_restores:
  assumes "log_inv C L v" "v_Phase v \<noteq> ABORT" "savedRoundtrip C L" "ps_Entries ps = map (marshalSaved C) L"
    and "\<not> pm_restored pm"
  shows "\<exists>w ps' pm'. NewProposer C ps pm leader (v_ProposalSequence v) (v_Number v) (v_DecisionsInView v) q = Inr (w, ps', pm') \<and>
    resumes v w \<and> restoredInFlight v (ps_InFlightProposal ps') \<and>
    v_currPrepareSent w = None \<and> v_currCommitSent w = None \<and> v_prevPrepareSent w = None \<and> v_prevCommitSent w = None"
proof (cases "v_Phase v")
  case COMMITTED
  then consider "L = []" | pp prp c where "L = [SavedProposedRecord pp prp, SavedCommit (CommitMsg c)]"
      "pp_Seq pp < v_ProposalSequence v"
    using assms(1) by (auto simp: log_inv_def)
  then show ?thesis
  proof cases
    case 1
    then show ?thesis
      using assms COMMITTED by (simp add: restore_defs resumes_def restoredInFlight_def Let_def)
  next
    case (2 pp prp c)
    then have "\<not> v_ProposalSequence v < pp_Seq pp" by simp
    then show ?thesis
      using assms COMMITTED 2
      by (simp add: restore_defs resumes_def restoredInFlight_def Let_def savedRoundtrip_def)
  qed
next
  case PROPOSED
  then obtain pp prp where "L = [SavedProposedRecord pp prp]" "proposedWith C v pp"
    "v_lastBroadcastSent v = Some (PrepareMsg prp)"
    using assms(1) by (auto simp: log_inv_def)
  then show ?thesis
    using assms PROPOSED
    by (auto simp: restore_defs resumes_def restoredInFlight_def Let_def savedRoundtrip_def proposedWith_def)
next
  case PREPARED
  then obtain pp prp c sig where "L = [SavedProposedRecord pp prp, SavedCommit (CommitMsg c)]" "proposedWith C v pp"
    "v_lastBroadcastSent v = Some (CommitMsg c)" "cmt_Signature c = Some sig" "v_myProposalSig v = Some sig"
    using assms(1) by (auto simp: log_inv_def)
  then show ?thesis
    using assms PREPARED
    by (auto simp: restore_defs resumes_def restoredInFlight_def Let_def savedRoundtrip_def proposedWith_def)
qed (use assms(2) in simp)

lemma log_inv_inFlight:
  "log_inv C L v \<Longrightarrow> (v_Phase v = PROPOSED \<longrightarrow> v_inFlightProposal v \<noteq> None) \<and>
     (v_Phase v = PREPARED \<longrightarrow> (\<exists>p sig. v_inFlightProposal v = Some p \<and> v_myProposalSig v = Some sig))"
  by (auto simp: log_inv_def proposedWith_def)

lemma started_view_inv: "phase_inv MY w \<Longrightarrow> view_inv C OK MY D (View_Start True w)"
  by (simp add: View_Start_def setupVotes_def view_inv_def votingSets_inv_def loop_inv_def phase_inv_def Let_def)

lemma resumes_hist:
  assumes "hist_inv C H v" "resumes v w" "v_Phase v \<noteq> ABORT"
    and "v_currPrepareSent w = None" "v_currCommitSent w = None" "v_prevPrepareSent w = None" "v_prevCommitSent w = None"
  shows "hist_inv C H (View_Start True w)"
proof -
  note d = hist_invD [OF assms(1)]
  have eq: "v_Phase (View_Start True w) = v_Phase v" "v_Number (View_Start True w) = v_Number v"
    "v_ProposalSequence (View_Start True w) = v_ProposalSequence v"
    "v_Phase v \<in> {PROPOSED, PREPARED} \<Longrightarrow> v_inFlightProposal (View_Start True w) = v_inFlightProposal v"
    using assms(2) by (simp_all add: resumes_def View_Start_def setupVotes_def)
  have pc: "pcPhase (View_Start True w)" by (simp add: View_Start_def setupVotes_def pcPhase_def)
  have sent: "sentMessages (View_Start True w) \<subseteq> sentMessages v"
    using assms(2,4-) by (auto simp: sentMessages_def resumes_def View_Start_def setupVotes_def)
  show ?thesis
  proof (rule hist_invI)
    show "persistedMsg H m" if "m \<in> sentMessages (View_Start True w)" for m using d(9) sent that by blast
  qed (use d(1,3-8) eq pc in \<open>auto; fail\<close>)+
qed

subsection \<open>An example\<close>

text \<open>Node 2 crashes when it waits for commits. Two records are in its log.\<close>

definition recoveryCodec :: codec where
  "recoveryCodec = exampleCodec\<lparr>
     marshalSaved := (\<lambda>m. case m of SavedProposedRecord _ _ \<Rightarrow> [1] | _ \<Rightarrow> [2]),
     unmarshalSaved := (\<lambda>b. if b = [1]
       then Some (SavedProposedRecord
         \<lparr>pp_View = 0, pp_Seq = 1, pp_Proposal = Some exampleProposal, pp_PrevCommitSignatures = []\<rparr>
         \<lparr>prp_View = 0, prp_Seq = 1, prp_Digest = Digest exampleCodec exampleProposal, prp_Assist = False\<rparr>)
       else Some (SavedCommit (exampleCommit 2)))\<rparr>"

definition crashSteps :: "(unit viewEnv \<times> viewChoice) list" where
  "crashSteps = map (\<lambda>ch. ((exampleEnv 2)\<lparr>env_codec := recoveryCodec\<rparr>, ch)) (take 15 (exampleChoices 1 3))"

definition restartSteps :: "(unit viewEnv \<times> viewChoice) list" where
  "restartSteps = map (\<lambda>ch. ((exampleEnv 2)\<lparr>env_codec := recoveryCodec\<rparr>, ch))
     (ChDefault # drop 12 (exampleChoices 1 3))"

definition runEffects :: "View \<Rightarrow> ('a viewEnv \<times> viewChoice) list \<Rightarrow> viewEffect list" where
  "runEffects v steps = (case viewRun v steps of Inr (w, effs) \<Rightarrow> effs | _ \<Rightarrow> [])"

definition runView :: "View \<Rightarrow> ('a viewEnv \<times> viewChoice) list \<Rightarrow> View" where
  "runView v steps = (case viewRun v steps of Inr (w, effs) \<Rightarrow> w | _ \<Rightarrow> v)"

abbreviation crashedView :: View where
  "crashedView \<equiv> runView (View_Start True (exampleView 2)) crashSteps"

abbreviation crashedEffects :: "viewEffect list" where
  "crashedEffects \<equiv> runEffects (View_Start True (exampleView 2)) crashSteps"

definition exampleMaker :: ProposalMaker where
  "exampleMaker = \<lparr>pm_DecisionsPerLeader = 0, pm_N = 4, pm_NodesList = [1, 2, 3, 4], pm_SelfID = 2,
     pm_InMsqQSize = 10, pm_restored = False, pm_ViewSequences = None\<rparr>"

definition exampleState :: "unit PersistedState" where
  "exampleState = \<lparr>ps_InFlightProposal = None, ps_Entries = [[1], [2]], ps_WAL = ()\<rparr>"

lemma viewRun_runView:
  "(case viewRun v steps of Inr _ \<Rightarrow> True | Inl _ \<Rightarrow> False) \<Longrightarrow>
   viewRun v steps = Inr (runView v steps, runEffects v steps)"
  by (auto simp: runView_def runEffects_def split: sum.splits)

lemma crashRun: "freshRun recoveryCodec (exampleView 2) crashSteps crashedView crashedEffects"
proof -
  have "case viewRun (View_Start True (exampleView 2)) crashSteps of Inr _ \<Rightarrow> True | Inl _ \<Rightarrow> False"
    by code_simp
  then have "viewRun (View_Start True (exampleView 2)) crashSteps = Inr (crashedView, crashedEffects)"
    by (rule viewRun_runView)
  moreover have "\<forall>(E, ch)\<in>set crashSteps. env_codec E = recoveryCodec" by (auto simp: crashSteps_def)
  moreover have "length crashSteps = 15" by (simp add: crashSteps_def exampleChoices_def)
  ultimately show ?thesis by (simp add: freshRun_def freshView_def exampleView_def)
qed

lemma crashLog:
  "savedRoundtrip recoveryCodec (savedLog [] crashedEffects)"
  "ps_Entries exampleState = logAfter [] (appendsOf recoveryCodec crashedEffects)"
  "v_Phase crashedView = PREPARED" "v_ProposalSequence crashedView = 1"
  "v_Number crashedView = 0" "v_DecisionsInView crashedView = 0"
  unfolding savedRoundtrip_def by code_simp+

subsection \<open>Properties\<close>

text \<open>
  C14: the log is enough to resume. Whenever a view crashes before it aborts, reading its log back makes
  \<open>NewProposer\<close> build a view in the same phase, view number, sequence and number of decisions; a view
  that had voted gets back the proposal in flight, the message it broadcast last and, once
  prepared, its signature, and the in-flight data of the view changer is restored as well.
\<close>

theorem recovery_resumes:
  assumes "freshRun C v steps v' effs" "v_Phase v' \<noteq> ABORT"
    and "savedRoundtrip C (savedLog [] effs)" "ps_Entries ps = logAfter [] (appendsOf C effs)" "\<not> pm_restored pm"
  shows "\<exists>w ps' pm'. NewProposer C ps pm leader (v_ProposalSequence v') (v_Number v') (v_DecisionsInView v') q =
    Inr (w, ps', pm') \<and> resumes v' w \<and> restoredInFlight v' (ps_InFlightProposal ps')"
proof -
  have "ps_Entries ps = map (marshalSaved C) (savedLog [] effs)"
    using assms(4) logAfter_savedLog [of C "[]" effs] by simp
  then show ?thesis using NewProposer_restores [OF freshRun_log [OF assms(1)] assms(2,3) _ assms(5)] by blast
qed

theorem recovery_resumes_witness:
  "\<exists>w ps' pm'. NewProposer recoveryCodec exampleState exampleMaker 1 1 0 0 3 = Inr (w, ps', pm') \<and>
     resumes crashedView w \<and> restoredInFlight crashedView (ps_InFlightProposal ps')"
  using recovery_resumes [OF crashRun _ crashLog(1,2), of exampleMaker 1 3] crashLog(3-6)
  by (simp add: exampleMaker_def)

text \<open>
  C5: a restarted node keeps its word. After a crash and a restart from the log, whatever arrives then, the node
  never logs or sends a prepare or a commit that conflicts with one from before the crash: over both lives
  there is one digest per sequence, a commit only for a digest it prepared, and nothing is sent that was not logged.
\<close>

theorem recovered_node_keeps_votes:
  assumes "freshRun C v steps v' effs" "v_Phase v' \<noteq> ABORT"
    and "savedRoundtrip C (savedLog [] effs)" "ps_Entries ps = logAfter [] (appendsOf C effs)" "\<not> pm_restored pm"
    and "NewProposer C ps pm leader (v_ProposalSequence v') (v_Number v') (v_DecisionsInView v') q = Inr (w, ps', pm')"
    and "viewRun (View_Start True w) steps2 = Inr (w', effs2)" "\<forall>(E, ch)\<in>set steps2. env_codec E = C"
    and "unat (v_ProposalSequence v') + length steps2 < 2 ^ 64"
  shows "persistFirst C effs effs2 \<and> onePerSeq (effs @ effs2) \<and>
    (\<forall>c\<in>committedIn (effs @ effs2). \<exists>prp\<in>proposedIn (effs @ effs2).
       prp_Seq prp = cmt_Seq c \<and> prp_Digest prp = cmt_Digest c)"
proof -
  let ?T = "\<lambda>_ _. True"
  have entries: "ps_Entries ps = map (marshalSaved C) (savedLog [] effs)"
    using assms(4) logAfter_savedLog [of C "[]" effs] by simp
  have w: "resumes v' w" "v_currPrepareSent w = None" "v_currCommitSent w = None" "v_prevPrepareSent w = None"
    "v_prevCommitSent w = None"
    using NewProposer_restores [OF freshRun_log [OF assms(1)] assms(2,3) entries assms(5), of leader q] assms(6) by auto
  have h: "hist_inv C effs (View_Start True w)"
    by (rule resumes_hist [OF freshRun_safe(1) [OF assms(1)] w(1) assms(2) w(2-)])
  have "phase_inv ?T w"
    using log_inv_inFlight [OF freshRun_log [OF assms(1)]] w(1) by (auto simp: phase_inv_def resumes_def)
  then have i: "view_inv C ?T ?T UNIV (View_Start True w)" by (rule started_view_inv)
  have "\<And>E. E \<in> fst ` set steps2 \<Longrightarrow> environment C ?T ?T E" using assms(8) by (auto simp: environment_def)
  then have "hist_inv C (effs @ effs2) w' \<and> persistFirst C effs effs2"
    using viewRun_safe [OF assms(7) i h, of undefined] assms(9) w(1) by (simp add: resumes_def)
  then show ?thesis using hist_invD(1,6) by metis
qed

theorem recovered_node_keeps_votes_witness:
  "\<exists>w ps' pm' effs2 p sigs. NewProposer recoveryCodec exampleState exampleMaker 1 1 0 0 3 = Inr (w, ps', pm') \<and>
     effs2 = runEffects (View_Start True w) restartSteps \<and> decisionsFrom 0 effs2 = [(1, p, sigs)] \<and>
     onePerSeq (crashedEffects @ effs2)"
proof -
  let ?n = "NewProposer recoveryCodec exampleState exampleMaker 1 1 0 0 3"
  let ?w = "case ?n of Inr (w, _) \<Rightarrow> w | _ \<Rightarrow> exampleView 2"
  have ok: "case ?n of Inr _ \<Rightarrow> True | Inl _ \<Rightarrow> False" by code_simp
  then obtain w ps' pm' where n: "?n = Inr (w, ps', pm')" by (auto split: sum.splits)
  have "case viewRun (View_Start True ?w) restartSteps of Inr _ \<Rightarrow> True | Inl _ \<Rightarrow> False" by code_simp
  then have run: "viewRun (View_Start True w) restartSteps =
      Inr (runView (View_Start True w) restartSteps, runEffects (View_Start True w) restartSteps)"
    using n by (intro viewRun_runView) simp
  have "map (\<lambda>(s, p, sigs). s) (decisionsFrom 0 (runEffects (View_Start True ?w) restartSteps)) = [1]" by code_simp
  then obtain p sigs where d: "decisionsFrom 0 (runEffects (View_Start True w) restartSteps) = [(1, p, sigs)]"
    using n by (auto simp: map_eq_Cons_conv)
  have c: "\<forall>(E, ch)\<in>set restartSteps. env_codec E = recoveryCodec" by (auto simp: restartSteps_def)
  have b: "unat (v_ProposalSequence crashedView) + length restartSteps < 2 ^ 64"
    using crashLog(4) by (simp add: restartSteps_def exampleChoices_def)
  have "onePerSeq (crashedEffects @ runEffects (View_Start True w) restartSteps)"
    using recovered_node_keeps_votes [OF crashRun _ crashLog(1,2) _ _ run c b, of exampleMaker 1 3] n crashLog(3-6)
    by (simp add: exampleMaker_def)
  then show ?thesis using n d by blast
qed

text \<open>
  Restoring a proposal that was already delivered. When the log ends with a proposal and the application is
  ahead of it, \<open>NewProposer\<close> only advances the sequence number: the view starts in the phase \<open>PROPOSED\<close>
  of the new sequence with the old proposal in flight and the old prepare to broadcast, unlike a log that ends
  with a commit, where the sequences are compared.
\<close>

theorem restored_proposal_may_be_stale:
  assumes "ps_Entries ps = es @ [marshalSaved C (SavedProposedRecord pp prp)]" "\<not> pm_restored pm"
    and "unmarshalSaved C (marshalSaved C (SavedProposedRecord pp prp)) = Some (SavedProposedRecord pp prp)"
    and "pp_Proposal pp = Some p" "unmarshalMetadata C (bytes_of (Metadata p)) = Some md"
    and "pp_Seq pp < propSeq" "pp_View pp \<le> viewNum"
  shows "\<exists>w ps' pm'. NewProposer C ps pm leader propSeq viewNum decisions q = Inr (w, ps', pm') \<and>
    v_Phase w = PROPOSED \<and> v_ProposalSequence w = propSeq \<and> v_Number w = viewNum \<and>
    v_inFlightProposal w = Some p \<and> v_lastBroadcastSent w = Some (PrepareMsg prp)"
  using assms by (auto simp: restore_defs Let_def)

theorem restored_proposal_may_be_stale_witness:
  "\<exists>w ps' pm'. NewProposer recoveryCodec (exampleState\<lparr>ps_Entries := [[1]]\<rparr>) exampleMaker 1 2 0 1 3 = Inr (w, ps', pm') \<and>
    v_Phase w = PROPOSED \<and> v_ProposalSequence w = 2 \<and> v_inFlightProposal w = Some exampleProposal"
proof -
  let ?pp = "\<lparr>pp_View = 0, pp_Seq = 1, pp_Proposal = Some exampleProposal, pp_PrevCommitSignatures = []\<rparr> :: PrePrepare"
  let ?prp = "\<lparr>prp_View = 0, prp_Seq = 1, prp_Digest = Digest exampleCodec exampleProposal, prp_Assist = False\<rparr> :: Prepare"
  show ?thesis
    using restored_proposal_may_be_stale [of "exampleState\<lparr>ps_Entries := [[1]]\<rparr>" "[]" recoveryCodec ?pp ?prp
        exampleMaker exampleProposal _ 2 0 1 1 3]
    by (auto simp: exampleMaker_def recoveryCodec_def exampleCodec_def exampleProposal_def bytes_of_def)
qed

text \<open>A view whose metrics file could not be opened has no goroutine, and \<open>Abort\<close> waits for it for ever.\<close>

lemma abort_blocks_without_metrics_file: "View_Abort (View_Start False w) = Inl (Blocked ''viewEnded'')"
  if "v_pc w = NotStarted"
  using that by (simp add: View_Abort_def View_Start_def view_stop_def Let_def)

end
