(* ===== verification/WalProperties.thy ===== *)
theory WalProperties
  imports WalRecovery Recovery
begin

text \<open>
  The guarantees of the write ahead log over any number of crashes and restarts, its interpretation as the log of the
  persistence layer, and the recovery of a node through it.
\<close>

subsection \<open>The lives of a log\<close>

definition recordFrame :: "logCodec \<Rightarrow> u32 \<Rightarrow> LogRecord \<Rightarrow> bytes" where
  "recordFrame C crc r = frame (nextCrc C crc r) (recordBytes C r)"

text \<open>A crash while a record is being written leaves the first \<open>k\<close> bytes of its frame; \<open>k = 0\<close> is a crash between writes.\<close>

definition tornWrite :: "logCodec \<Rightarrow> LogRecord \<Rightarrow> nat \<Rightarrow> WriteAheadLogFile \<Rightarrow> directory" where
  "tornWrite C r k w =
     setFile (wal_dir w) (wal_index w) (fileBytes (wal_dir w) (wal_index w) @ take k (recordFrame C (wal_crc w) r))"

text \<open>A log with the entries that count: created, written to, crashed and restarted.\<close>

inductive lives :: "logCodec \<Rightarrow> WriteAheadLogFile \<Rightarrow> bytes list \<Rightarrow> bool" for C where
  created: "wal_Create C d options = Inr w \<Longrightarrow> lives C w []"
| appended: "lives C w items \<Longrightarrow> wal_index w \<noteq> max_u64 \<Longrightarrow> wal_Append C data truncateTo w = Inr w' \<Longrightarrow>
    lives C w' (if truncateTo then [data] else items @ [data])"
| truncated: "lives C w items \<Longrightarrow> wal_index w \<noteq> max_u64 \<Longrightarrow> wal_TruncateTo C w = Inr w' \<Longrightarrow> lives C w' []"
| restarted: "lives C w items \<Longrightarrow> wal_index w \<noteq> max_u64 \<Longrightarrow> writable C r \<Longrightarrow>
    InitializeAndReadAll C (tornWrite C r k w) options = Inr (w', items') \<Longrightarrow> lives C w' items'"

lemma Create_inv:
  assumes "logRoundtrip C" "wal_Create C d options = Inr w"
  shows "wal_inv C [freshSegment 1 walCRCSeed] w"
proof -
  let ?s = "freshSegment 1 walCRCSeed"
  have "sort (map fst (dir_files d)) = []"
    using assms(2) by (auto simp: wal_Create_def dirEmpty_def dirReadWalNames_def split: if_splits)
  then have e: "dir_files d = []" by (metis length_0_conv length_sort map_is_Nil_conv)
  then have f: "fileBytes d 1 = []" by (simp add: fileBytes_def)
  have "onDisk C d []" by (simp add: onDisk_def e)
  then have "onDisk C (setFile d 1 (contents C ?s)) [?s]" using onDisk_put [of C d "[]" ?s] by simp
  then show ?thesis
    using assms(2) e f saveCRC_ok [OF assms(1)]
    by (auto simp: wal_Create_def wal_inv_def log_ok_def dirEmpty_def dirReadWalNames_def intro!: truncOKI [of _ "[]" ?s "[]"])
qed

lemma restart_ok:
  assumes "logRoundtrip C" "wal_inv C segs w" "wal_index w \<noteq> max_u64" "writable C r"
  shows "\<exists>w' segs'. InitializeAndReadAll C (tornWrite C r k w) options =
      Inr (w', logItems [] (records segs @ (if k < length (recordFrame C (wal_crc w) r) then [] else [r]))) \<and>
    wal_inv C segs' w' \<and>
    logItems [] (records segs') = logItems [] (records segs @ (if k < length (recordFrame C (wal_crc w) r) then [] else [r]))"
proof -
  obtain xs l where segs: "segs = xs @ [l]" using assms(2) by (metis append_butlast_last_id wal_inv_def)
  have inv: "log_ok C (wal_dir w) (xs @ [l])" "seg_tail l = []" "wal_index w = seg_index l" "wal_crc w = segEnd C l"
    using assms(2) segs by (auto simp: wal_inv_def)
  have lok: "chained C (xs @ [l])" "onDisk C (wal_dir w) (xs @ [l])" "\<forall>s\<in>set xs. segment_ok C s"
    "\<forall>x\<in>set (seg_recs l). writable C x"
    using inv(1) by (auto simp: log_ok_def segment_ok_def)
  have f: "fileBytes (wal_dir w) (seg_index l) = contents C l"
    using onDisk_file [OF lok(2,1), of l] by (simp add: fileBytes_def)
  let ?f = "recordFrame C (wal_crc w) r"
  let ?l = "if k < length ?f then tornSegment l (take k ?f) else addRecord r l"
  have l: "seg_index ?l = seg_index l" "seg_crc ?l = seg_crc l" "contents C ?l = contents C l @ take k ?f"
    "records (xs @ [?l]) = records segs @ (if k < length ?f then [] else [r])"
    using contents_addRecord [OF inv(2), of C r] inv(2,4) segs
    by (simp_all add: tornSegment_def contents_def wholeFrames_def recordFrame_def)
  have d: "tornWrite C r k w = setFile (wal_dir w) (seg_index l) (contents C ?l)"
    unfolding tornWrite_def inv(3) f l(3) ..
  have od: "onDisk C (tornWrite C r k w) (xs @ [?l])"
    unfolding d using onDisk_replace [OF lok(2) l(1) [symmetric], unfolded l(1)] chained_init [OF lok(1)] by simp
  have ch: "chained C (xs @ [?l])" using chained_change [OF lok(1) l(1,2)] .
  have len: "length (recordBytes C r) < 2 ^ 32" using writable_bytes [OF assms(4)] by blast
  show ?thesis
  proof (cases "0 < k \<and> k < length ?f \<and> k \<noteq> 8")
    case True
    then have "tornTail (seg_tail ?l)" "\<forall>x\<in>set (seg_recs ?l). writable C x"
      using len lok(4) by (auto simp: tornTail_def tornSegment_def recordFrame_def)
    from Initialize_torn [OF assms(1) ch od lok(3) this(2,1), of options] show ?thesis
      using assms(3) inv(3) l(1,4) by auto
  next
    case False
    have "segment_ok C ?l"
    proof (cases "k < length ?f")
      case True
      then have "k = 0 \<or> k = 8" using False by auto
      then have "silentTail (take k ?f)"
        unfolding silentTail_def recordFrame_def using True len by (auto simp: recordFrame_def)
      then show ?thesis using True lok(4) by (simp add: segment_ok_def tornSegment_def)
    next
      case False
      then show ?thesis using lok(4) assms(4) inv(2) by (auto simp: segment_ok_def)
    qed
    then have "log_ok C (tornWrite C r k w) (xs @ [?l])" using ch od lok(3) by (simp add: log_ok_def)
    from Initialize_ok [OF assms(1) this, of options] show ?thesis using assms(3) inv(3) l(1,4) by auto
  qed
qed

lemma lives_inv:
  assumes "lives C w items" "logRoundtrip C"
  shows "\<exists>segs. wal_inv C segs w \<and> logItems [] (records segs) = items"
  using assms
proof (induction rule: lives.induct)
  case (created d options w)
  then show ?case using Create_inv by (fastforce intro!: exI [of _ "[freshSegment 1 walCRCSeed]"])
next
  case (appended w items data truncateTo w')
  then obtain segs where "wal_inv C segs w" "logItems [] (records segs) = items" by blast
  moreover have "wal_append C \<lparr>rec_Type = ENTRY, rec_TruncateTo = truncateTo, rec_Data = data\<rparr> w = Inr w'"
    using appended.hyps(3) by (auto simp: wal_Append_def split: if_splits)
  ultimately show ?case
    using wal_append_ok [OF appended.prems, of segs w _ w'] appended.hyps(2) by (fastforce simp: logItems_append)
next
  case (truncated w items w')
  then obtain segs where "wal_inv C segs w" by blast
  moreover have "wal_append C \<lparr>rec_Type = CONTROL, rec_TruncateTo = True, rec_Data = []\<rparr> w = Inr w'"
    using truncated.hyps(3) by (simp add: wal_TruncateTo_def)
  ultimately show ?case
    using wal_append_ok [OF truncated.prems, of segs w _ w'] truncated.hyps(2) by (fastforce simp: logItems_append)
next
  case (restarted w items r k options w' items')
  then obtain segs where "wal_inv C segs w" by blast
  from restart_ok [OF restarted.prems this restarted.hyps(2,3), of k options] show ?case using restarted.hyps(4) by auto
qed

subsection \<open>The log of the persistence layer\<close>

text \<open>The contract is met as long as the indexes of the files do not run out.\<close>

definition boundedAppend :: "logCodec \<times> WriteAheadLogFile \<Rightarrow> bytes \<Rightarrow> bool \<Rightarrow> walError + (logCodec \<times> WriteAheadLogFile)" where
  "boundedAppend cw data truncateTo =
     (case cw of (C, w) \<Rightarrow>
        if wal_index w + 1 = max_u64 then Inl (WalError ''file indexes exhausted'')
        else map_sum id (Pair C) (wal_Append C data truncateTo w))"

definition recoveredEntries :: "logCodec \<times> WriteAheadLogFile \<Rightarrow> bytes list" where
  "recoveredEntries cw =
     (case cw of (C, w) \<Rightarrow>
        (case InitializeAndReadAll C (wal_dir w) None of Inr (w', items) \<Rightarrow> items | Inl e \<Rightarrow> []))"

definition walReady :: "logCodec \<times> WriteAheadLogFile \<Rightarrow> bool" where
  "walReady cw \<longleftrightarrow> (case cw of (C, w) \<Rightarrow> logRoundtrip C \<and> wal_index w \<noteq> max_u64 \<and> (\<exists>segs. wal_inv C segs w))"

lemma recovered_inv:
  assumes "logRoundtrip C" "wal_inv C segs w" "wal_index w \<noteq> max_u64"
  shows "\<exists>w'. InitializeAndReadAll C (wal_dir w) options = Inr (w', logItems [] (records segs))"
  using Initialize_ok [OF assms(1), of "wal_dir w" segs options] assms(2,3) by (auto simp: wal_inv_def)

lemma wal_Append_inv:
  assumes "logRoundtrip C" "wal_inv C segs w" "wal_Append C data truncateTo w = Inr w'" "wal_index w \<noteq> max_u64"
  shows "\<exists>segs'. wal_inv C segs' w' \<and>
    logItems [] (records segs') = (if truncateTo then [data] else logItems [] (records segs) @ [data]) \<and>
    unat (wal_index w') \<le> unat (wal_index w) + 1 \<and> wal_options w' = wal_options w"
proof -
  have "wal_append C \<lparr>rec_Type = ENTRY, rec_TruncateTo = truncateTo, rec_Data = data\<rparr> w = Inr w'"
    using assms(3) by (auto simp: wal_Append_def split: if_splits)
  from wal_append_ok [OF assms(1,2) this assms(4)] show ?thesis by (auto simp: logItems_append)
qed

lemma index_below_max:
  assumes "unat (i' :: u64) \<le> unat i + 1" "i \<noteq> max_u64" "i + 1 \<noteq> max_u64"
  shows "i' \<noteq> max_u64"
proof
  assume "i' = max_u64"
  then have "unat max_u64 \<le> unat (i + 1)" using assms(1,2) by (simp add: unat_plus_one)
  then have "max_u64 \<le> i + 1" by (simp only: word_le_nat_alt)
  then show False using assms(3) by (simp add: word_order.extremum_unique)
qed

interpretation wal: write_ahead_log boundedAppend recoveredEntries walReady
proof unfold_locales
  fix cw entry truncateTo cw'
  assume ready: "walReady cw" and app: "boundedAppend cw entry truncateTo = Inr cw'"
  obtain C w segs where cw: "cw = (C, w)" "logRoundtrip C" "wal_index w \<noteq> max_u64" "wal_inv C segs w"
    using ready by (auto simp: walReady_def)
  obtain w' where w': "wal_Append C entry truncateTo w = Inr w'" "cw' = (C, w')" "wal_index w + 1 \<noteq> max_u64"
    using app cw(1) by (cases "wal_Append C entry truncateTo w") (auto simp: boundedAppend_def split: if_splits)
  obtain segs' where s: "wal_inv C segs' w'"
    "logItems [] (records segs') = (if truncateTo then [entry] else logItems [] (records segs) @ [entry])"
    "unat (wal_index w') \<le> unat (wal_index w) + 1"
    using wal_Append_inv [OF cw(2,4) w'(1) cw(3)] by blast
  have i: "wal_index w' \<noteq> max_u64" using index_below_max [OF s(3) cw(3) w'(3)] .
  show "walReady cw'" using cw(2) w'(2) s(1) i by (auto simp: walReady_def)
  show "recoveredEntries cw' = (if truncateTo then [entry] else recoveredEntries cw @ [entry])"
    using recovered_inv [OF cw(2,4,3), of None] recovered_inv [OF cw(2) s(1) i, of None] cw(1) w'(2) s(2)
    by (auto simp: recoveredEntries_def)
qed

lemma saveAll_codec:
  "saveAll C boundedAppend ps effs = Inr (ps', True) \<Longrightarrow> fst (ps_WAL ps') = fst (ps_WAL ps)"
proof (induction effs arbitrary: ps)
  case (Cons e es)
  show ?case
  proof (cases "\<exists>m. e = SaveState m")
    case False
    then show ?thesis using Cons by (cases e) auto
  next
    case True
    then obtain m where m: "e = SaveState m" by blast
    then obtain ps1 where ps1: "PersistedState_Save C boundedAppend ps m = Inr (ps1, True)"
      "saveAll C boundedAppend ps1 es = Inr (ps', True)"
      using Cons.prems by (auto simp: andThen_eq_Inr_iff split: if_splits)
    have "fst (ps_WAL ps1) = fst (ps_WAL ps)"
      using PersistedState_Save_ok [OF ps1(1)]
      by (cases "ps_WAL ps"; cases "ps_WAL ps1") (auto simp: boundedAppend_def map_sum_def split: if_splits sum.splits)
    then show ?thesis using Cons.IH [OF ps1(2)] by simp
  qed
qed simp

lemma created_ready:
  assumes "logRoundtrip C" "wal_Create C d options = Inr w"
  shows "walReady (C, w)" "recoveredEntries (C, w) = []"
proof -
  note inv = Create_inv [OF assms]
  have "wal_index w = 1" using inv by (simp add: wal_inv_def)
  then have i: "wal_index w \<noteq> max_u64" by simp
  then show "walReady (C, w)" using assms(1) inv by (auto simp: walReady_def)
  show "recoveredEntries (C, w) = []" using recovered_inv [OF assms(1) inv i, of None] by (auto simp: recoveredEntries_def)
qed

subsection \<open>An example\<close>

fun typeByte :: "LogRecord_Type \<Rightarrow> byte option" where
  "typeByte ENTRY = Some 0"
| "typeByte CONTROL = Some 1"
| "typeByte CRC_ANCHOR = Some 2"
| "typeByte (OtherType n) = None"

definition plainLogCodec :: logCodec where
  "plainLogCodec = \<lparr>marshalLogRecord = (\<lambda>r.
       case typeByte (rec_Type r) of
         None \<Rightarrow> None
       | Some t \<Rightarrow> if length (rec_Data r) < 1000 then Some (t # (if rec_TruncateTo r then 1 else 0) # rec_Data r) else None),
     unmarshalLogRecord = (\<lambda>b. case b of t # c # data \<Rightarrow>
         if t = 0 then Some \<lparr>rec_Type = ENTRY, rec_TruncateTo = (c = 1), rec_Data = data\<rparr>
         else if t = 1 then Some \<lparr>rec_Type = CONTROL, rec_TruncateTo = (c = 1), rec_Data = data\<rparr>
         else if t = 2 then Some \<lparr>rec_Type = CRC_ANCHOR, rec_TruncateTo = (c = 1), rec_Data = data\<rparr>
         else None
       | _ \<Rightarrow> None)\<rparr>"

lemma plainLogCodec_roundtrip: "logRoundtrip plainLogCodec"
proof -
  have "unmarshalLogRecord plainLogCodec b = Some r" if "marshalLogRecord plainLogCodec r = Some b" for r b
    using that by (cases r; cases "rec_Type r") (auto simp: plainLogCodec_def split: if_splits)
  moreover have "length b < 2 ^ 63" if "marshalLogRecord plainLogCodec r = Some b" for r b
    using that by (auto simp: plainLogCodec_def split: option.splits if_splits)
  ultimately show ?thesis by (simp add: logRoundtrip_def plainLogCodec_def anchorRecord_def)
qed

definition emptyDirectory :: directory where
  "emptyDirectory = \<lparr>dir_files = [], dir_copies = []\<rparr>"

definition exampleRecord :: "bytes \<Rightarrow> bool \<Rightarrow> LogRecord" where
  "exampleRecord data truncateTo = \<lparr>rec_Type = ENTRY, rec_TruncateTo = truncateTo, rec_Data = data\<rparr>"

lemma exampleRecord_writable: "length data < 1000 \<Longrightarrow> writable plainLogCodec (exampleRecord data truncateTo)"
  by (simp add: writable_def exampleRecord_def plainLogCodec_def)

lemma created_log:
  assumes "logRoundtrip C" "dir_files d = []"
  shows "\<exists>w. wal_Create C d options = Inr w \<and> wal_options w = optionsOrDefault options"
  using saveCRC_ok [OF assms(1)] assms(2)
  by (auto simp: wal_Create_def dirEmpty_def dirReadWalNames_def fileBytes_def)

lemma exampleLog: "\<exists>w. lives plainLogCodec w [[7, 8, 9]] \<and> wal_index w \<noteq> max_u64"
proof -
  obtain w where w: "wal_Create plainLogCodec emptyDirectory None = Inr w" "wal_options w = DefaultOptions"
    using created_log [OF plainLogCodec_roundtrip, of emptyDirectory None] by (auto simp: emptyDirectory_def optionsOrDefault_def)
  note inv = Create_inv [OF plainLogCodec_roundtrip w(1)]
  have i: "wal_index w = 1" using inv by (simp add: wal_inv_def)
  obtain w' where "wal_append plainLogCodec (exampleRecord [7, 8, 9] True) w = Inr w'"
    using wal_append_total [OF plainLogCodec_roundtrip inv _ exampleRecord_writable, of "[7, 8, 9]" True] i w(2)
    by (auto simp: DefaultOptions_def)
  then have a: "wal_Append plainLogCodec [7, 8, 9] True w = Inr w'" by (simp add: wal_Append_def exampleRecord_def)
  have "unat (wal_index w') \<le> 2"
    using wal_Append_inv [OF plainLogCodec_roundtrip inv a] i by auto
  then have "wal_index w' \<noteq> max_u64" by (intro unat_not_max) simp
  then show ?thesis using lives.appended [OF lives.created [OF w(1)] _ a] i by auto
qed

lemma boundedAppend_total:
  assumes "walReady (C, w)" "unat (wal_index w) < 100" "\<not> BufferSizeBytes (wal_options w) < 0" "data \<noteq> []"
    and "writable C \<lparr>rec_Type = ENTRY, rec_TruncateTo = truncateTo, rec_Data = data\<rparr>"
  shows "\<exists>w'. boundedAppend (C, w) data truncateTo = Inr (C, w') \<and> walReady (C, w') \<and>
    unat (wal_index w') \<le> unat (wal_index w) + 1 \<and> wal_options w' = wal_options w"
proof -
  obtain segs where s: "logRoundtrip C" "wal_index w \<noteq> max_u64" "wal_inv C segs w" using assms(1) by (auto simp: walReady_def)
  obtain w' where w': "wal_Append C data truncateTo w = Inr w'"
    using wal_append_total [OF s(1,3,2) assms(5,3)] assms(4) by (auto simp: wal_Append_def)
  have "unat (wal_index w + 1) < 2 ^ 64 - 1" using assms(2) s(2) by (simp add: unat_plus_one)
  then have "wal_index w + 1 \<noteq> max_u64" by (rule unat_not_max)
  then have b: "boundedAppend (C, w) data truncateTo = Inr (C, w')" using w' by (simp add: boundedAppend_def)
  then show ?thesis using wal.append_invar [OF assms(1) b] wal_Append_inv [OF s(1,3) w' s(2)] by auto
qed

text \<open>The records a view saves, and their way through the log.\<close>

fun savesOf :: "viewEffect list \<Rightarrow> SavedMessage list" where
  "savesOf [] = []"
| "savesOf (SaveState m # es) = m # savesOf es"
| "savesOf (e # es) = savesOf es"

fun proposedThenCommitted :: "SavedMessage list \<Rightarrow> bool" where
  "proposedThenCommitted [SavedProposedRecord pp prp, SavedCommit (CommitMsg c)] = (pp_Proposal pp \<noteq> None)"
| "proposedThenCommitted _ = False"

lemma saveAll_saves: "saveAll C f ps effs = saveAll C f ps (map SaveState (savesOf effs))"
  by (induction effs arbitrary: ps rule: savesOf.induct) (auto simp: andThen_def split: sum.splits)

lemma Save_total:
  assumes "recordInFlight ps m = Inr ps0" "ps_WAL ps = (C, w)" "walReady (C, w)" "unat (wal_index w) < 100"
    and "\<not> BufferSizeBytes (wal_options w) < 0" "marshalSaved SC m \<noteq> []"
    and "writable C \<lparr>rec_Type = ENTRY, rec_TruncateTo = isProposedRecord m, rec_Data = marshalSaved SC m\<rparr>"
  shows "\<exists>w'. PersistedState_Save SC boundedAppend ps m = Inr (ps0\<lparr>ps_WAL := (C, w')\<rparr>, True) \<and> walReady (C, w') \<and>
    unat (wal_index w') \<le> unat (wal_index w) + 1 \<and> wal_options w' = wal_options w"
  using boundedAppend_total [OF assms(3-7)] recordInFlight_wal [OF assms(1)] assms(1,2)
  by (auto simp: PersistedState_Save_def)

subsection \<open>Properties\<close>

text \<open>
  C6: the log survives crashes. Take a log that was created, appended to, truncated, and crashed and restarted any number
  of times. If the next write is torn after any number of bytes, \<open>InitializeAndReadAll\<close> succeeds, with a repair if
  need be, and returns exactly the entries since the last truncation point; the torn record counts if and only if
  all of its frame was written, and the log accepts writes again.
\<close>

theorem log_survives_crashes:
  assumes "logRoundtrip C" "lives C w items" "wal_index w \<noteq> max_u64" "writable C r"
  shows "\<exists>w'. InitializeAndReadAll C (tornWrite C r k w) options =
      Inr (w', if k < length (recordFrame C (wal_crc w) r) then items else logItems items [r]) \<and>
    wal_open w' \<and> \<not> wal_readMode w'"
proof -
  obtain segs where s: "wal_inv C segs w" "logItems [] (records segs) = items" using lives_inv [OF assms(2,1)] by blast
  show ?thesis using restart_ok [OF assms(1) s(1) assms(3,4), of k options] s(2) by (auto simp: wal_inv_def logItems_append)
qed

theorem log_survives_crashes_witness:
  "\<exists>w w'. lives plainLogCodec w [[7, 8, 9]] \<and>
     InitializeAndReadAll plainLogCodec (tornWrite plainLogCodec (exampleRecord [1, 2] False) 11 w) None = Inr (w', [[7, 8, 9]])"
proof -
  obtain w where w: "lives plainLogCodec w [[7, 8, 9]]" "wal_index w \<noteq> max_u64" using exampleLog by blast
  have "length (recordFrame plainLogCodec (wal_crc w) (exampleRecord [1, 2] False)) = 16"
    by (simp add: recordFrame_def frame_def recordBytes_def plainLogCodec_def exampleRecord_def padded_def getPadBytes_def
        getPadSize_def)
  then show ?thesis
    using log_survives_crashes [OF plainLogCodec_roundtrip w exampleRecord_writable, of "[1, 2]" False 11 None] w(1) by auto
qed

text \<open>
  C12: a node recovers through its log. Let a view write its records through \<open>PersistedState.Save\<close> to a fresh write
  ahead log and crash before it aborts. \<open>InitializeAndReadAll\<close> then reads back entries from which \<open>NewProposer\<close> makes a
  view in the same phase, at the same sequence, with the same proposal in flight, last message and signature.
\<close>

theorem node_recovers_through_log:
  assumes "freshRun C v steps v' effs" "v_Phase v' \<noteq> ABORT" "savedRoundtrip C (savedLog [] effs)"
    and "logRoundtrip LC" "wal_Create LC d options = Inr w0" "ps_WAL ps0 = (LC, w0)"
    and "saveAll C boundedAppend ps0 effs = Inr (ps1, True)" "\<not> pm_restored pm"
  shows "\<exists>w1 entries. InitializeAndReadAll LC (wal_dir (snd (ps_WAL ps1))) None = Inr (w1, entries) \<and>
    (\<exists>w ps' pm'. NewProposer C \<lparr>ps_InFlightProposal = None, ps_Entries = entries, ps_WAL = w1\<rparr> pm leader
       (v_ProposalSequence v') (v_Number v') (v_DecisionsInView v') q = Inr (w, ps', pm') \<and>
       resumes v' w \<and> restoredInFlight v' (ps_InFlightProposal ps'))"
proof -
  have r: "walReady (ps_WAL ps1)" "recoveredEntries (ps_WAL ps1) = logAfter [] (appendsOf C effs)"
    using wal.saveAll_recovered [OF assms(7)] created_ready [OF assms(4,5)] assms(6) by simp_all
  obtain C1 w segs where w: "ps_WAL ps1 = (C1, w)" "logRoundtrip C1" "wal_index w \<noteq> max_u64" "wal_inv C1 segs w"
    using r(1) by (auto simp: walReady_def)
  have "C1 = LC" using saveAll_codec [OF assms(7)] assms(6) w(1) by simp
  then obtain w1 where w1: "InitializeAndReadAll LC (wal_dir w) None = Inr (w1, logAfter [] (appendsOf C effs))"
    using recovered_inv [OF w(2,4,3), of None] r(2) w(1) by (auto simp: recoveredEntries_def)
  let ?ps = "\<lparr>ps_InFlightProposal = None, ps_Entries = logAfter [] (appendsOf C effs), ps_WAL = w1\<rparr>"
  have "ps_Entries ?ps = map (marshalSaved C) (savedLog [] effs)"
    using logAfter_savedLog [of C "[]" effs] by simp
  note restored = NewProposer_restores [OF freshRun_log [OF assms(1)] assms(2,3) this assms(8), of leader q]
  show ?thesis
    by (rule exI [of _ w1], rule exI [of _ "logAfter [] (appendsOf C effs)"]) (use w1 w(1) restored in auto)
qed

theorem node_recovers_through_log_witness:
  "\<exists>d w1 entries w ps' pm'. InitializeAndReadAll plainLogCodec d None = Inr (w1, entries) \<and>
     NewProposer recoveryCodec \<lparr>ps_InFlightProposal = None, ps_Entries = entries, ps_WAL = w1\<rparr> exampleMaker 1
       1 0 0 3 = Inr (w, ps', pm') \<and>
     resumes crashedView w \<and> restoredInFlight crashedView (ps_InFlightProposal ps')"
proof -
  obtain w0 where w0: "wal_Create plainLogCodec emptyDirectory None = Inr w0" "wal_options w0 = DefaultOptions"
    using created_log [OF plainLogCodec_roundtrip, of emptyDirectory None] by (auto simp: emptyDirectory_def optionsOrDefault_def)
  have i0: "wal_index w0 = 1" using Create_inv [OF plainLogCodec_roundtrip w0(1)] by (simp add: wal_inv_def)
  let ?ps0 = "\<lparr>ps_InFlightProposal = None, ps_Entries = [], ps_WAL = (plainLogCodec, w0)\<rparr>"
  have "proposedThenCommitted (savesOf crashedEffects)" by code_simp
  then obtain pp prp c p where sv: "savesOf crashedEffects = [SavedProposedRecord pp prp, SavedCommit (CommitMsg c)]"
    "pp_Proposal pp = Some p"
    by (cases "savesOf crashedEffects" rule: proposedThenCommitted.cases) auto
  have m: "marshalSaved recoveryCodec (SavedProposedRecord pp prp) = [1]" "marshalSaved recoveryCodec (SavedCommit (CommitMsg c)) = [2]"
    by (simp_all add: recoveryCodec_def)
  have wr: "writable plainLogCodec \<lparr>rec_Type = ENTRY, rec_TruncateTo = t, rec_Data = [x]\<rparr>" for t x
    using exampleRecord_writable [of "[x]" t] by (simp add: exampleRecord_def)
  obtain ps1 w1 where s1: "PersistedState_Save recoveryCodec boundedAppend ?ps0 (SavedProposedRecord pp prp) = Inr (ps1, True)"
    "ps_WAL ps1 = (plainLogCodec, w1)" "walReady (plainLogCodec, w1)" "unat (wal_index w1) \<le> 2" "wal_options w1 = DefaultOptions"
    "InFlightProposal (ps_InFlightProposal ps1) \<noteq> None"
    using Save_total [of ?ps0 "SavedProposedRecord pp prp" _ plainLogCodec w0 recoveryCodec] created_ready(1) [OF plainLogCodec_roundtrip w0(1)]
      i0 w0(2) m(1) wr sv(2)
    by (auto simp: recordInFlight_def storeProposal_def DefaultOptions_def StoreProposal_def InFlightProposal_def)
  obtain ps2 where s2: "PersistedState_Save recoveryCodec boundedAppend ps1 (SavedCommit (CommitMsg c)) = Inr (ps2, True)"
    using Save_total [of ps1 "SavedCommit (CommitMsg c)" _ plainLogCodec w1 recoveryCodec] s1(2-6) m(2) wr
    by (auto simp: recordInFlight_def storePrepared_def DefaultOptions_def StorePrepares_def)
  have "saveAll recoveryCodec boundedAppend ?ps0 crashedEffects = Inr (ps2, True)"
    unfolding saveAll_saves [of _ _ _ crashedEffects] sv(1) using s1(1) s2 by simp
  moreover have "v_Phase crashedView \<noteq> ABORT" "\<not> pm_restored exampleMaker" using crashLog(3) by (simp_all add: exampleMaker_def)
  ultimately show ?thesis
    using node_recovers_through_log [OF crashRun _ crashLog(1) plainLogCodec_roundtrip w0(1), of ?ps0 ps2 exampleMaker 1 3] crashLog(4-6)
    by (simp del: ex_simps) blast
qed

subsection \<open>A defect\<close>

text \<open>
  A crash while the next file is being created leaves a file without a complete anchor. \<open>Open\<close> then returns
  \<open>io.ErrUnexpectedEOF\<close>, which \<open>Repair\<close> is documented for and would cure, but \<open>InitializeAndReadAll\<close> repairs only when
  \<open>ReadAll\<close> fails: the node does not start.
\<close>

definition tornAnchorDirectory :: directory where
  "tornAnchorDirectory = \<lparr>dir_files = [(1, frame walCRCSeed [2, 0]), (2, take 5 (frame walCRCSeed [2, 0]))], dir_copies = []\<rparr>"

theorem torn_anchor_not_repaired:
  "InitializeAndReadAll plainLogCodec tornAnchorDirectory None = Inl (Wrapped ''Cannot open Write-Ahead-Log'' ErrUnexpectedEOF) \<and>
   (case wal_Repair plainLogCodec tornAnchorDirectory of
      Inr d \<Rightarrow> (case InitializeAndReadAll plainLogCodec d None of Inr (w, items) \<Rightarrow> items = [] | Inl _ \<Rightarrow> False)
    | Inl _ \<Rightarrow> False)"
  by code_simp

end
