(* ===== verification/InFlightCheck.thy ===== *)
theory InFlightCheck
  imports Agreement
begin

text \<open>
  The checks of the view change that need no state (internal/bft/viewchanger.go):
  \<open>ValidateLastDecision\<close>, \<open>ValidateInFlight\<close>, \<open>maxLastDecisionSequence\<close> and \<open>CheckInFlight\<close>, a reference
  definition of the latter in terms of the messages alone, and its safety: a proposal that may have been decided in
  the old view is never dropped.

  An error return is a string, a panic an \<open>Inl\<close> outcome. A counter of the code is a \<open>nat\<close> here.
\<close>

subsection \<open>The last decision\<close>

fun lastDecisionSigs :: "(Signature \<Rightarrow> bool) \<Rightarrow> Signature list \<Rightarrow> u64 list \<Rightarrow> nat \<Rightarrow> string + nat" where
  "lastDecisionSigs verify [] nodesMap validSig = Inr validSig"
| "lastDecisionSigs verify (sig # sigs) nodesMap validSig =
     (if Signer sig \<in> set nodesMap then lastDecisionSigs verify sigs nodesMap validSig
      else if \<not> verify sig then Inl ''last decision signature is invalid''
      else lastDecisionSigs verify sigs (Signer sig # nodesMap) (Suc validSig))"

definition ValidateLastDecision ::
  "codec \<Rightarrow> (Signature \<Rightarrow> Proposal \<Rightarrow> bytes option) \<Rightarrow> ViewData \<Rightarrow> int \<Rightarrow> string + u64" where
  "ValidateLastDecision C verifyConsenterSig vd quorum =
     (case vd_LastDecision vd of
        None \<Rightarrow> Inl ''the last decision is not set''
      | Some lastDecision \<Rightarrow>
          (case Metadata lastDecision of
             None \<Rightarrow> Inr 0
           | Some raw \<Rightarrow>
               (case unmarshalMetadata C raw of
                  None \<Rightarrow> Inl ''unable to unmarshal last decision metadata''
                | Some md \<Rightarrow>
                    if ViewId md \<ge> vd_NextView vd
                    then Inl ''last decision view is greater or equal to requested next view''
                    else if int (length (vd_LastDecisionSignatures vd)) < quorum
                    then Inl ''not enough last decision signatures''
                    else case lastDecisionSigs (\<lambda>sig. verifyConsenterSig sig lastDecision \<noteq> None)
                                (vd_LastDecisionSignatures vd) [] 0 of
                      Inl err \<Rightarrow> Inl err
                    | Inr validSig \<Rightarrow>
                        if int validSig < quorum then Inl ''not enough valid last decision signatures''
                        else Inr (LatestSequence md))))"

definition ValidateInFlight :: "codec \<Rightarrow> Proposal option \<Rightarrow> u64 \<Rightarrow> string option" where
  "ValidateInFlight C inFlightProposal lastSequence =
     (case inFlightProposal of
        None \<Rightarrow> None
      | Some p \<Rightarrow>
          (case Metadata p of
             None \<Rightarrow> Some ''in flight proposal metadata is nil''
           | Some raw \<Rightarrow>
               (case unmarshalMetadata C raw of
                  None \<Rightarrow> Some ''unable to unmarshal the in flight proposal metadata''
                | Some md \<Rightarrow>
                    if LatestSequence md \<noteq> lastSequence + 1
                    then Some ''the in flight proposal sequence does not follow the last decision''
                    else None)))"

subsection \<open>The proposal in flight\<close>

fun maxLastDecisionLoop :: "codec \<Rightarrow> ViewData list \<Rightarrow> u64 \<Rightarrow> u64 outcome" where
  "maxLastDecisionLoop C [] m = Inr m"
| "maxLastDecisionLoop C (vd # vds) m =
     (case vd_LastDecision vd of
        None \<Rightarrow> Inl (Panic ''The last decision is not set'')
      | Some p \<Rightarrow>
          (case Metadata p of
             None \<Rightarrow> maxLastDecisionLoop C vds m
           | Some raw \<Rightarrow>
               (case unmarshalMetadata C raw of
                  None \<Rightarrow> Inl (Panic ''Unable to unmarshal the last decision metadata'')
                | Some md \<Rightarrow> maxLastDecisionLoop C vds (if LatestSequence md > m then LatestSequence md else m))))"

definition maxLastDecisionSequence :: "codec \<Rightarrow> ViewData list \<Rightarrow> u64 outcome" where
  "maxLastDecisionSequence C messages = maxLastDecisionLoop C messages 0"

record possibleProposal =
  pos_proposal :: Proposal
  pos_preprepared :: nat
  pos_noArgument :: nat

record proposalAndMetadata =
  pam_proposal :: "Proposal option"
  pam_metadata :: "ViewMetadata option"

record inFlightSurvey =
  sv_possible :: "possibleProposal list"
  sv_all :: "proposalAndMetadata list"
  sv_noInFlight :: nat

definition noteAll :: "inFlightSurvey \<Rightarrow> Proposal option \<Rightarrow> ViewMetadata option \<Rightarrow> inFlightSurvey" where
  "noteAll sv p md = sv\<lparr>sv_all := sv_all sv @ [\<lparr>pam_proposal = p, pam_metadata = md\<rparr>]\<rparr>"

definition notePossible :: "inFlightSurvey \<Rightarrow> Proposal \<Rightarrow> inFlightSurvey" where
  "notePossible sv p =
     (if \<exists>q\<in>set (sv_possible sv). proposalEqual (pos_proposal q) p then sv
      else sv\<lparr>sv_possible := sv_possible sv @ [\<lparr>pos_proposal = p, pos_preprepared = 0, pos_noArgument = 0\<rparr>]\<rparr>)"

definition noteNone :: "inFlightSurvey \<Rightarrow> inFlightSurvey" where
  "noteNone sv = sv\<lparr>sv_noInFlight := Suc (sv_noInFlight sv)\<rparr>"

text \<open>The first loop of \<open>CheckInFlight\<close>.\<close>

fun surveyInFlight :: "codec \<Rightarrow> u64 \<Rightarrow> ViewData list \<Rightarrow> inFlightSurvey \<Rightarrow> string + inFlightSurvey" where
  "surveyInFlight C expectedSequence [] sv = Inr sv"
| "surveyInFlight C expectedSequence (vd # vds) sv =
     (case vd_InFlightProposal vd of
        None \<Rightarrow> surveyInFlight C expectedSequence vds (noteAll (noteNone sv) None None)
      | Some p \<Rightarrow>
          (case Metadata p of
             None \<Rightarrow> Inl ''in flight proposal metadata is nil''
           | Some raw \<Rightarrow>
               (case unmarshalMetadata C raw of
                  None \<Rightarrow> Inl ''unable to unmarshal the in flight proposal metadata''
                | Some md \<Rightarrow>
                    let sv1 = noteAll sv (Some p) (Some md) in
                    if LatestSequence md \<noteq> expectedSequence
                    then surveyInFlight C expectedSequence vds (noteNone sv1)
                    else if \<not> vd_InFlightPrepared vd then surveyInFlight C expectedSequence vds (noteNone sv1)
                    else surveyInFlight C expectedSequence vds (notePossible sv1 p))))"

text \<open>The body of the two nested loops that fill in the counters.\<close>

definition countPossible :: "u64 \<Rightarrow> proposalAndMetadata \<Rightarrow> possibleProposal \<Rightarrow> possibleProposal" where
  "countPossible expectedSequence prop possible =
     (case (pam_proposal prop, pam_metadata prop) of
        (Some p, Some md) \<Rightarrow>
          if LatestSequence md \<noteq> expectedSequence
          then possible\<lparr>pos_noArgument := Suc (pos_noArgument possible)\<rparr>
          else if proposalEqual p (pos_proposal possible)
          then possible\<lparr>pos_noArgument := Suc (pos_noArgument possible),
                        pos_preprepared := Suc (pos_preprepared possible)\<rparr>
          else possible
      | _ \<Rightarrow> possible\<lparr>pos_noArgument := Suc (pos_noArgument possible)\<rparr>)"

definition fillInfo :: "u64 \<Rightarrow> proposalAndMetadata list \<Rightarrow> possibleProposal list \<Rightarrow> possibleProposal list" where
  "fillInfo expectedSequence props possibles =
     fold (\<lambda>prop ps. map (countPossible expectedSequence prop) ps) props possibles"

text \<open>The results are \<open>ok\<close>, \<open>noInFlight\<close> and the proposal.\<close>

type_synonym inFlightResult = "bool \<times> bool \<times> Proposal option"

definition CheckInFlight ::
  "codec \<Rightarrow> ViewData list \<Rightarrow> int \<Rightarrow> int \<Rightarrow> (string + inFlightResult) outcome" where
  "CheckInFlight C messages f quorum =
     andThen (maxLastDecisionSequence C messages) (\<lambda>m.
       let expectedSequence = m + 1 in
       case surveyInFlight C expectedSequence messages \<lparr>sv_possible = [], sv_all = [], sv_noInFlight = 0\<rparr> of
         Inl err \<Rightarrow> Inr (Inl err)
       | Inr sv \<Rightarrow>
           Inr (Inr (case find (\<lambda>possible. \<not> int (pos_preprepared possible) < f + 1 \<and>
                                           \<not> int (pos_noArgument possible) < quorum)
                       (fillInfo expectedSequence (sv_all sv) (sv_possible sv)) of
                  Some possible \<Rightarrow> (True, False, Some (pos_proposal possible))
                | None \<Rightarrow> if int (sv_noInFlight sv) \<ge> quorum then (True, True, None)
                          else (False, False, None))))"

subsection \<open>The reference definition\<close>

text \<open>The proposal a node reports as in flight at a sequence.\<close>

definition inFlightAt :: "codec \<Rightarrow> u64 \<Rightarrow> ViewData \<Rightarrow> Proposal option" where
  "inFlightAt C s vd =
     (case vd_InFlightProposal vd of
        None \<Rightarrow> None
      | Some p \<Rightarrow>
          (case unmarshalMetadata C (bytes_of (Metadata p)) of
             None \<Rightarrow> None
           | Some md \<Rightarrow> if LatestSequence md = s then Some p else None))"

definition preparedAt :: "codec \<Rightarrow> u64 \<Rightarrow> ViewData \<Rightarrow> Proposal option" where
  "preparedAt C s vd = (if vd_InFlightPrepared vd then inFlightAt C s vd else None)"

definition prepreparesAt :: "codec \<Rightarrow> u64 \<Rightarrow> Proposal \<Rightarrow> ViewData \<Rightarrow> bool" where
  "prepreparesAt C s p vd = (case inFlightAt C s vd of None \<Rightarrow> False | Some q \<Rightarrow> proposalEqual q p)"

definition noArgumentAt :: "codec \<Rightarrow> u64 \<Rightarrow> Proposal \<Rightarrow> ViewData \<Rightarrow> bool" where
  "noArgumentAt C s p vd = (case inFlightAt C s vd of None \<Rightarrow> True | Some q \<Rightarrow> proposalEqual q p)"

text \<open>Conditions A and B of the protocol.\<close>

definition conditionA :: "codec \<Rightarrow> u64 \<Rightarrow> ViewData list \<Rightarrow> int \<Rightarrow> int \<Rightarrow> Proposal \<Rightarrow> bool" where
  "conditionA C s messages f quorum p \<longleftrightarrow>
     f + 1 \<le> int (length (filter (prepreparesAt C s p) messages)) \<and>
     quorum \<le> int (length (filter (noArgumentAt C s p) messages))"

definition conditionB :: "codec \<Rightarrow> u64 \<Rightarrow> ViewData list \<Rightarrow> int \<Rightarrow> bool" where
  "conditionB C s messages quorum \<longleftrightarrow>
     quorum \<le> int (length (filter (\<lambda>vd. preparedAt C s vd = None) messages))"

definition checkInFlightSpec :: "codec \<Rightarrow> u64 \<Rightarrow> ViewData list \<Rightarrow> int \<Rightarrow> int \<Rightarrow> inFlightResult" where
  "checkInFlightSpec C s messages f quorum =
     (case find (conditionA C s messages f quorum) (List.map_filter (preparedAt C s) messages) of
        Some p \<Rightarrow> (True, False, Some p)
      | None \<Rightarrow> if conditionB C s messages quorum then (True, True, None) else (False, False, None))"

text \<open>Messages that passed the validation decode.\<close>

definition decodes :: "codec \<Rightarrow> ViewData \<Rightarrow> bool" where
  "decodes C vd \<longleftrightarrow>
     (case vd_LastDecision vd of None \<Rightarrow> False
      | Some p \<Rightarrow> (case Metadata p of None \<Rightarrow> True | Some raw \<Rightarrow> unmarshalMetadata C raw \<noteq> None)) \<and>
     (case vd_InFlightProposal vd of None \<Rightarrow> True
      | Some p \<Rightarrow> (case Metadata p of None \<Rightarrow> False | Some raw \<Rightarrow> unmarshalMetadata C raw \<noteq> None))"

subsection \<open>The survey computes the reference\<close>

definition freshPossible :: "Proposal \<Rightarrow> possibleProposal" where
  "freshPossible p = \<lparr>pos_proposal = p, pos_preprepared = 0, pos_noArgument = 0\<rparr>"

definition reported :: "codec \<Rightarrow> ViewData \<Rightarrow> proposalAndMetadata" where
  "reported C vd = \<lparr>pam_proposal = vd_InFlightProposal vd,
     pam_metadata = (case vd_InFlightProposal vd of None \<Rightarrow> None
                     | Some p \<Rightarrow> unmarshalMetadata C (bytes_of (Metadata p)))\<rparr>"

fun addNew :: "Proposal list \<Rightarrow> Proposal list \<Rightarrow> Proposal list" where
  "addNew acc [] = acc"
| "addNew acc (p # ps) = addNew (if \<exists>q\<in>set acc. proposalEqual q p then acc else acc @ [p]) ps"

lemma find_append: "find P (xs @ ys) = (case find P xs of None \<Rightarrow> find P ys | Some x \<Rightarrow> Some x)"
  by (induction xs) auto

lemma find_addNew:
  assumes "\<And>p q. proposalEqual p q \<Longrightarrow> P p = P q"
  shows "find P (addNew acc ps) = find P (acc @ ps)"
proof (induction acc ps rule: addNew.induct)
  case (2 acc p ps)
  show ?case
  proof (cases "\<exists>q\<in>set acc. proposalEqual q p")
    case True
    then obtain q where q: "q \<in> set acc" "P q = P p" using assms by blast
    have "find P acc \<noteq> None" if "P p" using q that by (auto simp: find_None_iff)
    then show ?thesis using 2 True by (auto simp: find_append split: option.splits)
  qed (use 2 in simp)
qed simp

lemma notePossible_map:
  "sv_possible sv = map freshPossible acc \<Longrightarrow>
   sv_possible (notePossible sv p) =
     map freshPossible (if \<exists>q\<in>set acc. proposalEqual q p then acc else acc @ [p])"
  by (auto simp: notePossible_def freshPossible_def)

lemma survey_fields [simp]:
  "sv_possible (noteAll sv p md) = sv_possible sv" "sv_possible (noteNone sv) = sv_possible sv"
  "sv_all (noteAll sv p md) = sv_all sv @ [\<lparr>pam_proposal = p, pam_metadata = md\<rparr>]" "sv_all (noteNone sv) = sv_all sv"
  "sv_all (notePossible sv q) = sv_all sv" "sv_noInFlight (notePossible sv q) = sv_noInFlight sv"
  "sv_noInFlight (noteAll sv p md) = sv_noInFlight sv" "sv_noInFlight (noteNone sv) = Suc (sv_noInFlight sv)"
  by (simp_all add: noteAll_def noteNone_def notePossible_def)

lemma surveyInFlight_result:
  assumes "\<forall>vd\<in>set vds. decodes C vd" "sv_possible sv = map freshPossible acc"
  shows "\<exists>sv'. surveyInFlight C s vds sv = Inr sv' \<and> sv_all sv' = sv_all sv @ map (reported C) vds \<and>
    sv_noInFlight sv' = sv_noInFlight sv + length (filter (\<lambda>vd. preparedAt C s vd = None) vds) \<and>
    sv_possible sv' = map freshPossible (addNew acc (List.map_filter (preparedAt C s) vds))"
  using assms
proof (induction C s vds sv arbitrary: acc rule: surveyInFlight.induct)
  case (2 C s vd vds sv)
  have rest: "\<forall>vd\<in>set vds. decodes C vd" and d: "decodes C vd" using 2 by auto
  show ?case
  proof (cases "vd_InFlightProposal vd")
    case None
    then have "preparedAt C s vd = None" by (simp add: preparedAt_def inFlightAt_def)
    then show ?thesis
      using None 2(1) [OF None rest, of acc] 2(6) by (auto simp: reported_def map_filter_simps)
  next
    case (Some p)
    then obtain raw md where r: "Metadata p = Some raw" "unmarshalMetadata C raw = Some md"
      using d by (auto simp: decodes_def split: option.splits)
    let ?sv1 = "noteAll sv (Some p) (Some md)"
    have rep: "reported C vd = \<lparr>pam_proposal = Some p, pam_metadata = Some md\<rparr>"
      using Some r by (simp add: reported_def bytes_of_def)
    show ?thesis
    proof (cases "LatestSequence md = s \<and> vd_InFlightPrepared vd")
      case True
      then have p: "preparedAt C s vd = Some p"
        using Some r by (simp add: preparedAt_def inFlightAt_def bytes_of_def)
      have "surveyInFlight C s (vd # vds) sv = surveyInFlight C s vds (notePossible ?sv1 p)"
        using Some r True by simp
      moreover note 2(4) [OF Some r refl _ _ rest notePossible_map [of ?sv1 acc p]]
      ultimately show ?thesis using True 2(6) p rep by (simp add: map_filter_simps)
    next
      case False
      then have p: "preparedAt C s vd = None"
        using Some r by (simp add: preparedAt_def inFlightAt_def bytes_of_def)
      have "surveyInFlight C s (vd # vds) sv = surveyInFlight C s vds (noteNone ?sv1)"
        using Some r False by (auto simp: Let_def)
      moreover have "\<exists>sv'. surveyInFlight C s vds (noteNone ?sv1) = Inr sv' \<and>
          sv_all sv' = sv_all (noteNone ?sv1) @ map (reported C) vds \<and>
          sv_noInFlight sv' = sv_noInFlight (noteNone ?sv1) + length (filter (\<lambda>vd. preparedAt C s vd = None) vds) \<and>
          sv_possible sv' = map freshPossible (addNew acc (List.map_filter (preparedAt C s) vds))"
        using 2(2) [OF Some r refl _ rest, of acc] 2(3) [OF Some r refl _ _ rest, of acc] False 2(6) by auto
      ultimately show ?thesis using p rep by (simp add: map_filter_simps)
    qed
  qed
qed (simp add: map_filter_simps)

lemma fold_map_commute: "fold (\<lambda>x ps. map (f x) ps) xs ps = map (fold f xs) ps"
  by (induction xs arbitrary: ps) (auto simp: comp_def)

lemma countPossible_reported:
  assumes "decodes C vd"
  shows "countPossible s (reported C vd) q = q\<lparr>
    pos_preprepared := pos_preprepared q + (if prepreparesAt C s (pos_proposal q) vd then 1 else 0),
    pos_noArgument := pos_noArgument q + (if noArgumentAt C s (pos_proposal q) vd then 1 else 0)\<rparr>"
  using assms
  by (auto simp: countPossible_def reported_def prepreparesAt_def noArgumentAt_def inFlightAt_def decodes_def bytes_of_def
      split: option.splits)

lemma fold_countPossible:
  "\<forall>vd\<in>set vds. decodes C vd \<Longrightarrow>
   fold (countPossible s) (map (reported C) vds) q = q\<lparr>
     pos_preprepared := pos_preprepared q + length (filter (prepreparesAt C s (pos_proposal q)) vds),
     pos_noArgument := pos_noArgument q + length (filter (noArgumentAt C s (pos_proposal q)) vds)\<rparr>"
  by (induction vds arbitrary: q) (auto simp: countPossible_reported)

lemma conditionA_cong: "proposalEqual p q \<Longrightarrow> conditionA C s vds f k p = conditionA C s vds f k q"
proof -
  assume e: "proposalEqual p q"
  have "proposalEqual r p = proposalEqual r q" for r
    using e proposalEqual_trans proposalEqual_sym by blast
  then have "prepreparesAt C s p = prepreparesAt C s q" "noArgumentAt C s p = noArgumentAt C s q"
    by (auto simp: fun_eq_iff prepreparesAt_def noArgumentAt_def split: option.splits)
  then show ?thesis by (simp add: conditionA_def)
qed

lemma find_map_conv: "find P (map f xs) = map_option f (find (\<lambda>x. P (f x)) xs)"
  by (induction xs) auto

lemma maxLastDecision_total:
  "\<forall>vd\<in>set vds. decodes C vd \<Longrightarrow> \<exists>m'. maxLastDecisionLoop C vds m = Inr m'"
  by (induction C vds m rule: maxLastDecisionLoop.induct) (auto simp: decodes_def split: option.splits)

lemma CheckInFlight_reference:
  assumes "\<forall>vd\<in>set vds. decodes C vd" "maxLastDecisionSequence C vds = Inr m"
  shows "CheckInFlight C vds f k = Inr (Inr (checkInFlightSpec C (m + 1) vds f k))"
proof -
  let ?s = "m + 1" and ?cands = "List.map_filter (preparedAt C (m + 1)) vds"
  let ?ok = "\<lambda>possible. \<not> int (pos_preprepared possible) < f + 1 \<and> \<not> int (pos_noArgument possible) < k"
  obtain sv where sv: "surveyInFlight C ?s vds \<lparr>sv_possible = [], sv_all = [], sv_noInFlight = 0\<rparr> = Inr sv"
    "sv_all sv = map (reported C) vds"
    "sv_noInFlight sv = length (filter (\<lambda>vd. preparedAt C ?s vd = None) vds)"
    "sv_possible sv = map freshPossible (addNew [] ?cands)"
    using surveyInFlight_result [OF assms(1), of "\<lparr>sv_possible = [], sv_all = [], sv_noInFlight = 0\<rparr>" "[]" ?s] by auto
  let ?g = "\<lambda>p. fold (countPossible ?s) (map (reported C) vds) (freshPossible p)"
  have g: "?g p = \<lparr>pos_proposal = p, pos_preprepared = length (filter (prepreparesAt C ?s p) vds),
      pos_noArgument = length (filter (noArgumentAt C ?s p) vds)\<rparr>" for p
    using fold_countPossible [OF assms(1)] by (simp add: freshPossible_def)
  have "?ok (?g p) = conditionA C ?s vds f k p" for p by (simp add: g conditionA_def) linarith
  then have "find ?ok (fillInfo ?s (sv_all sv) (sv_possible sv)) =
      map_option ?g (find (conditionA C ?s vds f k) (addNew [] ?cands))"
    by (simp add: fillInfo_def fold_map_commute sv find_map_conv comp_def)
  also have "find (conditionA C ?s vds f k) (addNew [] ?cands) = find (conditionA C ?s vds f k) ?cands"
    using find_addNew [of "conditionA C ?s vds f k" "[]"] conditionA_cong by auto
  finally show ?thesis
    using assms(2) sv(1,3) g
    by (simp add: CheckInFlight_def checkInFlightSpec_def conditionB_def Let_def split: option.splits)
qed

subsection \<open>A quorum of signatures\<close>

lemma lastDecisionSigs_count:
  assumes "lastDecisionSigs verify sigs nodesMap k = Inr n"
  shows "n = k + card (Signer ` set sigs - set nodesMap) \<and>
    (\<forall>i\<in>Signer ` set sigs - set nodesMap. \<exists>sig\<in>set sigs. Signer sig = i \<and> verify sig)"
  using assms
proof (induction verify sigs nodesMap k rule: lastDecisionSigs.induct)
  case (2 verify sig sigs nodesMap k)
  show ?case
  proof (cases "Signer sig \<in> set nodesMap")
    case True
    then show ?thesis using 2 by (auto simp: insert_Diff_if)
  next
    case False
    then have v: "verify sig" and r: "lastDecisionSigs verify sigs (Signer sig # nodesMap) (Suc k) = Inr n"
      using 2(3) by (auto split: if_splits)
    note ih = 2(2) [OF False _ r]
    have "Signer ` set (sig # sigs) - set nodesMap =
        insert (Signer sig) (Signer ` set sigs - set (Signer sig # nodesMap))"
      using False by auto
    moreover have "Signer sig \<notin> Signer ` set sigs - set (Signer sig # nodesMap)" by simp
    ultimately show ?thesis using ih v by auto
  qed
qed simp

subsection \<open>The safety of the check\<close>

text \<open>The view data of nodes, each with its signer; a vote of a quorum of signers meets every other quorum.\<close>

definition fromMembers :: "u64 list \<Rightarrow> (u64 \<times> ViewData) list \<Rightarrow> bool" where
  "fromMembers nodes msgs \<longleftrightarrow> distinct (map fst msgs) \<and> fst ` set msgs \<subseteq> set nodes"

lemma filter_is_quorum:
  assumes "fromMembers nodes msgs" "int (quorumSize nodes) \<le> int (length (filter P (map snd msgs)))"
  shows "isQuorum nodes {x. \<exists>vd. (x, vd) \<in> set msgs \<and> P vd}"
proof -
  let ?kept = "filter (\<lambda>m. P (snd m)) msgs"
  have "distinct (map fst ?kept)"
    using assms(1) by (simp add: fromMembers_def distinct_map_filter)
  then have "card (set (map fst ?kept)) = length ?kept" using distinct_card by fastforce
  moreover have "set (map fst ?kept) = {x. \<exists>vd. (x, vd) \<in> set msgs \<and> P vd}" by force
  moreover have "length (filter P (map snd msgs)) = length ?kept" by (simp add: filter_map comp_def)
  ultimately have "card {x. \<exists>vd. (x, vd) \<in> set msgs \<and> P vd} = length (filter P (map snd msgs))" by simp
  then show ?thesis using assms by (force simp: isQuorum_def fromMembers_def)
qed

lemma quorum_of_messages_meets:
  assumes "validNodes nodes" "F \<subseteq> set nodes" "card F \<le> maxFaulty nodes" "isQuorum nodes Q"
    and "fromMembers nodes msgs" "int (quorumSize nodes) \<le> int (length (filter P (map snd msgs)))"
  shows "\<exists>x vd. x \<in> Q - F \<and> (x, vd) \<in> set msgs \<and> P vd"
  using cluster.quorums_share_correct [OF assms(1,4) filter_is_quorum [OF assms(5,6)] assms(2,3)] by blast

lemma spec_keeps_prepared:
  assumes "validNodes nodes" "F \<subseteq> set nodes" "card F \<le> maxFaulty nodes" "isQuorum nodes Q" "fromMembers nodes msgs"
    and "\<And>x vd. (x, vd) \<in> set msgs \<Longrightarrow> x \<in> Q - F \<Longrightarrow>
      \<exists>q. preparedAt C s vd = Some q \<and> proposalEqual q p"
    and "checkInFlightSpec C s (map snd msgs) f (int (quorumSize nodes)) = (True, none, r)"
  shows "\<not> none \<and> (\<exists>q. r = Some q \<and> proposalEqual q p)"
proof (cases "find (conditionA C s (map snd msgs) f (int (quorumSize nodes)))
    (List.map_filter (preparedAt C s) (map snd msgs))")
  case None
  then have "int (quorumSize nodes) \<le> int (length (filter (\<lambda>vd. preparedAt C s vd = None) (map snd msgs)))"
    using assms(7) by (auto simp: checkInFlightSpec_def conditionB_def split: if_splits)
  from quorum_of_messages_meets [OF assms(1-5) this] show ?thesis using assms(6) by force
next
  case (Some q)
  then have "conditionA C s (map snd msgs) f (int (quorumSize nodes)) q" by (auto simp: find_Some_iff)
  then have "int (quorumSize nodes) \<le> int (length (filter (noArgumentAt C s q) (map snd msgs)))"
    by (simp add: conditionA_def)
  from quorum_of_messages_meets [OF assms(1-5) this] obtain x vd where
    x: "x \<in> Q - F" "(x, vd) \<in> set msgs" "noArgumentAt C s q vd" by blast
  obtain q' where "preparedAt C s vd = Some q'" "proposalEqual q' p" using assms(6) [OF x(2,1)] by blast
  then have "proposalEqual q' q" "proposalEqual q' p"
    using x(3) by (auto simp: preparedAt_def noArgumentAt_def split: if_splits)
  then have "proposalEqual q p" using proposalEqual_sym proposalEqual_trans by blast
  moreover have "none = False" "r = Some q" using Some assms(7) by (simp_all add: checkInFlightSpec_def)
  ultimately show ?thesis by blast
qed

subsection \<open>An example\<close>

definition genesis :: Proposal where
  "genesis = \<lparr>Payload = [], Header = [], Metadata = None, VerificationSequence = 0\<rparr>"

text \<open>The view data of a node that has decided nothing and has the example proposal in flight or not.\<close>

definition exampleViewData :: "bool \<Rightarrow> ViewData" where
  "exampleViewData prepared = \<lparr>vd_NextView = 1, vd_LastDecision = Some genesis, vd_LastDecisionSignatures = [],
     vd_InFlightProposal = (if prepared then Some exampleProposal else None), vd_InFlightPrepared = prepared\<rparr>"

definition exampleReports :: "(u64 \<times> ViewData) list" where
  "exampleReports = [(1, exampleViewData True), (2, exampleViewData True), (4, exampleViewData False)]"

lemma exampleNodes: "validNodes [1, 2, 3, 4]" "quorumSize [1, 2, 3, 4] = 3" "maxFaulty [1, 2, 3, 4] = 1"
proof -
  show v: "validNodes [1, 2, 3, 4]" by (simp add: validNodes_def)
  show "quorumSize [1, 2, 3, 4] = 3" "maxFaulty [1, 2, 3, 4] = 1"
    using quorumSize_eq [OF v] maxFaulty_eq [OF v] by simp_all
qed

subsection \<open>Properties\<close>

text \<open>
  C13: \<open>CheckInFlight\<close> is its specification. On view data that decodes it never fails, and the loops over the survey
  and the counters decide exactly conditions A and B: the first prepared proposal of the expected sequence
  that \<open>f + 1\<close> nodes pre-prepared and a quorum does not contradict, else none if a quorum prepared
  nothing, else undecided.
\<close>

theorem CheckInFlight_meets_spec:
  assumes "\<forall>vd\<in>set messages. decodes C vd"
  shows "\<exists>m. maxLastDecisionSequence C messages = Inr m \<and>
    CheckInFlight C messages f quorum = Inr (Inr (checkInFlightSpec C (m + 1) messages f quorum))"
proof -
  obtain m where "maxLastDecisionSequence C messages = Inr m"
    using maxLastDecision_total [OF assms] by (auto simp: maxLastDecisionSequence_def)
  then show ?thesis using CheckInFlight_reference [OF assms] by blast
qed

theorem CheckInFlight_meets_spec_witness:
  "\<exists>m. maxLastDecisionSequence exampleCodec (map snd exampleReports) = Inr m \<and>
    CheckInFlight exampleCodec (map snd exampleReports) 1 3 =
      Inr (Inr (checkInFlightSpec exampleCodec (m + 1) (map snd exampleReports) 1 3))"
  by (rule CheckInFlight_meets_spec)
    (auto simp: exampleReports_def exampleViewData_def decodes_def genesis_def exampleProposal_def exampleCodec_def
      split: list.splits)

text \<open>
  C3: a view change keeps what may have been decided. When the nodes of some quorum prepared a
  proposal at the next sequence, and the correct ones among those that sent view data report it,
  \<open>CheckInFlight\<close> over the view data of distinct members never answers that nothing is in flight and never
  picks another proposal, however the at most \<open>f\<close> faulty members answer.
\<close>

theorem view_change_keeps_decision:
  assumes "validNodes nodes" "F \<subseteq> set nodes" "card F \<le> maxFaulty nodes" "isQuorum nodes Q" "fromMembers nodes msgs"
    and "\<forall>vd\<in>snd ` set msgs. decodes C vd" "maxLastDecisionSequence C (map snd msgs) = Inr m"
    and "\<And>x vd. (x, vd) \<in> set msgs \<Longrightarrow> x \<in> Q - F \<Longrightarrow>
      \<exists>q. preparedAt C (m + 1) vd = Some q \<and> proposalEqual q p"
    and "CheckInFlight C (map snd msgs) (int (maxFaulty nodes)) (int (quorumSize nodes)) = Inr (Inr (True, none, r))"
  shows "\<not> none \<and> (\<exists>q. r = Some q \<and> proposalEqual q p)"
proof -
  have "checkInFlightSpec C (m + 1) (map snd msgs) (int (maxFaulty nodes)) (int (quorumSize nodes)) = (True, none, r)"
    using CheckInFlight_reference [OF _ assms(7)] assms(6,9) by simp
  then show ?thesis by (rule spec_keeps_prepared [OF assms(1-5), rotated]) (rule assms(8))
qed

theorem view_change_keeps_decision_witness:
  "\<exists>none r q. CheckInFlight exampleCodec (map snd exampleReports) 1 3 = Inr (Inr (True, none, r)) \<and>
     \<not> none \<and> r = Some q \<and> proposalEqual q exampleProposal"
proof -
  have c: "CheckInFlight exampleCodec (map snd exampleReports) 1 3 = Inr (Inr (True, False, Some exampleProposal))"
    and m: "maxLastDecisionSequence exampleCodec (map snd exampleReports) = Inr 0"
    and d: "\<forall>vd\<in>snd ` set exampleReports. decodes exampleCodec vd"
    by code_simp+
  have "fromMembers [1, 2, 3, 4] exampleReports" "isQuorum [1, 2, 3, 4] {1, 2, 3}"
    by (simp_all add: fromMembers_def isQuorum_def exampleReports_def exampleNodes)
  moreover have "\<exists>q. preparedAt exampleCodec (0 + 1) vd = Some q \<and> proposalEqual q exampleProposal"
    if "(x, vd) \<in> set exampleReports" "x \<in> {1, 2, 3} - {4}" for x vd
    using that by (auto simp: exampleReports_def exampleViewData_def preparedAt_def inFlightAt_def exampleProposal_def
        exampleCodec_def bytes_of_def)
  ultimately show ?thesis
    using view_change_keeps_decision [of "[1, 2, 3, 4]" "{4}" "{1, 2, 3}" exampleReports exampleCodec 0 exampleProposal]
      c m d exampleNodes by auto
qed

text \<open>
  C35: a validated last decision has a quorum certificate: \<open>ValidateLastDecision\<close> accepts a decision past the genesis
  only with verified signatures of at least \<open>quorum\<close> distinct nodes on that very proposal, and only one
  made in an older view.
\<close>

theorem ValidateLastDecision_certificate:
  assumes "ValidateLastDecision C verify vd quorum = Inr s" "vd_LastDecision vd = Some p" "Metadata p \<noteq> None"
  shows "\<exists>md signers. unmarshalMetadata C (bytes_of (Metadata p)) = Some md \<and> LatestSequence md = s \<and>
    ViewId md < vd_NextView vd \<and> finite signers \<and> quorum \<le> int (card signers) \<and>
    (\<forall>i\<in>signers. \<exists>sig\<in>set (vd_LastDecisionSignatures vd). Signer sig = i \<and> verify sig p \<noteq> None)"
proof -
  obtain md n where md: "unmarshalMetadata C (bytes_of (Metadata p)) = Some md" "LatestSequence md = s"
    "ViewId md < vd_NextView vd" "quorum \<le> int n"
    "lastDecisionSigs (\<lambda>sig. verify sig p \<noteq> None) (vd_LastDecisionSignatures vd) [] 0 = Inr n"
    using assms by (auto simp: ValidateLastDecision_def bytes_of_def split: option.splits if_splits sum.splits)
  then show ?thesis using lastDecisionSigs_count [OF md(5)]
    by (intro exI [of _ md] exI [of _ "Signer ` set (vd_LastDecisionSignatures vd)"]) auto
qed

theorem ValidateLastDecision_certificate_witness:
  "\<exists>md signers. unmarshalMetadata exampleCodec (bytes_of (Metadata exampleProposal)) = Some md \<and>
     LatestSequence md = 1 \<and> finite (signers :: u64 set) \<and> 3 \<le> int (card signers)"
proof -
  let ?sigs = "map (\<lambda>i. \<lparr>Signer = i, Value = [], Msg = []\<rparr>) [1, 2, 3]"
  let ?vd = "(exampleViewData False)\<lparr>vd_LastDecision := Some exampleProposal, vd_LastDecisionSignatures := ?sigs\<rparr>"
  have "ValidateLastDecision exampleCodec (\<lambda>_ _. Some []) ?vd 3 = Inr 1" by code_simp
  then show ?thesis
    using ValidateLastDecision_certificate [of exampleCodec "\<lambda>_ _. Some []" ?vd 3 1 exampleProposal]
    by (auto simp: exampleProposal_def)
qed

end
