(* ===== verification/Proposing.thy ===== *)
theory Proposing
  imports Agreement Bytes
begin

text \<open>
  The two sides of a proposal's metadata: what \<open>GetMetadata\<close> and \<open>Propose\<close> of a correct leader
  produce passes \<open>verifyProposal\<close> of a correct follower in the same state (internal/bft/view.go).
\<close>

subsection \<open>The acknowledgements both sides compute\<close>

text \<open>
  Documented in pkg/api/dependencies.go: \<open>VerifyConsenterSig\<close> verifies the signature and returns the auxiliary
  data in it, which is what \<open>AuxiliaryData\<close> extracts.
\<close>

definition acksAgree :: "'a viewEnv \<Rightarrow> 'a viewEnv \<Rightarrow> Signature list \<Rightarrow> Proposal \<Rightarrow> bool" where
  "acksAgree E E' sigs p \<longleftrightarrow> (\<forall>sig\<in>set sigs. api_VerifyConsenterSig (env_services E') (env_app E') sig p =
     Some (api_AuxiliaryData (env_services E) (env_app E) (Msg sig)) \<and>
     unmarshalPreparesFrom (env_codec E') (api_AuxiliaryData (env_services E) (env_app E) (Msg sig)) \<noteq> None)"

lemma collectAcks_total:
  "acksAgree E E' sigs p \<Longrightarrow> \<exists>pf. collectAcks E' p sigs acks = Inr pf"
  by (induction E' p sigs acks rule: collectAcks.induct) (auto simp: acksAgree_def)

lemma collectAcks_preparesFrom:
  assumes "preparesFromAux E sigs acks = Inr pf" "acksAgree E E' sigs p" "env_codec E' = env_codec E"
  shows "collectAcks E' p sigs acks = Inr pf"
  using assms
  by (induction E sigs acks rule: preparesFromAux.induct) (auto simp: acksAgree_def split: option.splits)

text \<open>The follower is in the state of the leader, and has no more commit signatures for the last proposal.\<close>

definition followsLeader :: "'a viewEnv \<Rightarrow> View \<Rightarrow> 'a viewEnv \<Rightarrow> View \<Rightarrow> bool" where
  "followsLeader E v E' v' \<longleftrightarrow> env_codec E' = env_codec E \<and>
     api_VerificationSequence (env_services E') (env_app E') = api_VerificationSequence (env_services E) (env_app E) \<and>
     membershipChange E' = membershipChange E \<and>
     ckp_proposal (env_checkpoint E') = ckp_proposal (env_checkpoint E) \<and>
     length (ckp_signatures (env_checkpoint E')) \<le> length (ckp_signatures (env_checkpoint E)) \<and>
     acksAgree E E' (ckp_signatures (env_checkpoint E)) (ckp_proposal (env_checkpoint E)) \<and>
     v_Number v' = v_Number v \<and> v_ProposalSequence v' = v_ProposalSequence v \<and>
     v_DecisionsInView v' = v_DecisionsInView v \<and> v_DecisionsPerLeader v' = v_DecisionsPerLeader v \<and>
     v_LeaderID v' = v_LeaderID v \<and> v_N v' = v_N v \<and> v_NodesList v' = v_NodesList v"

definition leaderProposal :: "'a viewEnv \<Rightarrow> bytes \<Rightarrow> bytes \<Rightarrow> bytes \<Rightarrow> Proposal" where
  "leaderProposal E payload header md = \<lparr>Payload = payload, Header = header, Metadata = Some md,
     VerificationSequence = api_VerificationSequence (env_services E) (env_app E)\<rparr>"

text \<open>Protobuf documents that unmarshaling returns the message that was marshaled.\<close>

definition metadataRoundtrip :: "codec \<Rightarrow> bool" where
  "metadataRoundtrip C \<longleftrightarrow> (\<forall>md. unmarshalMetadata C (marshalMetadata C md) = Some md)"

subsection \<open>What the leader puts into the metadata\<close>

lemma GetMetadata_result:
  assumes "GetMetadata E v = Inr b" "metadataRoundtrip (env_codec E)"
  obtains md prevMD where "unmarshalMetadata (env_codec E) b = Some md"
    "view_unmarshalMetadata E (Metadata (ckp_proposal (env_checkpoint E))) = Some prevMD"
    "ViewId md = v_Number v" "LatestSequence md = v_ProposalSequence v" "DecisionsInView md = v_DecisionsInView v"
    "PrevCommitSignatureDigest md = (if v_DecisionsPerLeader v = 0 then []
       else CommitSignaturesDigest (env_codec E) (ckp_signatures (env_checkpoint E)))"
    "if api_VerificationSequence (env_services E) (env_app E) = VerificationSequence (ckp_proposal (env_checkpoint E)) \<and>
        \<not> membershipChange E
     then (if v_DecisionsPerLeader v = 0 then BlackList md = []
           else \<exists>pf. preparesFromAux E (ckp_signatures (env_checkpoint E)) [] = Inr pf \<and>
             computeUpdate (viewBlacklist v (v_Number v) prevMD pf) = Inr (BlackList md))
     else BlackList md = BlackList prevMD"
proof -
  obtain prevMD where p: "view_unmarshalMetadata E (Metadata (ckp_proposal (env_checkpoint E))) = Some prevMD"
    using assms(1) by (auto simp: GetMetadata_def Checkpoint_Get_def Let_def split: option.splits)
  let ?md0 = "emptyViewMetadata\<lparr>ViewId := v_Number v, LatestSequence := v_ProposalSequence v,
     DecisionsInView := v_DecisionsInView v, BlackList := BlackList prevMD\<rparr>"
  obtain md1 where m: "metadataWithUpdatedBlacklist E v ?md0 (api_VerificationSequence (env_services E) (env_app E))
      (ckp_proposal (env_checkpoint E)) (ckp_signatures (env_checkpoint E)) = Inr md1"
    "b = marshalMetadata (env_codec E) (bindCommitSignaturesToProposalMetadata E v md1 (ckp_signatures (env_checkpoint E)))"
    using assms(1) p by (auto simp: GetMetadata_def Checkpoint_Get_def Let_def andThen_eq_Inr_iff)
  show ?thesis
  proof (rule that [of "bindCommitSignaturesToProposalMetadata E v md1 (ckp_signatures (env_checkpoint E))" prevMD])
    show "unmarshalMetadata (env_codec E) b =
        Some (bindCommitSignaturesToProposalMetadata E v md1 (ckp_signatures (env_checkpoint E)))"
      using m(2) assms(2) by (simp add: metadataRoundtrip_def)
  qed (use m(1) p in \<open>auto simp: metadataWithUpdatedBlacklist_def updateBlacklistMetadata_def emptyViewMetadata_def
      bindCommitSignaturesToProposalMetadata_def andThen_eq_Inr_iff split: if_splits\<close>)
qed

subsection \<open>What the follower checks\<close>

lemma verifyProposal_accepts:
  assumes "api_VerifyProposal (env_services E) (env_app E) p = Some requests"
    and "view_unmarshalMetadata E (Metadata p) = Some md" "ViewId md = v_Number v"
    and "LatestSequence md = v_ProposalSequence v" "DecisionsInView md = v_DecisionsInView v"
    and "VerificationSequence p = api_VerificationSequence (env_services E) (env_app E)"
    and "verifyPrevCommitSignatures E sigs (VerificationSequence p) = Inr (Inr acks)"
    and "verifyBlacklist E v sigs (VerificationSequence p) (BlackList md) acks = Inr (None, v1)"
    and "v_DecisionsPerLeader v1 > 0 \<Longrightarrow> CommitSignaturesDigest (env_codec E) sigs = PrevCommitSignatureDigest md"
  shows "verifyProposal E v p sigs = Inr (Inr requests, v1)"
  using assms by (auto simp: verifyProposal_def)

lemma prevCommits_acks:
  assumes "followsLeader E v E' v'" "view_unmarshalMetadata E (Metadata (ckp_proposal (env_checkpoint E))) = Some prevMD"
  obtains acks where "verifyPrevCommitSignatures E' (ckp_signatures (env_checkpoint E)) s = Inr (Inr acks)"
    "\<And>pf. s = VerificationSequence (ckp_proposal (env_checkpoint E)) \<Longrightarrow>
       preparesFromAux E (ckp_signatures (env_checkpoint E)) [] = Inr pf \<Longrightarrow> acks = pf"
proof -
  let ?p = "ckp_proposal (env_checkpoint E)" and ?sigs = "ckp_signatures (env_checkpoint E)"
  have agree: "acksAgree E E' ?sigs ?p" and ck: "ckp_proposal (env_checkpoint E') = ?p" and c: "env_codec E' = env_codec E"
    using assms(1) by (auto simp: followsLeader_def)
  obtain pf where pf: "collectAcks E' ?p ?sigs [] = Inr pf" using collectAcks_total [OF agree] by blast
  show ?thesis
  proof (rule that [of "if VerificationSequence ?p \<noteq> s then [] else pf"])
    show "verifyPrevCommitSignatures E' ?sigs s = Inr (Inr (if VerificationSequence ?p \<noteq> s then [] else pf))"
      using pf assms(2) ck c by (simp add: verifyPrevCommitSignatures_def Checkpoint_Get_def)
  next
    fix pf' assume "s = VerificationSequence ?p" and "preparesFromAux E ?sigs [] = Inr pf'"
    then show "(if VerificationSequence ?p \<noteq> s then [] else pf) = pf'"
      using collectAcks_preparesFrom [OF _ agree c] pf by simp
  qed
qed

lemma blacklistingSupported_fields:
  assumes "blacklistingSupported E v f sigs = (b, v1)"
  shows "v_DecisionsPerLeader v1 = v_DecisionsPerLeader v" "v_Number v1 = v_Number v"
    "viewBlacklist v1 n md pf = viewBlacklist v n md pf"
  using assms by (auto simp: blacklistingSupported_def viewBlacklist_def Let_def split: if_splits)

lemma verifyBlacklist_accepts:
  assumes "followsLeader E v E' v'" "v_DecisionsPerLeader v > 0"
    and "view_unmarshalMetadata E (Metadata (ckp_proposal (env_checkpoint E))) = Some prevMD"
    and "if s = VerificationSequence (ckp_proposal (env_checkpoint E)) \<and> \<not> membershipChange E
      then computeUpdate (viewBlacklist v (v_Number v) prevMD acks) = Inr bl else bl = BlackList prevMD"
  shows "\<exists>v1. verifyBlacklist E' v' (ckp_signatures (env_checkpoint E)) s bl acks = Inr (None, v1) \<and>
    v_DecisionsPerLeader v1 = v_DecisionsPerLeader v'"
proof -
  obtain b v1 where b: "blacklistingSupported E' v' (snd (computeQuorum (v_N v'))) (ckp_signatures (env_checkpoint E')) = (b, v1)"
    by fastforce
  note f = blacklistingSupported_fields [OF b]
  have "viewBlacklist v' n md pf = viewBlacklist v n md pf" for n md pf
    using assms(1) by (simp add: followsLeader_def viewBlacklist_def)
  then show ?thesis
    using assms b f by (auto simp: verifyBlacklist_def followsLeader_def Checkpoint_Get_def Let_def split: if_splits)
qed

lemma verifyBlacklist_no_rotation:
  "v_DecisionsPerLeader v = 0 \<Longrightarrow>
   verifyBlacklist E v sigs s bl acks =
     Inr (if bl = [] then None else Some ''rotation is inactive but blacklist is not empty'', v)"
  by (simp add: verifyBlacklist_def)

subsection \<open>An example\<close>

text \<open>A codec that encodes every field of the metadata.\<close>

fun encodeIds :: "u64 list \<Rightarrow> bytes" where
  "encodeIds [] = [0]"
| "encodeIds (x # xs) = 1 # le64 x @ encodeIds xs"

fun decodeIds :: "nat \<Rightarrow> bytes \<Rightarrow> u64 list \<times> bytes" where
  "decodeIds (Suc n) (b # bs) =
     (if b = 0 then ([], bs) else let (xs, rest) = decodeIds n (drop 8 bs) in (fromLe64 (take 8 bs) # xs, rest))"
| "decodeIds _ bs = ([], bs)"

lemma decode_encodeIds: "length xs < n \<Longrightarrow> decodeIds n (encodeIds xs @ r) = (xs, r)"
proof (induction xs arbitrary: n)
  case Nil
  then show ?case by (cases n) auto
next
  case (Cons x xs)
  then show ?case by (cases n) auto
qed

lemma length_encodeIds: "length xs < length (encodeIds xs)"
  by (induction xs) auto

definition fullCodec :: codec where
  "fullCodec = exampleCodec\<lparr>
     marshalMetadata := (\<lambda>md. le64 (ViewId md) @ le64 (LatestSequence md) @ le64 (DecisionsInView md) @
       encodeIds (BlackList md) @ PrevCommitSignatureDigest md),
     unmarshalMetadata := (\<lambda>b. let (ids, rest) = decodeIds (length b) (drop 24 b) in
       Some \<lparr>ViewId = fromLe64 (take 8 b), LatestSequence = fromLe64 (take 8 (drop 8 b)),
             DecisionsInView = fromLe64 (take 8 (drop 16 b)), BlackList = ids, PrevCommitSignatureDigest = rest\<rparr>)\<rparr>"

lemma fullCodec_roundtrip: "metadataRoundtrip fullCodec"
proof -
  have "unmarshalMetadata fullCodec (marshalMetadata fullCodec md) = Some md" for md
  proof -
    let ?b = "marshalMetadata fullCodec md"
    have "drop 24 ?b = encodeIds (BlackList md) @ PrevCommitSignatureDigest md" by (simp add: fullCodec_def)
    moreover have "length (BlackList md) < length ?b"
      using length_encodeIds [of "BlackList md"] by (simp add: fullCodec_def)
    ultimately have "decodeIds (length ?b) (drop 24 ?b) = (BlackList md, PrevCommitSignatureDigest md)"
      using decode_encodeIds by simp
    then show ?thesis by (simp add: fullCodec_def)
  qed
  then show ?thesis by (simp add: metadataRoundtrip_def)
qed

text \<open>Node 1 leads with rotation; sequence 1 was decided with the commits of nodes 1, 2 and 3.\<close>

definition rotatingEnv :: "u64 \<Rightarrow> unit viewEnv" where
  "rotatingEnv n = (exampleEnv n)\<lparr>env_codec := fullCodec,
     env_checkpoint := \<lparr>ckp_proposal = \<lparr>Payload = [7], Header = [],
         Metadata = Some (marshalMetadata fullCodec (emptyViewMetadata\<lparr>LatestSequence := 1\<rparr>)), VerificationSequence = 0\<rparr>,
       ckp_signatures = map (\<lambda>i. \<lparr>Signer = i, Value = [], Msg = [1, 2, 3]\<rparr>) [1, 2, 3]\<rparr>\<rparr>"

definition rotatingView :: "u64 \<Rightarrow> View" where
  "rotatingView n = (exampleView n)\<lparr>v_DecisionsPerLeader := 5, v_ProposalSequence := 2, v_DecisionsInView := 1\<rparr>"

lemma rotatingView_follows: "followsLeader (rotatingEnv 1) (rotatingView 1) (rotatingEnv 2) (rotatingView 2)"
  by (simp add: followsLeader_def rotatingEnv_def rotatingView_def exampleEnv_def exampleServices_def exampleView_def
      membershipChange_def acksAgree_def fullCodec_def exampleCodec_def)

subsection \<open>Properties\<close>

text \<open>
  C26: the proposal of a correct leader passes the checks of a correct follower. Metadata made by
  \<open>GetMetadata\<close> and sent with the previous commit signatures by \<open>Propose\<close> is accepted by \<open>verifyProposal\<close> of every
  node that is in the leader's view, sequence and configuration, with the blacklist, the sequence numbers
  and the bound commit signatures the follower computes for itself. With rotation switched off the
  previous blacklist must be empty.
\<close>

theorem leader_proposal_accepted:
  assumes "GetMetadata E v = Inr b" "metadataRoundtrip (env_codec E)" "followsLeader E v E' v'"
    and "proposeMsg E v (leaderProposal E payload header b) = PrePrepareMsg pp"
    and "api_VerifyProposal (env_services E') (env_app E') (leaderProposal E payload header b) = Some requests"
    and "\<And>md. v_DecisionsPerLeader v = 0 \<Longrightarrow>
      view_unmarshalMetadata E (Metadata (ckp_proposal (env_checkpoint E))) = Some md \<Longrightarrow> BlackList md = []"
  shows "\<exists>v1. verifyProposal E' v' (leaderProposal E payload header b) (pp_PrevCommitSignatures pp) = Inr (Inr requests, v1)"
proof -
  let ?p = "leaderProposal E payload header b" and ?sigs = "ckp_signatures (env_checkpoint E)"
  have eq: "env_codec E' = env_codec E" "v_DecisionsPerLeader v' = v_DecisionsPerLeader v" "v_Number v' = v_Number v"
    "v_ProposalSequence v' = v_ProposalSequence v" "v_DecisionsInView v' = v_DecisionsInView v"
    "api_VerificationSequence (env_services E') (env_app E') = VerificationSequence ?p"
    using assms(3) by (simp_all add: followsLeader_def leaderProposal_def)
  obtain md prevMD where md: "unmarshalMetadata (env_codec E) b = Some md"
    "view_unmarshalMetadata E (Metadata (ckp_proposal (env_checkpoint E))) = Some prevMD"
    "ViewId md = v_Number v" "LatestSequence md = v_ProposalSequence v" "DecisionsInView md = v_DecisionsInView v"
    "PrevCommitSignatureDigest md = (if v_DecisionsPerLeader v = 0 then [] else CommitSignaturesDigest (env_codec E) ?sigs)"
    "if VerificationSequence ?p = VerificationSequence (ckp_proposal (env_checkpoint E)) \<and> \<not> membershipChange E
     then (if v_DecisionsPerLeader v = 0 then BlackList md = []
           else \<exists>pf. preparesFromAux E ?sigs [] = Inr pf \<and>
             computeUpdate (viewBlacklist v (v_Number v) prevMD pf) = Inr (BlackList md))
     else BlackList md = BlackList prevMD"
    using GetMetadata_result [OF assms(1,2)] by (auto simp: leaderProposal_def)
  have um: "view_unmarshalMetadata E' (Metadata ?p) = Some md"
    using md(1) eq(1) by (simp add: leaderProposal_def bytes_of_def)
  show ?thesis
  proof (cases "v_DecisionsPerLeader v = 0")
    case True
    then have sigs: "pp_PrevCommitSignatures pp = []" using assms(4) by (auto simp: proposeMsg_def)
    have bl: "BlackList md = []" using md(2,7) True assms(6) by (auto split: if_splits)
    have "verifyPrevCommitSignatures E' [] (VerificationSequence ?p) = Inr (Inr [])"
      using md(2) assms(3) by (simp add: verifyPrevCommitSignatures_def Checkpoint_Get_def followsLeader_def Let_def)
    then show ?thesis
      using verifyProposal_accepts [OF assms(5) um] md eq sigs True bl by (auto simp: verifyBlacklist_no_rotation)
  next
    case False
    then have rot: "v_DecisionsPerLeader v > 0" by (simp add: word_gt_0)
    have sigs: "pp_PrevCommitSignatures pp = ?sigs"
      using assms(4) rot by (auto simp: proposeMsg_def Checkpoint_Get_def)
    obtain acks where acks: "verifyPrevCommitSignatures E' ?sigs (VerificationSequence ?p) = Inr (Inr acks)"
      "\<And>pf. VerificationSequence ?p = VerificationSequence (ckp_proposal (env_checkpoint E)) \<Longrightarrow>
         preparesFromAux E ?sigs [] = Inr pf \<Longrightarrow> acks = pf"
      using prevCommits_acks [OF assms(3) md(2)] by metis
    have "if VerificationSequence ?p = VerificationSequence (ckp_proposal (env_checkpoint E)) \<and> \<not> membershipChange E
      then computeUpdate (viewBlacklist v (v_Number v) prevMD acks) = Inr (BlackList md)
      else BlackList md = BlackList prevMD"
      using md(7) acks(2) False by (auto split: if_splits)
    then obtain v1 where "verifyBlacklist E' v' ?sigs (VerificationSequence ?p) (BlackList md) acks = Inr (None, v1)"
      using verifyBlacklist_accepts [OF assms(3) rot md(2)] by blast
    then show ?thesis
      using verifyProposal_accepts [OF assms(5) um, of v' ?sigs acks v1] md eq sigs acks(1) False by auto
  qed
qed

theorem leader_proposal_accepted_witness:
  "\<exists>b sigs v1. GetMetadata (rotatingEnv 1) (rotatingView 1) = Inr b \<and> length sigs = 3 \<and>
     verifyProposal (rotatingEnv 2) (rotatingView 2) (leaderProposal (rotatingEnv 1) [9] [] b) sigs = Inr (Inr [], v1)"
proof -
  have "case GetMetadata (rotatingEnv 1) (rotatingView 1) of Inr b \<Rightarrow> True | Inl _ \<Rightarrow> False" by code_simp
  then obtain b where b: "GetMetadata (rotatingEnv 1) (rotatingView 1) = Inr b" by (auto split: sum.splits)
  obtain pp where pp: "proposeMsg (rotatingEnv 1) (rotatingView 1) (leaderProposal (rotatingEnv 1) [9] [] b) = PrePrepareMsg pp"
    "length (pp_PrevCommitSignatures pp) = 3"
    by (simp add: proposeMsg_def rotatingView_def rotatingEnv_def Checkpoint_Get_def)
  have "metadataRoundtrip (env_codec (rotatingEnv 1))" using fullCodec_roundtrip by (simp add: rotatingEnv_def)
  moreover have "api_VerifyProposal (env_services (rotatingEnv 2)) (env_app (rotatingEnv 2))
      (leaderProposal (rotatingEnv 1) [9] [] b) = Some []"
    by (simp add: rotatingEnv_def exampleEnv_def exampleServices_def)
  moreover have "v_DecisionsPerLeader (rotatingView 1) \<noteq> 0" by (simp add: rotatingView_def)
  ultimately show ?thesis
    using leader_proposal_accepted [OF b _ rotatingView_follows pp(1)] b pp(2) by blast
qed

text \<open>
  C40: switching leader rotation off while a node is blacklisted halts the view: right after the
  verification sequence changed, or during a membership change, \<open>GetMetadata\<close> copies the previous blacklist, and every
  node with rotation off, the leader included, rejects the proposal.
\<close>

theorem rotation_off_blocks_proposals:
  assumes "GetMetadata E v = Inr b" "metadataRoundtrip (env_codec E)" "v_DecisionsPerLeader v = 0"
    and "view_unmarshalMetadata E (Metadata (ckp_proposal (env_checkpoint E))) = Some prevMD" "BlackList prevMD \<noteq> []"
    and "api_VerificationSequence (env_services E) (env_app E) \<noteq> VerificationSequence (ckp_proposal (env_checkpoint E)) \<or>
      membershipChange E"
    and "env_codec E' = env_codec E" "v_DecisionsPerLeader v' = 0"
  shows "\<not> (\<exists>requests v1. verifyProposal E' v' (leaderProposal E payload header b) sigs = Inr (Inr requests, v1))"
proof -
  obtain md where "unmarshalMetadata (env_codec E) b = Some md" "BlackList md = BlackList prevMD"
    using GetMetadata_result [OF assms(1,2)] assms(4,6) by (metis option.inject)
  then have "view_unmarshalMetadata E' (Metadata (leaderProposal E payload header b)) = Some md" "BlackList md \<noteq> []"
    using assms(5,7) by (simp_all add: leaderProposal_def bytes_of_def)
  then show ?thesis
    by (auto simp: verifyBlacklist_no_rotation [OF assms(8)] verifyProposal_def Let_def andThen_eq_Inr_iff split: option.splits sum.splits if_splits)
qed

definition reconfiguredEnv :: "unit viewEnv" where
  "reconfiguredEnv = (exampleEnv 1)\<lparr>env_codec := fullCodec,
     env_checkpoint := \<lparr>ckp_proposal = \<lparr>Payload = [7], Header = [],
         Metadata = Some (marshalMetadata fullCodec (emptyViewMetadata\<lparr>LatestSequence := 1, BlackList := [3]\<rparr>)),
         VerificationSequence = 8\<rparr>, ckp_signatures = []\<rparr>\<rparr>"

theorem rotation_off_blocks_proposals_witness:
  "\<exists>b. GetMetadata reconfiguredEnv (exampleView 1) = Inr b \<and>
     \<not> (\<exists>requests v1. verifyProposal reconfiguredEnv (exampleView 1) (leaderProposal reconfiguredEnv [9] [] b) [] =
          Inr (Inr requests, v1))"
proof -
  have "case GetMetadata reconfiguredEnv (exampleView 1) of Inr b \<Rightarrow> True | Inl _ \<Rightarrow> False" by code_simp
  then obtain b where b: "GetMetadata reconfiguredEnv (exampleView 1) = Inr b" by (auto split: sum.splits)
  have c: "metadataRoundtrip (env_codec reconfiguredEnv)" using fullCodec_roundtrip by (simp add: reconfiguredEnv_def)
  have md: "view_unmarshalMetadata reconfiguredEnv (Metadata (ckp_proposal (env_checkpoint reconfiguredEnv))) =
      Some (emptyViewMetadata\<lparr>LatestSequence := 1, BlackList := [3]\<rparr>)"
    using fullCodec_roundtrip by (simp add: reconfiguredEnv_def metadataRoundtrip_def bytes_of_def)
  have "\<not> (\<exists>requests v1. verifyProposal reconfiguredEnv (exampleView 1) (leaderProposal reconfiguredEnv [9] [] b) [] =
          Inr (Inr requests, v1))"
    by (rule rotation_off_blocks_proposals [OF b c _ md])
      (simp_all add: reconfiguredEnv_def exampleEnv_def exampleServices_def exampleView_def)
  then show ?thesis using b by blast
qed

end
