(* ===== verification/Config.thy ===== *)
theory Config
  imports Quorums "HOL-Library.Multiset"
begin

text \<open>
  The configuration of the library (pkg/types/config.go) and how \<open>Consensus\<close> takes over a list
  of nodes (pkg/consensus/consensus.go). Durations are nanoseconds.
\<close>

record Configuration =
  SelfID :: u64
  RequestBatchMaxCount :: u64
  RequestBatchMaxBytes :: u64
  RequestBatchMaxInterval :: int
  IncomingMessageBufferSize :: u64
  RequestPoolSize :: u64
  RequestForwardTimeout :: int
  RequestComplainTimeout :: int
  RequestAutoRemoveTimeout :: int
  ViewChangeResendInterval :: int
  ViewChangeTimeout :: int
  LeaderHeartbeatTimeout :: int
  LeaderHeartbeatCount :: u64
  NumOfTicksBehindBeforeSyncing :: u64
  CollectTimeoutInterval :: int
  SyncOnStart :: bool
  SpeedUpViewChange :: bool
  LeaderRotation :: bool
  DecisionsPerLeader :: u64
  RequestMaxBytes :: u64
  RequestPoolSubmitTimeout :: int

abbreviation millisecond :: int where "millisecond \<equiv> 1000000"
abbreviation second :: int where "second \<equiv> 1000 * millisecond"
abbreviation minute :: int where "minute \<equiv> 60 * second"

definition DefaultConfig :: Configuration where
  "DefaultConfig = \<lparr>
     SelfID = 0,
     RequestBatchMaxCount = 100,
     RequestBatchMaxBytes = 10 * 1024 * 1024,
     RequestBatchMaxInterval = 50 * millisecond,
     IncomingMessageBufferSize = 10000,
     RequestPoolSize = 400,
     RequestForwardTimeout = 2 * second,
     RequestComplainTimeout = 20 * second,
     RequestAutoRemoveTimeout = 3 * minute,
     ViewChangeResendInterval = 5 * second,
     ViewChangeTimeout = 20 * second,
     LeaderHeartbeatTimeout = minute,
     LeaderHeartbeatCount = 10,
     NumOfTicksBehindBeforeSyncing = 10,
     CollectTimeoutInterval = second,
     SyncOnStart = False,
     SpeedUpViewChange = False,
     LeaderRotation = True,
     DecisionsPerLeader = 3,
     RequestMaxBytes = 10 * 1024,
     RequestPoolSubmitTimeout = 5 * second\<rparr>"

text \<open>\<open>None\<close> is the nil error.\<close>

definition Validate :: "Configuration \<Rightarrow> string option" where
  "Validate c =
     (if SelfID c = 0 then Some ''SelfID should be greater than zero''
      else if RequestBatchMaxCount c = 0 then Some ''RequestBatchMaxCount should be greater than zero''
      else if RequestBatchMaxBytes c = 0 then Some ''RequestBatchMaxBytes should be greater than zero''
      else if RequestBatchMaxInterval c \<le> 0 then Some ''RequestBatchMaxInterval should be greater than zero''
      else if IncomingMessageBufferSize c = 0 then Some ''IncomingMessageBufferSize should be greater than zero''
      else if RequestPoolSize c = 0 then Some ''RequestPoolSize should be greater than zero''
      else if RequestForwardTimeout c \<le> 0 then Some ''RequestForwardTimeout should be greater than zero''
      else if RequestComplainTimeout c \<le> 0 then Some ''RequestComplainTimeout should be greater than zero''
      else if RequestAutoRemoveTimeout c \<le> 0 then Some ''RequestAutoRemoveTimeout should be greater than zero''
      else if ViewChangeResendInterval c \<le> 0 then Some ''ViewChangeResendInterval should be greater than zero''
      else if ViewChangeTimeout c \<le> 0 then Some ''ViewChangeTimeout should be greater than zero''
      else if LeaderHeartbeatTimeout c \<le> 0 then Some ''LeaderHeartbeatTimeout should be greater than zero''
      else if LeaderHeartbeatCount c = 0 then Some ''LeaderHeartbeatCount should be greater than zero''
      else if NumOfTicksBehindBeforeSyncing c = 0
      then Some ''NumOfTicksBehindBeforeSyncing should be greater than zero''
      else if CollectTimeoutInterval c \<le> 0 then Some ''CollectTimeout should be greater than zero''
      else if RequestBatchMaxCount c > RequestBatchMaxBytes c
      then Some ''RequestBatchMaxCount is bigger than RequestBatchMaxBytes''
      else if RequestMaxBytes c > RequestBatchMaxBytes c
      then Some ''RequestMaxBytes is bigger than RequestBatchMaxBytes''
      else if RequestForwardTimeout c > RequestComplainTimeout c
      then Some ''RequestForwardTimeout is bigger than RequestComplainTimeout''
      else if RequestComplainTimeout c > RequestAutoRemoveTimeout c
      then Some ''RequestComplainTimeout is bigger than RequestAutoRemoveTimeout''
      else if ViewChangeResendInterval c > ViewChangeTimeout c
      then Some ''ViewChangeResendInterval is bigger than ViewChangeTimeout''
      else if LeaderRotation c \<and> DecisionsPerLeader c = 0
      then Some ''DecisionsPerLeader should be greater than zero when leader rotation is active''
      else if \<not> LeaderRotation c \<and> DecisionsPerLeader c \<noteq> 0
      then Some ''DecisionsPerLeader should be zero when leader rotation is off''
      else if RequestMaxBytes c = 0 then Some ''RequestMaxBytes should be greater than zero''
      else if RequestPoolSubmitTimeout c \<le> 0
      then Some ''RequestPoolSubmitTimeout should be greater than zero''
      else None)"

definition ValidateConfiguration :: "Configuration \<Rightarrow> u64 list \<Rightarrow> string option" where
  "ValidateConfiguration c nodes =
     (case Validate c of
        Some err \<Rightarrow> Some (''bad configuration: '' @ err)
      | None \<Rightarrow>
          if 0 \<in> set nodes then Some ''nodes contains node id 0 which is not permitted''
          else if SelfID c \<notin> set nodes then Some ''nodes does not contain the SelfID''
          else if card (set nodes) \<noteq> length nodes then Some ''nodes contains duplicate IDs''
          else None)"

definition sortNodes :: "u64 list \<Rightarrow> u64 list" where
  "sortNodes nodes = sort nodes"

text \<open>The membership part of \<open>Consensus\<close>: the sorted node list, its length and the node map.\<close>

record membership =
  numberOfNodes :: u64
  nodesList :: "u64 list"
  nodeMap :: "u64 list"

definition setNodes :: "membership \<Rightarrow> u64 list \<Rightarrow> membership" where
  "setNodes c nodes =
     c\<lparr>numberOfNodes := of_nat (length nodes), nodesList := sortNodes nodes,
       nodeMap := fold List.insert nodes (filter (\<lambda>n. n \<notin> set (nodesList c)) (nodeMap c))\<rparr>"

text \<open>\<open>HandleMessage\<close> of \<open>Consensus\<close> passes on messages from the nodes of the map only.\<close>

definition acceptsSender :: "membership \<Rightarrow> u64 \<Rightarrow> bool" where
  "acceptsSender c sender \<longleftrightarrow> sender \<in> set (nodeMap c)"

definition membership_inv :: "membership \<Rightarrow> bool" where
  "membership_inv c \<longleftrightarrow>
     sorted (nodesList c) \<and> numberOfNodes c = of_nat (length (nodesList c)) \<and>
     set (nodeMap c) = set (nodesList c)"

lemma set_fold_insert: "set (fold List.insert xs ys) = set xs \<union> set ys"
  by (induction xs arbitrary: ys) auto

lemma setNodes_inv [keeps_inv]: "membership_inv c \<Longrightarrow> membership_inv (setNodes c nodes)"
  by (auto simp: membership_inv_def setNodes_def sortNodes_def set_fold_insert)

lemma ValidateConfiguration_None:
  assumes "ValidateConfiguration c nodes = None"
  shows "Validate c = None" "0 \<notin> set nodes" "SelfID c \<in> set nodes" "distinct nodes"
  using assms
  by (auto simp: ValidateConfiguration_def card_distinct split: option.splits if_splits)

lemma Validate_None:
  assumes "Validate c = None"
  shows "RequestMaxBytes c \<le> RequestBatchMaxBytes c" "0 < RequestBatchMaxCount c"
    "0 < RequestMaxBytes c" "LeaderRotation c \<longleftrightarrow> DecisionsPerLeader c \<noteq> 0"
  using assms by (auto simp: Validate_def word_neq_0_conv split: if_splits)

subsection \<open>Properties\<close>

text \<open>
  C39: a configuration that \<open>ValidateConfiguration\<close> accepts sets up a cluster the protocol can
  run on: the node list kept by \<open>setNodes\<close> is sorted and free of duplicates, is a permutation
  of the given one, holds the node itself and no node 0, messages are accepted from exactly
  its members, and a leader exists for every view (rotation with an empty blacklist included).
\<close>

theorem validated_nodes_form_cluster:
  assumes "ValidateConfiguration c nodes = None" "membership_inv m" "length nodes < 2 ^ 52"
    and "c' = setNodes m nodes" "unat (view + dec div DecisionsPerLeader c) + length nodes \<le> 2 ^ 64"
  shows "sorted (nodesList c') \<and> distinct (nodesList c') \<and> mset (nodesList c') = mset nodes \<and>
    SelfID c \<in> set (nodesList c') \<and> 0 \<notin> set (nodesList c') \<and>
    (\<forall>n. acceptsSender c' n \<longleftrightarrow> n \<in> set nodes) \<and>
    (\<exists>leader\<in>set nodes. getLeaderID view (numberOfNodes c') (nodesList c') (LeaderRotation c) dec
       (DecisionsPerLeader c) [] = Inr leader)"
proof -
  note ok = ValidateConfiguration_None [OF assms(1)]
  have nodes: "nodesList c' = sort nodes" "numberOfNodes c' = of_nat (length (sort nodes))"
    using assms(4) by (simp_all add: setNodes_def sortNodes_def)
  have ne: "sort nodes \<noteq> []" using ok(3) by (metis empty_iff list.set(1) set_sort)
  have v: "validNodes (sort nodes)"
    using ok(4) ne assms(3) by (simp add: validNodes_def)
  have "\<exists>leader\<in>set nodes. getLeaderID view (of_nat (length (sort nodes))) (sort nodes)
      (LeaderRotation c) dec (DecisionsPerLeader c) [] = Inr leader"
  proof (cases "LeaderRotation c")
    case True
    have "\<exists>leader. getLeaderID view (of_nat (length (sort nodes))) (sort nodes)
        True dec (DecisionsPerLeader c) [] = Inr leader"
      using True Validate_None(4) [OF ok(1)] assms(5) ne by (intro getLeaderID_total v) auto
    with True show ?thesis using getLeaderID_Inr by fastforce
  next
    case False
    have "length (sort nodes) < 2 ^ 64" using assms(3) by simp
    then have "nodeAt (sort nodes) view (of_nat (length (sort nodes))) =
        Inr (sort nodes ! (unat view mod length (sort nodes)))"
      by (rule nodeAt_in_range [OF ne])
    then show ?thesis using False nodeAt_Inr_in by (fastforce simp: getLeaderID_def)
  qed
  moreover have "membership_inv c'" using setNodes_inv assms(2,4) by simp
  ultimately show ?thesis
    using ok nodes by (auto simp: membership_inv_def acceptsSender_def)
qed

definition exampleMembership :: membership where
  "exampleMembership = \<lparr>numberOfNodes = 0, nodesList = [], nodeMap = []\<rparr>"

theorem validated_nodes_form_cluster_witness:
  "nodesList (setNodes exampleMembership [5, 2, 3, 4]) = [2, 3, 4, 5] \<and>
   (\<exists>leader\<in>set [5, 2, 3, 4]. getLeaderID 5 (numberOfNodes (setNodes exampleMembership [5, 2, 3, 4]))
      (nodesList (setNodes exampleMembership [5, 2, 3, 4])) True 2 3 [] = Inr leader)"
proof -
  let ?c = "DefaultConfig\<lparr>SelfID := 2\<rparr>"
  have "ValidateConfiguration ?c [5, 2, 3, 4] = None"
    by (simp add: ValidateConfiguration_def Validate_def DefaultConfig_def)
  moreover have "membership_inv exampleMembership"
    by (simp add: membership_inv_def exampleMembership_def)
  moreover have "unat (5 + 2 div DecisionsPerLeader ?c) + length [5, 2, 3, 4 :: u64] \<le> 2 ^ 64"
    by (simp add: DefaultConfig_def)
  ultimately have "\<exists>leader\<in>set [5, 2, 3, 4].
      getLeaderID 5 (numberOfNodes (setNodes exampleMembership [5, 2, 3, 4]))
        (nodesList (setNodes exampleMembership [5, 2, 3, 4])) (LeaderRotation ?c) 2
        (DecisionsPerLeader ?c) [] = Inr leader"
    using validated_nodes_form_cluster [of ?c "[5, 2, 3, 4]" exampleMembership _ 5 2] by simp
  then show ?thesis
    by (simp add: DefaultConfig_def setNodes_def sortNodes_def)
qed

end
