(* ===== verification/Delivery.thy ===== *)
theory Delivery
  imports Proposing Config
begin

text \<open>
  Delivery to the application: \<open>MutuallyExclusiveDeliver\<close> (internal/bft/controller.go), which the controller
  and the view changer both deliver through, and \<open>Consensus.Deliver\<close> and \<open>Consensus.Sync\<close>
  (pkg/consensus/consensus.go), which hand a reconfiguration to the goroutine of \<open>Consensus\<close>.

  The application and its synchronizer are parameters. The state both goroutines share, the
  application and the checkpoint, is the record \<open>world\<close>; the calls run under \<open>syncLock\<close>, so each
  is one step.
\<close>

record Decision =
  dec_Proposal :: Proposal
  dec_Signatures :: "Signature list"

record Reconfig =
  InLatestDecision :: bool
  rc_CurrentNodes :: "u64 list"
  rc_CurrentConfig :: Configuration

record ReconfigSync =
  InReplicatedDecisions :: bool
  rs_CurrentNodes :: "u64 list"
  rs_CurrentConfig :: Configuration

record SyncResponse =
  Latest :: Decision
  sr_Reconfig :: ReconfigSync

record 'a application =
  app_Deliver :: "'a \<Rightarrow> Proposal \<Rightarrow> Signature list \<Rightarrow> 'a \<times> Reconfig"
  app_Sync :: "'a \<Rightarrow> 'a \<times> SyncResponse"

record 'a world =
  w_app :: 'a
  w_Checkpoint :: Checkpoint

text \<open>The last component: what is sent to \<open>reconfigChan\<close>.\<close>

definition Consensus_Deliver ::
  "'a application \<Rightarrow> 'a \<Rightarrow> Proposal \<Rightarrow> Signature list \<Rightarrow> 'a \<times> Reconfig \<times> Reconfig list" where
  "Consensus_Deliver A app proposal signatures =
     (let (app', reconfig) = app_Deliver A app proposal signatures
      in (app', reconfig, if InLatestDecision reconfig then [reconfig] else []))"

definition Consensus_Sync :: "'a application \<Rightarrow> 'a \<Rightarrow> 'a \<times> SyncResponse \<times> Reconfig list" where
  "Consensus_Sync A app =
     (let (app', syncResponse) = app_Sync A app; r = sr_Reconfig syncResponse
      in (app', syncResponse,
          if InReplicatedDecisions r
          then [\<lparr>InLatestDecision = True, rc_CurrentNodes = rs_CurrentNodes r, rc_CurrentConfig = rs_CurrentConfig r\<rparr>]
          else []))"

definition latestSeq :: "codec \<Rightarrow> Checkpoint \<Rightarrow> u64 outcome" where
  "latestSeq C ckp =
     (case unmarshalMetadata C (bytes_of (Metadata (fst (Checkpoint_Get ckp)))) of
        None \<Rightarrow> Inl (Panic ''Failed unmarshalling metadata'')
      | Some md \<Rightarrow> Inr (LatestSequence md))"

record deliverResult =
  dr_reconfig :: Reconfig
  dr_toReconfigChan :: "Reconfig list"
  dr_delivered :: bool    \<comment> \<open>\<open>Application.Deliver\<close> was called\<close>

definition MutuallyExclusiveDeliver ::
  "codec \<Rightarrow> 'a application \<Rightarrow> 'a world \<Rightarrow> Proposal \<Rightarrow> Signature list \<Rightarrow> ('a world \<times> deliverResult) outcome" where
  "MutuallyExclusiveDeliver C A w proposal signature =
     (case unmarshalMetadata C (bytes_of (Metadata proposal)) of
        None \<Rightarrow> Inl (Panic ''Failed unmarshalling metadata of pending proposal'')
      | Some pendingProposalMetadata \<Rightarrow>
          andThen (latestSeq C (w_Checkpoint w)) (\<lambda>latest.
            if latest \<noteq> 0 \<and> latest \<ge> LatestSequence pendingProposalMetadata then
              let (app', syncResult, toChan) = Consensus_Sync A (w_app w);
                  r = sr_Reconfig syncResult
              in Inr (w\<lparr>w_app := app',
                        w_Checkpoint := Checkpoint_Set (w_Checkpoint w) (dec_Proposal (Latest syncResult))
                                          (dec_Signatures (Latest syncResult))\<rparr>,
                      \<lparr>dr_reconfig = \<lparr>InLatestDecision = InReplicatedDecisions r,
                                     rc_CurrentNodes = rs_CurrentNodes r, rc_CurrentConfig = rs_CurrentConfig r\<rparr>,
                       dr_toReconfigChan = toChan, dr_delivered = False\<rparr>)
            else
              let (app', reconfig, toChan) = Consensus_Deliver A (w_app w) proposal signature
              in Inr (w\<lparr>w_app := app', w_Checkpoint := Checkpoint_Set (w_Checkpoint w) proposal signature\<rparr>,
                      \<lparr>dr_reconfig = reconfig, dr_toReconfigChan = toChan, dr_delivered = True\<rparr>)))"

text \<open>A sequence of deliveries of either goroutine, and the sequences that reached the application.\<close>

definition sequenceOf :: "codec \<Rightarrow> Proposal \<Rightarrow> u64 option" where
  "sequenceOf C p = map_option LatestSequence (unmarshalMetadata C (bytes_of (Metadata p)))"

fun deliverAll ::
  "codec \<Rightarrow> 'a application \<Rightarrow> 'a world \<Rightarrow> (Proposal \<times> Signature list) list \<Rightarrow> ('a world \<times> Proposal list) outcome" where
  "deliverAll C A w [] = Inr (w, [])"
| "deliverAll C A w ((p, sigs) # rest) =
     andThen (MutuallyExclusiveDeliver C A w p sigs) (\<lambda>(w1, r).
     andThen (deliverAll C A w1 rest) (\<lambda>(w2, ps). Inr (w2, if dr_delivered r then p # ps else ps)))"

subsection \<open>The application\<close>

text \<open>
  What pkg/api/dependencies.go documents of the application: after \<open>Deliver\<close> the proposal is stored, and \<open>Sync\<close>
  blocks until the node caught up and returns the latest decision. \<open>height\<close> reads the sequence of the latest
  stored decision.
\<close>

definition storesDecisions :: "codec \<Rightarrow> 'a application \<Rightarrow> ('a \<Rightarrow> u64) \<Rightarrow> bool" where
  "storesDecisions C A height \<longleftrightarrow>
     (\<forall>a p sigs s. sequenceOf C p = Some s \<longrightarrow> height (fst (app_Deliver A a p sigs)) = s) \<and>
     (\<forall>a. height a \<le> height (fst (app_Sync A a)) \<and>
        sequenceOf C (dec_Proposal (Latest (snd (app_Sync A a)))) = Some (height (fst (app_Sync A a))))"

definition atHeight :: "codec \<Rightarrow> ('a \<Rightarrow> u64) \<Rightarrow> 'a world \<Rightarrow> bool" where
  "atHeight C height w \<longleftrightarrow> latestSeq C (w_Checkpoint w) = Inr (height (w_app w))"

lemma MutuallyExclusiveDeliver_result:
  assumes "MutuallyExclusiveDeliver C A w p sigs = Inr (w', r)" "storesDecisions C A height" "atHeight C height w"
    and "sequenceOf C p = Some s" "s > 0"
  shows "atHeight C height w' \<and> height (w_app w) \<le> height (w_app w') \<and>
    (if dr_delivered r then height (w_app w) < s \<and> height (w_app w') = s else s \<le> height (w_app w))"
proof -
  obtain md where md: "unmarshalMetadata C (bytes_of (Metadata p)) = Some md" "LatestSequence md = s"
    using assms(4) by (auto simp: sequenceOf_def)
  have l: "latestSeq C (w_Checkpoint w) = Inr (height (w_app w))" using assms(3) by (simp add: atHeight_def)
  show ?thesis
  proof (cases "height (w_app w) \<noteq> 0 \<and> s \<le> height (w_app w)")
    case True
    obtain app' resp where sy: "app_Sync A (w_app w) = (app', resp)" by fastforce
    have "height (w_app w) \<le> height app'" "sequenceOf C (dec_Proposal (Latest resp)) = Some (height app')"
      using assms(2) sy unfolding storesDecisions_def by (metis fst_conv snd_conv)+
    then show ?thesis
      using assms(1) md l True sy
      by (auto simp: MutuallyExclusiveDeliver_def Consensus_Sync_def Let_def atHeight_def latestSeq_def sequenceOf_def)
  next
    case False
    obtain app' rc where de: "app_Deliver A (w_app w) p sigs = (app', rc)" by fastforce
    have "height app' = s" using assms(2,4) de unfolding storesDecisions_def by (metis fst_conv)
    moreover have "height (w_app w) < s" using False assms(5) by auto
    ultimately show ?thesis
      using assms(1) md l False de
      by (auto simp: MutuallyExclusiveDeliver_def Consensus_Deliver_def Let_def atHeight_def latestSeq_def)
  qed
qed

lemma deliverAll_result:
  assumes "deliverAll C A w calls = Inr (w', ps)" "storesDecisions C A height" "atHeight C height w"
    and "\<forall>(p, sigs)\<in>set calls. \<exists>s. sequenceOf C p = Some s \<and> s > 0"
  shows "atHeight C height w' \<and> height (w_app w) \<le> height (w_app w') \<and>
    (\<forall>p\<in>set ps. height (w_app w) < the (sequenceOf C p) \<and> the (sequenceOf C p) \<le> height (w_app w')) \<and>
    sorted_wrt (<) (map (\<lambda>p. the (sequenceOf C p)) ps)"
  using assms
proof (induction C A w calls arbitrary: w' ps rule: deliverAll.induct)
  case (2 C A w p sigs rest)
  obtain w1 r ps1 where r: "MutuallyExclusiveDeliver C A w p sigs = Inr (w1, r)"
    "deliverAll C A w1 rest = Inr (w', ps1)" "ps = (if dr_delivered r then p # ps1 else ps1)"
    using 2(2) by (auto simp: andThen_eq_Inr_iff)
  obtain s where s: "sequenceOf C p = Some s" "s > 0" using 2(5) by auto
  note one = MutuallyExclusiveDeliver_result [OF r(1) 2(3,4) s]
  have "atHeight C height w1" using one by blast
  then have ih: "atHeight C height w' \<and> height (w_app w1) \<le> height (w_app w') \<and>
    (\<forall>p\<in>set ps1. height (w_app w1) < the (sequenceOf C p) \<and> the (sequenceOf C p) \<le> height (w_app w')) \<and>
    sorted_wrt (<) (map (\<lambda>p. the (sequenceOf C p)) ps1)"
    using 2(1) [OF r(2) 2(3)] 2(5) by simp
  show ?case
  proof (cases "dr_delivered r")
    case True
    then show ?thesis using one ih s(1) r(3) by (auto simp: less_le_trans)
  next
    case False
    then show ?thesis using one ih r(3) by auto
  qed
qed simp

subsection \<open>An example\<close>

text \<open>An application that only keeps the sequence of its latest decision.\<close>

definition counterMetadata :: "u64 \<Rightarrow> bytes option" where
  "counterMetadata s = Some (marshalMetadata fullCodec (emptyViewMetadata\<lparr>LatestSequence := s\<rparr>))"

definition counterProposal :: "u64 \<Rightarrow> Proposal" where
  "counterProposal s = \<lparr>Payload = [], Header = [], Metadata = counterMetadata s, VerificationSequence = 0\<rparr>"

definition counterApp :: "u64 application" where
  "counterApp = \<lparr>app_Deliver = (\<lambda>a p sigs. (case sequenceOf fullCodec p of None \<Rightarrow> a | Some s \<Rightarrow> s,
       \<lparr>InLatestDecision = False, rc_CurrentNodes = [], rc_CurrentConfig = DefaultConfig\<rparr>)),
     app_Sync = (\<lambda>a. (a, \<lparr>Latest = \<lparr>dec_Proposal = counterProposal a, dec_Signatures = []\<rparr>,
       sr_Reconfig = \<lparr>InReplicatedDecisions = False, rs_CurrentNodes = [], rs_CurrentConfig = DefaultConfig\<rparr>\<rparr>))\<rparr>"

lemma sequenceOf_counter [simp]: "sequenceOf fullCodec (counterProposal s) = Some s"
  using fullCodec_roundtrip
  by (simp add: sequenceOf_def counterProposal_def counterMetadata_def metadataRoundtrip_def bytes_of_def)

lemma counterApp_stores: "storesDecisions fullCodec counterApp (\<lambda>a. a)"
  by (auto simp: storesDecisions_def counterApp_def)

definition counterWorld :: "u64 \<Rightarrow> u64 world" where
  "counterWorld s = \<lparr>w_app = s, w_Checkpoint = \<lparr>ckp_proposal = counterProposal s, ckp_signatures = []\<rparr>\<rparr>"

subsection \<open>Properties\<close>

text \<open>
  C9: nothing is delivered twice or backwards. Whatever the controller and the view changer deliver,
  and in whatever order, the application sees strictly increasing sequences above the one it started from, and the
  checkpoint always agrees with the application; a late decision is answered by a synchronization instead.
\<close>

theorem deliveries_strictly_increase:
  assumes "storesDecisions C A height" "atHeight C height w"
    and "\<forall>(p, sigs)\<in>set calls. \<exists>s. sequenceOf C p = Some s \<and> s > 0" "deliverAll C A w calls = Inr (w', ps)"
  shows "sorted_wrt (<) (map (\<lambda>p. the (sequenceOf C p)) ps) \<and>
    (\<forall>p\<in>set ps. height (w_app w) < the (sequenceOf C p)) \<and> latestSeq C (w_Checkpoint w') = Inr (height (w_app w'))"
  using deliverAll_result [OF assms(4,1,2,3)] by (simp add: atHeight_def)

theorem deliveries_strictly_increase_witness:
  "\<exists>w' ps. deliverAll fullCodec counterApp (counterWorld 4) (map (\<lambda>s. (counterProposal s, [])) [5, 4, 6, 5]) = Inr (w', ps) \<and>
     length ps = 2 \<and> sorted_wrt (<) (map (\<lambda>p. the (sequenceOf fullCodec p)) ps)"
proof -
  let ?calls = "map (\<lambda>s. (counterProposal s, [])) [5, 4, 6, 5]"
  have "case deliverAll fullCodec counterApp (counterWorld 4) ?calls of Inr (w, ps) \<Rightarrow> length ps = 2 | _ \<Rightarrow> False"
    by code_simp
  then obtain w' ps where r: "deliverAll fullCodec counterApp (counterWorld 4) ?calls = Inr (w', ps)" "length ps = 2"
    by (auto split: sum.splits)
  have "atHeight fullCodec (\<lambda>a. a) (counterWorld 4)"
    using sequenceOf_counter [of 4]
    by (auto simp: atHeight_def counterWorld_def latestSeq_def Checkpoint_Get_def sequenceOf_def split: option.splits)
  moreover have "\<forall>(p, sigs)\<in>set ?calls. \<exists>s. sequenceOf fullCodec p = Some s \<and> s > 0" by simp
  ultimately show ?thesis
    using deliveries_strictly_increase [OF counterApp_stores _ _ r(1)] r by blast
qed

end
