(* ===== verification/ViewChange.thy ===== *)
theory ViewChange
  imports InFlightCheck Delivery Persistence
begin

text \<open>
  The view changer (internal/bft/viewchanger.go). Its goroutine \<open>run\<close> handles one event at a time; a handler is a
  function on \<open>vcState\<close>: the view changer, the state it shares with the controller (the application,
  the checkpoint and the in-flight data) and the calls it made to other components, in the order of the code.

  \<open>commitInFlightProposal\<close> is the one place where a handler waits: it starts a view for the in-flight
  proposal and waits for its decision. There the goroutine is at \<open>VcInFlight\<close>, with the number of ticks
  still to wait before the view starts and whether \<open>processViewDataMsg\<close> continues afterwards. That view is the \<open>View\<close>
  of theory \<open>View\<close>, whose decider, failure detector and synchronizer is the view changer itself. The two unbuffered
  channels it reports through hold at most one blocked sender, the goroutine of the view.

  Times and durations are integers, in nanoseconds; \<open>Ticker\<close> delivers the time of a tick. Logging and
  metrics are left out. A nil metadata is \<open>None\<close>.
\<close>

subsection \<open>State\<close>

record change =
  ch_view :: u64
  ch_stopView :: bool

datatype vcPc =
    VcRun
  | VcInFlight nat bool
  | VcEnded

record ViewChanger =
  vc_SelfID :: u64
  vc_NodesList :: "u64 list"
  vc_N :: u64
  vc_f :: int
  vc_quorum :: int
  vc_SpeedUpViewChange :: bool
  vc_LeaderRotation :: bool
  vc_DecisionsPerLeader :: u64
  vc_inFlightDecide :: bool    \<comment> \<open>a sender waits on \<open>inFlightDecideChan\<close>\<close>
  vc_inFlightSync :: bool      \<comment> \<open>a sender waits on \<open>inFlightSyncChan\<close>\<close>
  vc_inFlightView :: "View option"
  vc_lastTick :: int
  vc_ResendTimeout :: int
  vc_lastResend :: int
  vc_ViewChangeTimeout :: int
  vc_startViewChangeTime :: int
  vc_checkTimeout :: bool
  vc_backOffFactor :: u64
  vc_Restore :: bool
  vc_InMsqQSize :: nat
  vc_incMsgs :: "(u64 \<times> Message) list"
  vc_viewChangeMsgs :: voteSet
  vc_viewDataMsgs :: voteSet
  vc_nvs :: nextViews
  vc_realView :: u64
  vc_currView :: u64
  vc_nextView :: u64
  vc_startChangeChan :: "change list"
  vc_informChan :: "u64 list"
  vc_committedDuringViewChange :: "ViewMetadata option"
  vc_stopped :: bool           \<comment> \<open>\<open>stopChan\<close> is closed\<close>
  vc_pc :: vcPc

datatype vcEffect =
    VcBroadcast Message
  | VcSend u64 Message
  | VcSave SavedMessage
  | VcAbortView u64
  | VcViewChanged u64 u64
  | VcStopTimers
  | VcRestartTimers
  | VcRemoveRequest RequestInfo
  | VcPrune
  | VcSync
  | VcDeliver Proposal "Signature list"
  | VcReconfig Reconfig
  | VcViewSequence ViewSequence

record 'a vcEnv =
  ve_codec :: codec
  ve_services :: "'a services"
  ve_application :: "'a application"
  ve_saveOK :: "SavedMessage \<Rightarrow> bool"
  ve_metricsFile :: bool

record 'a vcState =
  st_vc :: ViewChanger
  st_world :: "'a world"
  st_InFlight :: InFlightData
  st_effects :: "vcEffect list"

definition updVc :: "(ViewChanger \<Rightarrow> ViewChanger) \<Rightarrow> 'a vcState \<Rightarrow> 'a vcState" where
  "updVc g st = st\<lparr>st_vc := g (st_vc st)\<rparr>"

definition emit :: "vcEffect list \<Rightarrow> 'a vcState \<Rightarrow> 'a vcState" where
  "emit es st = st\<lparr>st_effects := st_effects st @ es\<rparr>"

definition saveState :: "'a vcEnv \<Rightarrow> SavedMessage \<Rightarrow> 'a vcState \<Rightarrow> 'a vcState outcome" where
  "saveState E m st =
     (if ve_saveOK E m then Inr (emit [VcSave m] st) else Inl (Panic ''Failed to save message to state''))"

abbreviation vcMetadata :: "'a vcEnv \<Rightarrow> Proposal \<Rightarrow> ViewMetadata option" where
  "vcMetadata E p \<equiv> unmarshalMetadata (ve_codec E) (bytes_of (Metadata p))"

abbreviation lastDecision :: "'a vcState \<Rightarrow> Proposal" where
  "lastDecision st \<equiv> fst (Checkpoint_Get (w_Checkpoint (st_world st)))"

subsection \<open>Starting and stopping\<close>

fun acceptViewChange :: "u64 \<Rightarrow> Message \<Rightarrow> bool" where
  "acceptViewChange sender (ViewChangeMsg next_view) = True"
| "acceptViewChange sender _ = False"

fun acceptViewData :: "u64 \<Rightarrow> Message \<Rightarrow> bool" where
  "acceptViewData sender (ViewDataMsg svd) = True"
| "acceptViewData sender _ = False"

definition vc_setupVotes :: "ViewChanger \<Rightarrow> ViewChanger" where
  "vc_setupVotes v =
     v\<lparr>vc_viewChangeMsgs := voteSet_clear (vc_N v), vc_viewDataMsgs := voteSet_clear (vc_N v)\<rparr>"

definition ViewChanger_Start :: "u64 \<Rightarrow> int \<Rightarrow> ViewChanger \<Rightarrow> ViewChanger" where
  "ViewChanger_Start startViewNumber now v =
     (vc_setupVotes (v\<lparr>vc_incMsgs := [], vc_startChangeChan := [], vc_informChan := [],
        vc_quorum := fst (computeQuorum (vc_N v)), vc_f := snd (computeQuorum (vc_N v)), vc_stopped := False\<rparr>))
     \<lparr>vc_nvs := nextViews_clear, vc_currView := startViewNumber, vc_realView := startViewNumber,
      vc_nextView := startViewNumber, vc_lastTick := now, vc_lastResend := now, vc_backOffFactor := 1,
      vc_inFlightDecide := False, vc_inFlightSync := False, vc_pc := VcRun\<rparr>"

definition vc_close :: "ViewChanger \<Rightarrow> ViewChanger" where
  "vc_close v = v\<lparr>vc_stopped := True\<rparr>"

text \<open>\<open>None\<close>: the channel is full and the view changer is not stopped, the caller waits.\<close>

definition vc_HandleMessage :: "u64 \<Rightarrow> Message \<Rightarrow> ViewChanger \<Rightarrow> ViewChanger option" where
  "vc_HandleMessage sender m v =
     (if length (vc_incMsgs v) < vc_InMsqQSize v then Some (v\<lparr>vc_incMsgs := vc_incMsgs v @ [(sender, m)]\<rparr>)
      else if vc_stopped v then Some v
      else None)"

definition InformNewView :: "u64 \<Rightarrow> ViewChanger \<Rightarrow> ViewChanger option" where
  "InformNewView view v =
     (if length (vc_informChan v) < 1 then Some (v\<lparr>vc_informChan := vc_informChan v @ [view]\<rparr>)
      else if vc_stopped v then Some v
      else None)"

definition StartViewChange :: "u64 \<Rightarrow> bool \<Rightarrow> ViewChanger \<Rightarrow> ViewChanger" where
  "StartViewChange view stopView v =
     (if length (vc_startChangeChan v) < 2
      then v\<lparr>vc_startChangeChan := vc_startChangeChan v @ [\<lparr>ch_view = view, ch_stopView = stopView\<rparr>]\<rparr>
      else v)"

subsection \<open>The leader of the next view\<close>

definition vc_blacklist :: "'a vcEnv \<Rightarrow> 'a vcState \<Rightarrow> u64 list outcome" where
  "vc_blacklist E st =
     (case vcMetadata E (lastDecision st) of
        None \<Rightarrow> Inl (Panic ''Failed unmarshalling metadata'')
      | Some md \<Rightarrow> Inr (BlackList md))"

definition getLeader :: "'a vcEnv \<Rightarrow> 'a vcState \<Rightarrow> u64 outcome" where
  "getLeader E st =
     (let v = st_vc st in
      andThen (vc_blacklist E st) (\<lambda>bl.
        getLeaderID (vc_currView v) (vc_N v) (vc_NodesList v) (vc_LeaderRotation v) 0 (vc_DecisionsPerLeader v) bl))"

subsection \<open>Timeouts\<close>

definition checkIfResendViewChange :: "int \<Rightarrow> 'a vcState \<Rightarrow> 'a vcState" where
  "checkIfResendViewChange now st =
     (let v = st_vc st in
      if vc_lastResend v + vc_ResendTimeout v > now then st
      else if vc_checkTimeout v
      then updVc (\<lambda>v. v\<lparr>vc_lastResend := now\<rparr>) (emit [VcBroadcast (ViewChangeMsg (vc_nextView v))] st)
      else st)"

definition checkIfTimeout :: "int \<Rightarrow> 'a vcState \<Rightarrow> bool \<times> 'a vcState" where
  "checkIfTimeout now st =
     (let v = st_vc st in
      if \<not> vc_checkTimeout v then (False, st)
      else if vc_startViewChangeTime v + durationMul (vc_ViewChangeTimeout v) (vc_backOffFactor v) > now
      then (False, st)
      else (True,
            updVc (\<lambda>v. StartViewChange (vc_currView v) False
                         (v\<lparr>vc_checkTimeout := False, vc_backOffFactor := vc_backOffFactor v + 1\<rparr>))
              (emit [VcSync] st)))"

subsection \<open>Joining a view change\<close>

definition informNewView :: "u64 \<Rightarrow> 'a vcState \<Rightarrow> 'a vcState" where
  "informNewView view st =
     (if view < vc_currView (st_vc st) then st
      else emit [VcRestartTimers]
        (updVc (\<lambda>v. v\<lparr>vc_currView := view, vc_realView := view, vc_nextView := view, vc_nvs := nextViews_clear,
                      vc_viewChangeMsgs := voteSet_clear (vc_N v), vc_viewDataMsgs := voteSet_clear (vc_N v),
                      vc_checkTimeout := False, vc_backOffFactor := 1\<rparr>) st))"

definition vc_startViewChange :: "change \<Rightarrow> 'a vcState \<Rightarrow> 'a vcState" where
  "vc_startViewChange ch st =
     (let v = st_vc st in
      if ch_view ch < vc_currView v then st
      else if vc_nextView v = vc_currView v + 1 then updVc (\<lambda>v. v\<lparr>vc_checkTimeout := True\<rparr>) st
      else
        updVc (\<lambda>v. v\<lparr>vc_nextView := vc_currView v + 1, vc_startViewChangeTime := vc_lastTick v,
                     vc_checkTimeout := True\<rparr>)
          (emit ([VcStopTimers, VcBroadcast (ViewChangeMsg (vc_currView v + 1))] @
                 (if ch_stopView ch then [VcAbortView (vc_currView v)] else [])) st))"

definition getInFlight :: "'a vcEnv \<Rightarrow> 'a vcState \<Rightarrow> Proposal option outcome" where
  "getInFlight E st =
     (case InFlightProposal (st_InFlight st) of
        None \<Rightarrow> Inr None
      | Some inFlight \<Rightarrow>
          if Metadata inFlight = None then Inl (Panic ''in flight proposal metadata is not set'')
          else case vcMetadata E inFlight of
            None \<Rightarrow> Inl (Panic ''unable to unmarshal its own in flight metadata'')
          | Some inFlightMetadata \<Rightarrow>
              if Metadata (lastDecision st) = None then Inr (Some inFlight)
              else case vcMetadata E (lastDecision st) of
                None \<Rightarrow> Inl (Panic ''unable to unmarshal its own last decision metadata from checkpoint'')
              | Some lastDecisionMetadata \<Rightarrow>
                  if LatestSequence inFlightMetadata = LatestSequence lastDecisionMetadata then Inr None
                  else if LatestSequence inFlightMetadata + 1 = LatestSequence lastDecisionMetadata \<and>
                       (case vc_committedDuringViewChange (st_vc st) of None \<Rightarrow> False
                        | Some md \<Rightarrow> LatestSequence md = LatestSequence lastDecisionMetadata)
                  then Inr None
                  else Inr (Some inFlight))"

definition prepareViewDataMsg :: "'a vcEnv \<Rightarrow> 'a vcState \<Rightarrow> SignedViewData outcome" where
  "prepareViewDataMsg E st =
     (let (decision, sigs) = Checkpoint_Get (w_Checkpoint (st_world st)) in
      andThen (getInFlight E st) (\<lambda>inFlight.
        let vd = \<lparr>vd_NextView = vc_currView (st_vc st), vd_LastDecision = Some decision,
                  vd_LastDecisionSignatures = sigs, vd_InFlightProposal = inFlight,
                  vd_InFlightPrepared = IsInFlightPrepared (st_InFlight st)\<rparr>;
            vdBytes = marshalViewData (ve_codec E) vd
        in Inr \<lparr>svd_RawViewData = vdBytes, svd_Signer = vc_SelfID (st_vc st),
                svd_Signature = api_Sign (ve_services E) (w_app (st_world st)) vdBytes\<rparr>))"

definition sendViewData :: "'a vcEnv \<Rightarrow> 'a vcState \<Rightarrow> 'a vcState outcome" where
  "sendViewData E st =
     andThen (prepareViewDataMsg E st) (\<lambda>svd.
     andThen (getLeader E st) (\<lambda>leader.
       if leader = vc_SelfID (st_vc st)
       then andThen (registerVote acceptViewData (vc_viewDataMsgs (st_vc st)) leader (ViewDataMsg svd))
              (\<lambda>vs. Inr (updVc (\<lambda>v. v\<lparr>vc_viewDataMsgs := vs\<rparr>) st))
       else Inr (emit [VcSend leader (ViewDataMsg svd)] st)))"

definition processViewChangeMsg :: "'a vcEnv \<Rightarrow> bool \<Rightarrow> 'a vcState \<Rightarrow> 'a vcState outcome" where
  "processViewChangeMsg E restore st =
     (let count = length (voted (vc_viewChangeMsgs (st_vc st)));
          v0 = st_vc st;
          join = (\<lambda>st. vc_startViewChange \<lparr>ch_view = vc_currView (st_vc st), ch_stopView = True\<rparr> st);
          st1 = (if int count = vc_f v0 + 1 \<and> vc_SpeedUpViewChange v0 \<or> restore then join st else st)
      in if int count < vc_quorum v0 - 1 \<and> \<not> restore then Inr st1
         else
           let st2 = (if \<not> vc_SpeedUpViewChange v0 then join st1 else st1) in
           andThen (if restore then Inr st2 else saveState E (SavedViewChange (vc_currView (st_vc st2))) st2) (\<lambda>st3.
             sendViewData E
               (updVc (\<lambda>v. v\<lparr>vc_currView := vc_nextView v, vc_viewChangeMsgs := voteSet_clear (vc_N v),
                             vc_viewDataMsgs := voteSet_clear (vc_N v)\<rparr>)
                  (emit [VcAbortView (vc_currView (st_vc st3))] st3))))"

subsection \<open>Checking the last decision of a node\<close>

text \<open>Delivery through \<open>MutuallyExclusiveDeliver\<close>; the requests are read after it.\<close>

definition deliverToApp :: "'a vcEnv \<Rightarrow> Proposal \<Rightarrow> Signature list \<Rightarrow> 'a vcState \<Rightarrow> 'a vcState outcome" where
  "deliverToApp E proposal signatures st =
     andThen (MutuallyExclusiveDeliver (ve_codec E) (ve_application E) (st_world st) proposal signatures) (\<lambda>(w, r).
       Inr (updVc (\<lambda>v. if InLatestDecision (dr_reconfig r) then vc_close v else v)
              (emit ((if dr_delivered r then [VcDeliver proposal signatures] else []) @
                     map VcReconfig (dr_toReconfigChan r)) (st\<lparr>st_world := w\<rparr>))))"

definition deliverDecision :: "'a vcEnv \<Rightarrow> Proposal \<Rightarrow> Signature list \<Rightarrow> 'a vcState \<Rightarrow> 'a vcState outcome" where
  "deliverDecision E proposal signatures st =
     andThen (deliverToApp E proposal signatures st) (\<lambda>st1.
       Inr (emit (map VcRemoveRequest (api_RequestsFromProposal (ve_services E) (w_app (st_world st1)) proposal) @ [VcPrune])
              st1))"

definition extractCurrentSequence :: "'a vcEnv \<Rightarrow> 'a vcState \<Rightarrow> (u64 \<times> Proposal) outcome" where
  "extractCurrentSequence E st =
     (if Metadata (lastDecision st) = None then Inr (0, lastDecision st)
      else case vcMetadata E (lastDecision st) of
        None \<Rightarrow> Inl (Panic ''unable to unmarshal its own last decision metadata from checkpoint'')
      | Some md \<Rightarrow> Inr (LatestSequence md, lastDecision st))"

definition verifySvd :: "'a vcEnv \<Rightarrow> SignedViewData \<Rightarrow> 'a vcState \<Rightarrow> bool" where
  "verifySvd E svd st =
     api_VerifySignature (ve_services E) (w_app (st_world st))
       \<lparr>Signer = svd_Signer svd, Value = svd_Signature svd, Msg = svd_RawViewData svd\<rparr>"

abbreviation vcVerifyConsenterSig :: "'a vcEnv \<Rightarrow> 'a vcState \<Rightarrow> Signature \<Rightarrow> Proposal \<Rightarrow> bytes option" where
  "vcVerifyConsenterSig E st \<equiv> api_VerifyConsenterSig (ve_services E) (w_app (st_world st))"

text \<open>The sender is one sequence ahead: its decision is validated and delivered, then its signature is checked.\<close>

definition deliverAhead ::
  "'a vcEnv \<Rightarrow> SignedViewData \<Rightarrow> ViewData \<Rightarrow> Proposal \<Rightarrow> ViewMetadata \<Rightarrow> u64 \<Rightarrow> 'a vcState \<Rightarrow>
   ((bool \<times> u64) \<times> 'a vcState) outcome" where
  "deliverAhead E svd vd decision md sender st =
     (case ValidateLastDecision (ve_codec E) (vcVerifyConsenterSig E st) vd (vc_quorum (st_vc st)) of
        Inl err \<Rightarrow> Inr ((False, 0), st)
      | Inr _ \<Rightarrow>
          andThen (deliverDecision E decision (vd_LastDecisionSignatures vd) st) (\<lambda>st1.
            let st2 = updVc (\<lambda>v. v\<lparr>vc_committedDuringViewChange := Some md\<rparr>) st1 in
            if vc_stopped (st_vc st2) then Inr ((False, 0), st2)
            else if svd_Signer svd \<noteq> sender then Inr ((False, 0), st2)
            else if \<not> verifySvd E svd st2 then Inr ((False, 0), st2)
            else Inr ((True, LatestSequence md), st2)))"

definition checkLastDecision ::
  "'a vcEnv \<Rightarrow> SignedViewData \<Rightarrow> u64 \<Rightarrow> 'a vcState \<Rightarrow> ((bool \<times> u64) \<times> 'a vcState) outcome" where
  "checkLastDecision E svd sender st =
     (case unmarshalViewData (ve_codec E) (svd_RawViewData svd) of
        None \<Rightarrow> Inr ((False, 0), st)
      | Some vd \<Rightarrow>
          (case vd_LastDecision vd of
             None \<Rightarrow> Inr ((False, 0), st)
           | Some decision \<Rightarrow>
               andThen (extractCurrentSequence E st) (\<lambda>(mySequence, myLastDecision).
                 if Metadata decision = None then Inr (if mySequence > 0 then (False, 0) else (True, 0), st)
                 else case vcMetadata E decision of
                   None \<Rightarrow> Inr ((False, 0), st)
                 | Some md \<Rightarrow>
                     if ViewId md \<ge> vd_NextView vd then Inr ((False, 0), st)
                     else if LatestSequence md > mySequence + 1 then Inr ((False, 0), st)
                     else if LatestSequence md < mySequence then Inr ((False, 0), st)
                     else if LatestSequence md = mySequence then
                       (if svd_Signer svd \<noteq> sender then Inr ((False, 0), st)
                        else if \<not> verifySvd E svd st then Inr ((False, 0), st)
                        else if \<not> proposalEqual decision myLastDecision then Inr ((False, 0), st)
                        else Inr ((True, LatestSequence md), st))
                     else if LatestSequence md \<noteq> mySequence + 1 then Inr ((False, 0), st)
                     else deliverAhead E svd vd decision md sender st)))"

definition validateViewDataMsg :: "'a vcEnv \<Rightarrow> SignedViewData \<Rightarrow> u64 \<Rightarrow> 'a vcState \<Rightarrow> (bool \<times> 'a vcState) outcome" where
  "validateViewDataMsg E svd sender st =
     andThen (getLeader E st) (\<lambda>leader.
       if leader \<noteq> vc_SelfID (st_vc st) then Inr (False, st)
       else case unmarshalViewData (ve_codec E) (svd_RawViewData svd) of
         None \<Rightarrow> Inr (False, st)
       | Some vd \<Rightarrow>
           if vd_NextView vd \<noteq> vc_currView (st_vc st) then Inr (False, st)
           else
             andThen (checkLastDecision E svd sender st) (\<lambda>((valid, lastDecisionSequence), st1).
               if \<not> valid then Inr (False, st1)
               else if ValidateInFlight (ve_codec E) (vd_InFlightProposal vd) lastDecisionSequence \<noteq> None
               then Inr (False, st1)
               else Inr (True, st1)))"

subsection \<open>Checking a new view message\<close>

text \<open>The results are \<open>valid\<close>, \<open>sync\<close> and \<open>deliver\<close>.\<close>

type_synonym newViewCheck = "bool \<times> bool \<times> bool"

definition newViewAhead ::
  "'a vcEnv \<Rightarrow> SignedViewData \<Rightarrow> ViewData \<Rightarrow> Proposal \<Rightarrow> ViewMetadata \<Rightarrow> 'a vcState \<Rightarrow>
   (newViewCheck \<times> 'a vcState) outcome" where
  "newViewAhead E svd vd decision md st =
     (case ValidateLastDecision (ve_codec E) (vcVerifyConsenterSig E st) vd (vc_quorum (st_vc st)) of
        Inl err \<Rightarrow> Inr ((False, False, False), st)
      | Inr _ \<Rightarrow>
          andThen (deliverDecision E decision (vd_LastDecisionSignatures vd) st) (\<lambda>st1.
            if vc_stopped (st_vc st1) then Inr ((False, False, False), st1)
            else if \<not> verifySvd E svd st1 then Inr ((False, False, False), st1)
            else if ValidateInFlight (ve_codec E) (vd_InFlightProposal vd) (LatestSequence md) \<noteq> None
            then Inr ((False, False, False), st1)
            else Inr ((True, False, True), st1)))"

text \<open>What one view data amounts to: it ends the check, it counts as valid, or the last decision is delivered.\<close>

datatype svdVerdict = SvdInvalid | SvdSync | SvdValid | SvdAhead ViewData Proposal ViewMetadata

definition judgeSvd :: "'a vcEnv \<Rightarrow> u64 \<Rightarrow> Proposal \<Rightarrow> SignedViewData \<Rightarrow> 'a vcState \<Rightarrow> svdVerdict" where
  "judgeSvd E mySequence myLastDecision svd st =
     (let inFlightOK = (\<lambda>vd s. ValidateInFlight (ve_codec E) (vd_InFlightProposal vd) s = None) in
      case unmarshalViewData (ve_codec E) (svd_RawViewData svd) of
        None \<Rightarrow> SvdInvalid
      | Some vd \<Rightarrow>
          if vd_NextView vd \<noteq> vc_currView (st_vc st) then SvdInvalid
          else case vd_LastDecision vd of
            None \<Rightarrow> SvdInvalid
          | Some decision \<Rightarrow>
              if Metadata decision = None then
                (if mySequence > 0 then (if inFlightOK vd 0 then SvdValid else SvdInvalid)
                 else if \<not> verifySvd E svd st then SvdInvalid
                 else if inFlightOK vd 0 then SvdValid else SvdInvalid)
              else case vcMetadata E decision of
                None \<Rightarrow> SvdInvalid
              | Some md \<Rightarrow>
                  if ViewId md \<ge> vd_NextView vd then SvdInvalid
                  else if LatestSequence md > mySequence + 1 then SvdSync
                  else if LatestSequence md < mySequence then
                    (if inFlightOK vd (LatestSequence md) then SvdValid else SvdInvalid)
                  else if LatestSequence md = mySequence then
                    (if \<not> verifySvd E svd st then SvdInvalid
                     else if \<not> proposalEqual decision myLastDecision then SvdInvalid
                     else if inFlightOK vd (LatestSequence md) then SvdValid else SvdInvalid)
                  else if LatestSequence md \<noteq> mySequence + 1 then SvdInvalid
                  else SvdAhead vd decision md)"

fun validateSvds ::
  "'a vcEnv \<Rightarrow> u64 \<Rightarrow> Proposal \<Rightarrow> SignedViewData list \<Rightarrow> u64 list \<Rightarrow> nat \<Rightarrow> 'a vcState \<Rightarrow>
   (newViewCheck \<times> 'a vcState) outcome" where
  "validateSvds E mySequence myLastDecision [] nodesMap validViewDataMsgs st =
     Inr ((\<not> int validViewDataMsgs < vc_quorum (st_vc st), False, False), st)"
| "validateSvds E mySequence myLastDecision (svd # svds) nodesMap validViewDataMsgs st =
     (if svd_Signer svd \<in> set nodesMap
      then validateSvds E mySequence myLastDecision svds nodesMap validViewDataMsgs st
      else case judgeSvd E mySequence myLastDecision svd st of
        SvdInvalid \<Rightarrow> Inr ((False, False, False), st)
      | SvdSync \<Rightarrow> Inr ((True, True, False), emit [VcSync] st)
      | SvdValid \<Rightarrow>
          validateSvds E mySequence myLastDecision svds (svd_Signer svd # nodesMap) (Suc validViewDataMsgs) st
      | SvdAhead vd decision md \<Rightarrow> newViewAhead E svd vd decision md st)"

definition validateNewViewMsg :: "'a vcEnv \<Rightarrow> SignedViewData list \<Rightarrow> 'a vcState \<Rightarrow> (newViewCheck \<times> 'a vcState) outcome" where
  "validateNewViewMsg E svds st =
     andThen (extractCurrentSequence E st) (\<lambda>(mySequence, myLastDecision).
       validateSvds E mySequence myLastDecision svds [] 0 st)"

text \<open>
  The loop that validates again after every delivery. The fuel counts its rounds; running out
  of it stands for a loop that does not end.
\<close>

fun newViewLoop ::
  "nat \<Rightarrow> 'a vcEnv \<Rightarrow> SignedViewData list \<Rightarrow> 'a vcState \<Rightarrow> ((bool \<times> bool) \<times> 'a vcState) outcome" where
  "newViewLoop 0 E svds st = Inl (Blocked ''processNewViewMsg'')"
| "newViewLoop (Suc n) E svds st =
     andThen (validateNewViewMsg E svds st) (\<lambda>((valid, calledSync, calledDeliver), st1).
       if calledDeliver then newViewLoop n E svds st1 else Inr ((valid, calledSync), st1))"

fun extractViewDataMessages :: "'a vcEnv \<Rightarrow> SignedViewData list \<Rightarrow> ViewData list outcome" where
  "extractViewDataMessages E [] = Inr []"
| "extractViewDataMessages E (svd # svds) =
     (case unmarshalViewData (ve_codec E) (svd_RawViewData svd) of
        None \<Rightarrow> Inl (Panic ''unable to unmarshal viewData from the newView message'')
      | Some vd \<Rightarrow> andThen (extractViewDataMessages E svds) (\<lambda>vds. Inr (vd # vds)))"

subsection \<open>Committing the proposal in flight\<close>

definition inFlightView :: "'a vcEnv \<Rightarrow> Proposal \<Rightarrow> ViewMetadata \<Rightarrow> 'a vcState \<Rightarrow> View" where
  "inFlightView E proposal proposalMD st =
     (let v = st_vc st;
          sig = api_SignProposal (ve_services E) (w_app (st_world st)) proposal []
      in \<lparr>v_DecisionsPerLeader = vc_DecisionsPerLeader v, v_SelfID = vc_SelfID v, v_N = vc_N v,
          v_NodesList = vc_NodesList v, v_LeaderID = vc_SelfID v, v_Quorum = vc_quorum v,
          v_Number = ViewId proposalMD, v_ProposalSequence = LatestSequence proposalMD, v_DecisionsInView = 0,
          v_Phase = PREPARED, v_InMsgQSize = vc_InMsqQSize v, v_lastVotedProposalByID = [], v_incMsgs = [],
          v_myProposalSig = Some sig, v_inFlightProposal = Some proposal, v_inFlightRequests = [],
          v_lastBroadcastSent = Some (CommitMsg \<lparr>cmt_View = ViewId proposalMD, cmt_Seq = LatestSequence proposalMD,
             cmt_Digest = Digest (ve_codec E) proposal, cmt_Signature = Some sig, cmt_Assist = False\<rparr>),
          v_currPrepareSent = None, v_currCommitSent = None, v_prevPrepareSent = None, v_prevCommitSent = None,
          v_prePrepare = None, v_prepares = voteSet_clear 0, v_commits = voteSet_clear 0, v_nextPrePrepare = None,
          v_nextPrepares = voteSet_clear 0, v_nextCommits = voteSet_clear 0, v_blacklistSupported = False,
          v_abortChan = None, v_pc = NotStarted\<rparr>)"

text \<open>\<open>Some b\<close>: the function returned \<open>b\<close>; \<open>None\<close>: it waits for the view it made.\<close>

definition commitInFlightProposal :: "'a vcEnv \<Rightarrow> Proposal option \<Rightarrow> 'a vcState \<Rightarrow> (bool option \<times> 'a vcState) outcome" where
  "commitInFlightProposal E proposal st =
     (case proposal of
        None \<Rightarrow> Inl (Panic ''The in flight proposal is nil'')
      | Some p \<Rightarrow>
          (case vcMetadata E p of
             None \<Rightarrow> Inl (Panic ''unable to unmarshal the in flight proposal metadata'')
           | Some proposalMD \<Rightarrow>
               let wait = (None, updVc (\<lambda>v. v\<lparr>vc_inFlightView := Some (inFlightView E p proposalMD st),
                                               vc_pc := VcInFlight 2 False\<rparr>) st)
               in if Metadata (lastDecision st) = None then Inr wait
                  else case vcMetadata E (lastDecision st) of
                    None \<Rightarrow> Inl (Panic ''unable to unmarshal its own last decision metadata from checkpoint'')
                  | Some lastDecisionMD \<Rightarrow>
                      if LatestSequence lastDecisionMD = LatestSequence proposalMD
                      then Inr (Some (proposalEqual (lastDecision st) p), st)
                      else if LatestSequence lastDecisionMD \<noteq> LatestSequence proposalMD - 1
                      then Inl (Panic ''got an in flight proposal that does not follow the last decision'')
                      else Inr wait))"

text \<open>The end of \<open>processNewViewMsg\<close>.\<close>

definition finishNewView :: "'a vcEnv \<Rightarrow> 'a vcState \<Rightarrow> 'a vcState outcome" where
  "finishNewView E st =
     andThen (extractCurrentSequence E st) (\<lambda>(mySequence, _).
     andThen (saveState E (SavedNewView (emptyViewMetadata\<lparr>ViewId := vc_currView (st_vc st),
                             LatestSequence := mySequence\<rparr>)) st) (\<lambda>st1.
       if vc_stopped (st_vc st1) then Inr st1
       else Inr (updVc (\<lambda>v. v\<lparr>vc_checkTimeout := False, vc_backOffFactor := 1\<rparr>)
              (emit [VcViewChanged (vc_currView (st_vc st1)) (mySequence + 1), VcRestartTimers]
                (updVc (\<lambda>v. v\<lparr>vc_realView := vc_currView v, vc_nvs := nextViews_clear\<rparr>) st1)))))"

definition processNewViewMsg :: "'a vcEnv \<Rightarrow> SignedViewData list \<Rightarrow> 'a vcState \<Rightarrow> 'a vcState outcome" where
  "processNewViewMsg E svds st =
     andThen (newViewLoop (Suc (length svds)) E svds st) (\<lambda>((valid, calledSync), st1).
       if \<not> valid \<or> calledSync then Inr st1
       else
         andThen (extractViewDataMessages E svds) (\<lambda>vds.
         andThen (CheckInFlight (ve_codec E) vds (vc_f (st_vc st1)) (vc_quorum (st_vc st1))) (\<lambda>res.
           case res of
             Inl err \<Rightarrow> Inl (Panic ''The check of the in flight proposal returned an error'')
           | Inr (ok, noInFlight, inFlightProposal) \<Rightarrow>
               if \<not> ok then Inr st1
               else if noInFlight then finishNewView E st1
               else andThen (commitInFlightProposal E inFlightProposal st1) (\<lambda>(committed, st2).
                      if committed = Some True then finishNewView E st2 else Inr st2))))"

text \<open>The branch of \<open>processMsg\<close> for a new view message.\<close>

definition handleNewView :: "'a vcEnv \<Rightarrow> u64 \<Rightarrow> SignedViewData list \<Rightarrow> 'a vcState \<Rightarrow> 'a vcState outcome" where
  "handleNewView E sender svds st =
     andThen (getLeader E st) (\<lambda>leader.
       if sender \<noteq> leader then Inr st else processNewViewMsg E svds st)"

subsection \<open>The view data messages at the leader\<close>

fun viewDataOf :: "vote list \<Rightarrow> SignedViewData list outcome" where
  "viewDataOf [] = Inr []"
| "viewDataOf (vt # vts) =
     (case vote_Message vt of
        ViewDataMsg svd \<Rightarrow> andThen (viewDataOf vts) (\<lambda>svds. Inr (svd # svds))
      | _ \<Rightarrow> Inl (Panic ''nil view data''))"

definition clearViewData :: "'a vcState \<Rightarrow> 'a vcState" where
  "clearViewData st = updVc (\<lambda>v. v\<lparr>vc_viewDataMsgs := voteSet_clear (vc_N v)\<rparr>) st"

definition processViewDataMsg :: "'a vcEnv \<Rightarrow> 'a vcState \<Rightarrow> 'a vcState outcome" where
  "processViewDataMsg E st =
     (let v = st_vc st in
      if int (length (voted (vc_viewDataMsgs v))) < vc_quorum v then Inr st
      else
        andThen (viewDataOf (votes (vc_viewDataMsgs v))) (\<lambda>svds.
        andThen (extractViewDataMessages E svds) (\<lambda>vds.
        andThen (CheckInFlight (ve_codec E) vds (vc_f v) (vc_quorum v)) (\<lambda>res.
          case res of
            Inl err \<Rightarrow> Inl (Panic ''checked the in flight and it got an error'')
          | Inr (ok, _, _) \<Rightarrow>
              if \<not> ok then Inr st
              else
                andThen (prepareViewDataMsg E st) (\<lambda>mySvd.
                andThen (viewDataOf (filter (\<lambda>vt. vote_sender vt \<noteq> vc_SelfID v) (votes (vc_viewDataMsgs v)))) (\<lambda>others.
                  let msg = mySvd # others;
                      st1 = emit [VcBroadcast (NewViewMsg msg)]
                              (updVc (\<lambda>v. v\<lparr>vc_viewDataMsgs := (vc_viewDataMsgs v)\<lparr>votes := []\<rparr>\<rparr>) st)
                  in andThen (handleNewView E (vc_SelfID v) msg st1) (\<lambda>st2.
                       case vc_pc (st_vc st2) of
                         VcInFlight n _ \<Rightarrow> Inr (updVc (\<lambda>v. v\<lparr>vc_pc := VcInFlight n True\<rparr>) st2)
                       | _ \<Rightarrow> Inr (clearViewData st2)))))))) "

subsection \<open>Messages\<close>

definition vc_processMsg :: "'a vcEnv \<Rightarrow> u64 \<Rightarrow> Message \<Rightarrow> 'a vcState \<Rightarrow> 'a vcState outcome" where
  "vc_processMsg E sender m st =
     (case m of
        ViewChangeMsg next_view \<Rightarrow>
          (let st1 = updVc (\<lambda>v. v\<lparr>vc_nvs := registerNext (vc_nvs v) next_view sender\<rparr>) st; v = st_vc st1 in
           if next_view = vc_currView v + 1 then
             andThen (registerVote acceptViewChange (vc_viewChangeMsgs v) sender m) (\<lambda>vs.
               processViewChangeMsg E False (updVc (\<lambda>v. v\<lparr>vc_viewChangeMsgs := vs\<rparr>) st1))
           else if vc_nextView v = vc_currView v + 1 \<and> next_view > vc_realView v \<and> next_view < vc_currView v + 1 \<and>
                   sendRecv (vc_nvs v) next_view sender
           then Inr (emit [VcBroadcast (ViewChangeMsg next_view)] st1)
           else Inr st1)
      | ViewDataMsg svd \<Rightarrow>
          andThen (validateViewDataMsg E svd sender st) (\<lambda>(valid, st1).
            if \<not> valid then Inr st1
            else andThen (registerVote acceptViewData (vc_viewDataMsgs (st_vc st1)) sender m) (\<lambda>vs.
                   processViewDataMsg E (updVc (\<lambda>v. v\<lparr>vc_viewDataMsgs := vs\<rparr>) st1)))
      | NewViewMsg svds \<Rightarrow> handleNewView E sender svds st
      | _ \<Rightarrow> Inr st)"

subsection \<open>The view for the proposal in flight\<close>

text \<open>\<open>HandleViewMessage\<close> waits for the lock until the view has started.\<close>

definition HandleViewMessage :: "u64 \<Rightarrow> Message \<Rightarrow> ViewChanger \<Rightarrow> ViewChanger option" where
  "HandleViewMessage sender m v =
     (case vc_inFlightView v of
        None \<Rightarrow> Some v
      | Some view \<Rightarrow>
          (case vc_pc v of
             VcInFlight (Suc n) _ \<Rightarrow> None
           | _ \<Rightarrow> map_option (\<lambda>view'. v\<lparr>vc_inFlightView := Some view'\<rparr>) (View_HandleMessage view sender m)))"

text \<open>\<open>Decide\<close> of the view changer: the goroutine of the view then waits until the decision is taken note of.\<close>

definition vc_Decide ::
  "'a vcEnv \<Rightarrow> Proposal \<Rightarrow> Signature list \<Rightarrow> RequestInfo list \<Rightarrow> 'a vcState \<Rightarrow> 'a vcState outcome" where
  "vc_Decide E proposal signatures requests st =
     andThen (deliverToApp E proposal signatures (updVc (\<lambda>v. v\<lparr>vc_inFlightView := map_option view_stop (vc_inFlightView v)\<rparr>) st))
       (\<lambda>st1. Inr (updVc (\<lambda>v. v\<lparr>vc_inFlightDecide := True\<rparr>) (emit (map VcRemoveRequest requests @ [VcPrune]) st1)))"

definition viewEffectStep :: "'a vcEnv \<Rightarrow> viewEffect \<Rightarrow> 'a vcState \<Rightarrow> 'a vcState outcome" where
  "viewEffectStep E e st =
     (case e of
        Broadcast m \<Rightarrow> Inr (emit [VcBroadcast m] st)
      | SendConsensus n m \<Rightarrow> Inr (emit [VcSend n m] st)
      | SaveState m \<Rightarrow> Inr (emit [VcSave m] st)
      | Complain view stopView \<Rightarrow> Inl (Panic ''has complained while in the view for the in flight proposal'')
      | SyncCall \<Rightarrow> Inr (updVc (\<lambda>v. v\<lparr>vc_inFlightSync := True\<rparr>) (emit [VcSync] st))
      | Decide proposal signatures requests \<Rightarrow> vc_Decide E proposal signatures requests st
      | StoreViewSequence s \<Rightarrow> Inr (emit [VcViewSequence s] st))"

fun viewEffects :: "'a vcEnv \<Rightarrow> viewEffect list \<Rightarrow> 'a vcState \<Rightarrow> 'a vcState outcome" where
  "viewEffects E [] st = Inr st"
| "viewEffects E (e # es) st = andThen (viewEffectStep E e st) (viewEffects E es)"

definition inFlightEnv :: "'a vcEnv \<Rightarrow> 'a vcState \<Rightarrow> 'a viewEnv" where
  "inFlightEnv E st = \<lparr>env_codec = ve_codec E, env_services = ve_services E, env_app = w_app (st_world st),
     env_checkpoint = w_Checkpoint (st_world st), env_saveOK = ve_saveOK E\<rparr>"

text \<open>A step of the goroutine of that view; it does nothing while it waits on one of the two channels.\<close>

definition inFlightStep :: "'a vcEnv \<Rightarrow> viewChoice \<Rightarrow> 'a vcState \<Rightarrow> 'a vcState outcome" where
  "inFlightStep E ch st =
     (let v = st_vc st in
      case vc_inFlightView v of
        None \<Rightarrow> Inr st
      | Some view \<Rightarrow>
          if vc_inFlightDecide v \<or> vc_inFlightSync v then Inr st
          else
            andThen (viewStep (inFlightEnv E st) view ch) (\<lambda>(view', effs).
              viewEffects E effs (updVc (\<lambda>v. v\<lparr>vc_inFlightView := Some view'\<rparr>) st)))"

text \<open>
  The deferred \<open>Abort\<close> of the view: it waits for its goroutine, which ends unless it was
  never started or is still waiting on a channel (\<open>Decide\<close> also gives up when the view changer stops).
\<close>

definition abortInFlight :: "'a vcState \<Rightarrow> 'a vcState outcome" where
  "abortInFlight st =
     (let v = st_vc st in
      case vc_inFlightView v of
        None \<Rightarrow> Inr st
      | Some view \<Rightarrow>
          if v_pc view = NotStarted \<or> vc_inFlightSync v \<or> vc_inFlightDecide v \<and> \<not> vc_stopped v
          then Inl (Blocked ''viewEnded'')
          else Inr (updVc (\<lambda>v. v\<lparr>vc_inFlightView := Some ((view_stop view)\<lparr>v_pc := Ended\<rparr>), vc_inFlightDecide := False\<rparr>) st))"

text \<open>\<open>commitInFlightProposal\<close> returns: the rest of \<open>processNewViewMsg\<close> and of \<open>processViewDataMsg\<close>.\<close>

definition resumeInFlight :: "'a vcEnv \<Rightarrow> bool \<Rightarrow> bool \<Rightarrow> 'a vcState \<Rightarrow> 'a vcState outcome" where
  "resumeInFlight E committed clearAfter st =
     andThen (abortInFlight st) (\<lambda>st1.
       let st2 = updVc (\<lambda>v. v\<lparr>vc_pc := VcRun\<rparr>) st1 in
       andThen (if committed then finishNewView E st2 else Inr st2) (\<lambda>st3.
         Inr (if clearAfter then clearViewData st3 else st3)))"

subsection \<open>The goroutine\<close>

datatype 'a vcChoice =
    VcHandle u64 Message              \<comment> \<open>\<open>HandleMessage\<close> of another goroutine\<close>
  | VcHandleView u64 Message          \<comment> \<open>\<open>HandleViewMessage\<close> of another goroutine\<close>
  | VcInformCall u64                  \<comment> \<open>\<open>InformNewView\<close> of another goroutine\<close>
  | VcStartCall u64 bool              \<comment> \<open>\<open>StartViewChange\<close> of another goroutine\<close>
  | VcCloseCall                       \<comment> \<open>\<open>close\<close> of another goroutine\<close>
  | VcShared "'a world" InFlightData  \<comment> \<open>the controller changed the shared state\<close>
  | VcViewStep viewChoice             \<comment> \<open>a step of the view for the proposal in flight\<close>
  | VcTakeStop
  | VcTakeChange
  | VcTakeMsg
  | VcTick int
  | VcTakeInform
  | VcTakeRestore
  | VcTakeDecide
  | VcTakeSync

definition runTick :: "int \<Rightarrow> 'a vcState \<Rightarrow> 'a vcState" where
  "runTick now st =
     snd (checkIfTimeout now (checkIfResendViewChange now (updVc (\<lambda>v. v\<lparr>vc_lastTick := now\<rparr>) st)))"

text \<open>A tick while \<open>commitInFlightProposal\<close> waits.\<close>

definition waitTick :: "'a vcEnv \<Rightarrow> nat \<Rightarrow> bool \<Rightarrow> int \<Rightarrow> 'a vcState \<Rightarrow> 'a vcState outcome" where
  "waitTick E ticks clearAfter now st =
     (case ticks of
        Suc n \<Rightarrow>
          Inr (updVc (\<lambda>v. v\<lparr>vc_pc := VcInFlight n clearAfter,
                            vc_inFlightView := (if n = 0 then map_option (View_Start (ve_metricsFile E)) (vc_inFlightView v)
                                                else vc_inFlightView v)\<rparr>) st)
      | 0 \<Rightarrow>
          (let (timeout, st1) = checkIfTimeout now (updVc (\<lambda>v. v\<lparr>vc_lastTick := now\<rparr>) st)
           in if timeout then resumeInFlight E False clearAfter st1 else Inr st1))"

definition runStep :: "'a vcEnv \<Rightarrow> 'a vcChoice \<Rightarrow> 'a vcState \<Rightarrow> 'a vcState outcome" where
  "runStep E ch st =
     (let v = st_vc st in
      case ch of
        VcTakeStop \<Rightarrow> Inr (if vc_stopped v then updVc (\<lambda>v. v\<lparr>vc_pc := VcEnded\<rparr>) st else st)
      | VcTakeChange \<Rightarrow>
          (case vc_startChangeChan v of
             [] \<Rightarrow> Inr st
           | c # cs \<Rightarrow> Inr (vc_startViewChange c (updVc (\<lambda>v. v\<lparr>vc_startChangeChan := cs\<rparr>) st)))
      | VcTakeMsg \<Rightarrow>
          (case vc_incMsgs v of
             [] \<Rightarrow> Inr st
           | (sender, m) # rest \<Rightarrow> vc_processMsg E sender m (updVc (\<lambda>v. v\<lparr>vc_incMsgs := rest\<rparr>) st))
      | VcTick now \<Rightarrow> Inr (runTick now st)
      | VcTakeInform \<Rightarrow>
          (case vc_informChan v of
             [] \<Rightarrow> Inr st
           | info # rest \<Rightarrow> Inr (informNewView info (updVc (\<lambda>v. v\<lparr>vc_informChan := rest\<rparr>) st)))
      | VcTakeRestore \<Rightarrow>
          (if vc_Restore v then processViewChangeMsg E True (updVc (\<lambda>v. v\<lparr>vc_Restore := False\<rparr>) st) else Inr st)
      | _ \<Rightarrow> Inr st)"

definition waitStep :: "'a vcEnv \<Rightarrow> nat \<Rightarrow> bool \<Rightarrow> 'a vcChoice \<Rightarrow> 'a vcState \<Rightarrow> 'a vcState outcome" where
  "waitStep E ticks clearAfter ch st =
     (case ch of
        VcTick now \<Rightarrow> waitTick E ticks clearAfter now st
      | VcTakeDecide \<Rightarrow>
          (if ticks = 0 \<and> vc_inFlightDecide (st_vc st)
           then resumeInFlight E True clearAfter (updVc (\<lambda>v. v\<lparr>vc_inFlightDecide := False\<rparr>) st) else Inr st)
      | VcTakeSync \<Rightarrow>
          (if ticks = 0 \<and> vc_inFlightSync (st_vc st)
           then resumeInFlight E False clearAfter (updVc (\<lambda>v. v\<lparr>vc_inFlightSync := False\<rparr>) st) else Inr st)
      | VcTakeStop \<Rightarrow>
          (if ticks = 0 \<and> vc_stopped (st_vc st) then resumeInFlight E False clearAfter st else Inr st)
      | _ \<Rightarrow> Inr st)"

definition vcCall :: "(ViewChanger \<Rightarrow> ViewChanger option) \<Rightarrow> 'a vcState \<Rightarrow> 'a vcState" where
  "vcCall g st = (case g (st_vc st) of None \<Rightarrow> st | Some v \<Rightarrow> st\<lparr>st_vc := v\<rparr>)"

definition vcStep :: "'a vcEnv \<Rightarrow> 'a vcChoice \<Rightarrow> 'a vcState \<Rightarrow> 'a vcState outcome" where
  "vcStep E ch st =
     (case ch of
        VcHandle sender m \<Rightarrow> Inr (vcCall (vc_HandleMessage sender m) st)
      | VcHandleView sender m \<Rightarrow> Inr (vcCall (HandleViewMessage sender m) st)
      | VcInformCall view \<Rightarrow> Inr (vcCall (InformNewView view) st)
      | VcStartCall view stopView \<Rightarrow> Inr (updVc (StartViewChange view stopView) st)
      | VcCloseCall \<Rightarrow> Inr (updVc vc_close st)
      | VcShared w ifp \<Rightarrow> Inr (st\<lparr>st_world := w, st_InFlight := ifp\<rparr>)
      | VcViewStep c \<Rightarrow> inFlightStep E c st
      | _ \<Rightarrow> (case vc_pc (st_vc st) of
               VcRun \<Rightarrow> runStep E ch st
             | VcInFlight ticks clearAfter \<Rightarrow> waitStep E ticks clearAfter ch st
             | VcEnded \<Rightarrow> Inr st))"

fun vcRun :: "'a vcState \<Rightarrow> ('a vcEnv \<times> 'a vcChoice) list \<Rightarrow> 'a vcState outcome" where
  "vcRun st [] = Inr st"
| "vcRun st ((E, ch) # steps) = andThen (vcStep E ch st) (\<lambda>st1. vcRun st1 steps)"

end
