(* ===== verification/ViewChangeSafety.thy ===== *)
theory ViewChangeSafety
  imports ViewChange
begin

text \<open>
  Properties of the view changer: which fields and calls each handler may touch, the order of
  the view numbers, the quorum behind every new view, the end of the validation loop, and that the view
  for the in-flight proposal never complains.
\<close>

subsection \<open>Frames\<close>

lemma vcState_simps [simp]:
  "st_vc (emit es st) = st_vc st" "st_world (emit es st) = st_world st" "st_InFlight (emit es st) = st_InFlight st"
  "st_effects (emit es st) = st_effects st @ es" "st_vc (updVc g st) = g (st_vc st)"
  "st_world (updVc g st) = st_world st" "st_InFlight (updVc g st) = st_InFlight st"
  "st_effects (updVc g st) = st_effects st"
  by (simp_all add: emit_def updVc_def)

text \<open>Calls that neither change the view nor speak to other nodes.\<close>

fun quietVc :: "vcEffect \<Rightarrow> bool" where
  "quietVc (VcBroadcast m) = False"
| "quietVc (VcSend n m) = False"
| "quietVc (VcSave m) = False"
| "quietVc (VcAbortView n) = False"
| "quietVc (VcViewChanged n s) = False"
| "quietVc _ = True"

definition vcFrame :: "'a vcState \<Rightarrow> 'a vcState \<Rightarrow> bool" where
  "vcFrame st st' \<longleftrightarrow>
     (\<exists>b c. st_vc st' = (st_vc st)\<lparr>vc_stopped := b, vc_committedDuringViewChange := c\<rparr>) \<and>
     (\<exists>es. st_effects st' = st_effects st @ es \<and> list_all quietVc es)"

lemma vcFrame_refl [simp, intro]: "vcFrame st st"
proof -
  have "st_vc st = (st_vc st)\<lparr>vc_stopped := vc_stopped (st_vc st),
      vc_committedDuringViewChange := vc_committedDuringViewChange (st_vc st)\<rparr>" by simp
  then have "\<exists>b c. st_vc st = (st_vc st)\<lparr>vc_stopped := b, vc_committedDuringViewChange := c\<rparr>" by blast
  then show ?thesis unfolding vcFrame_def by simp
qed

lemma vcFrame_trans: "vcFrame st st1 \<Longrightarrow> vcFrame st1 st2 \<Longrightarrow> vcFrame st st2"
  unfolding vcFrame_def by (elim conjE exE) (auto simp: list_all_append)

lemma vcFrame_emit: "list_all quietVc es \<Longrightarrow> vcFrame st st1 \<Longrightarrow> vcFrame st (emit es st1)"
  by (auto simp: vcFrame_def list_all_append)

lemma vcFrame_fields:
  assumes "vcFrame st st'"
  shows "vc_currView (st_vc st') = vc_currView (st_vc st)" "vc_nextView (st_vc st') = vc_nextView (st_vc st)"
    "vc_realView (st_vc st') = vc_realView (st_vc st)" "vc_pc (st_vc st') = vc_pc (st_vc st)"
    "vc_quorum (st_vc st') = vc_quorum (st_vc st)" "vc_f (st_vc st') = vc_f (st_vc st)"
    "vc_SelfID (st_vc st') = vc_SelfID (st_vc st)" "vc_N (st_vc st') = vc_N (st_vc st)"
    "vc_viewDataMsgs (st_vc st') = vc_viewDataMsgs (st_vc st)" "vc_viewChangeMsgs (st_vc st') = vc_viewChangeMsgs (st_vc st)"
    "vc_inFlightView (st_vc st') = vc_inFlightView (st_vc st)" "vc_informChan (st_vc st') = vc_informChan (st_vc st)"
    "vc_inFlightDecide (st_vc st') = vc_inFlightDecide (st_vc st)" "vc_inFlightSync (st_vc st') = vc_inFlightSync (st_vc st)"
    "vc_SpeedUpViewChange (st_vc st') = vc_SpeedUpViewChange (st_vc st)"
  using assms by (auto simp: vcFrame_def)

lemma deliverToApp_frame:
  assumes "deliverToApp E p sigs st = Inr st'"
  shows "vcFrame st st'"
proof -
  obtain w r where m: "MutuallyExclusiveDeliver (ve_codec E) (ve_application E) (st_world st) p sigs = Inr (w, r)"
    using assms by (auto simp: deliverToApp_def andThen_eq_Inr_iff)
  let ?b = "vc_stopped (st_vc st) \<or> InLatestDecision (dr_reconfig r)"
  have "st_vc st' = (st_vc st)\<lparr>vc_stopped := ?b, vc_committedDuringViewChange := vc_committedDuringViewChange (st_vc st)\<rparr>"
    "st_effects st' = st_effects st @ ((if dr_delivered r then [VcDeliver p sigs] else []) @
       map VcReconfig (dr_toReconfigChan r))"
    using assms m by (auto simp: deliverToApp_def vc_close_def)
  moreover have "list_all quietVc ((if dr_delivered r then [VcDeliver p sigs] else []) @ map VcReconfig (dr_toReconfigChan r))"
    by (auto simp: list_all_iff)
  ultimately show ?thesis unfolding vcFrame_def by blast
qed

lemma deliverDecision_frame:
  assumes "deliverDecision E p sigs st = Inr st'"
  shows "vcFrame st st'"
proof -
  obtain st1 where "deliverToApp E p sigs st = Inr st1"
    "st' = emit (map VcRemoveRequest (api_RequestsFromProposal (ve_services E) (w_app (st_world st1)) p) @ [VcPrune]) st1"
    using assms by (auto simp: deliverDecision_def andThen_eq_Inr_iff)
  then show ?thesis using deliverToApp_frame by (auto intro!: vcFrame_emit simp: list_all_iff)
qed

lemma vcFrame_committed:
  "vcFrame st st1 \<Longrightarrow> vcFrame st (updVc (\<lambda>v. v\<lparr>vc_committedDuringViewChange := c\<rparr>) st1)"
  unfolding vcFrame_def by fastforce

text \<open>Rules that walk through the branches of a handler.\<close>

definition framed :: "('r \<times> 'a vcState) outcome \<Rightarrow> 'a vcState \<Rightarrow> bool" where
  "framed r st \<longleftrightarrow> (\<forall>x st'. r = Inr (x, st') \<longrightarrow> vcFrame st st')"

lemma framed_rules:
  "vcFrame st st' \<Longrightarrow> framed (Inr (x, st')) st"
  "framed (Inl e) st"
  "(c \<Longrightarrow> framed a st) \<Longrightarrow> (\<not> c \<Longrightarrow> framed b st) \<Longrightarrow> framed (if c then a else b) st"
  "(opt = None \<Longrightarrow> framed a st) \<Longrightarrow> (\<And>y. opt = Some y \<Longrightarrow> framed (k y) st) \<Longrightarrow>
     framed (case opt of None \<Rightarrow> a | Some y \<Rightarrow> k y) st"
  "(\<And>e. res = Inl e \<Longrightarrow> framed (g e) st) \<Longrightarrow> (\<And>y. res = Inr y \<Longrightarrow> framed (h y) st) \<Longrightarrow>
     framed (case res of Inl e \<Rightarrow> g e | Inr y \<Rightarrow> h y) st"
  "(\<And>y. out = Inr y \<Longrightarrow> framed (m y) st) \<Longrightarrow> framed (andThen out m) st"
  "(\<And>y z. pair = (y, z) \<Longrightarrow> framed (n y z) st) \<Longrightarrow> framed (case pair of (y, z) \<Rightarrow> n y z) st"
  "(\<And>y z. pair = (y, z) \<Longrightarrow> framed (n' y z st1) st) \<Longrightarrow> framed ((case pair of (y, z) \<Rightarrow> n' y z) st1) st"
  by (auto simp: framed_def andThen_eq_Inr_iff split: if_splits option.splits sum.splits prod.splits)

lemma framedD: "framed r st \<Longrightarrow> r = Inr (x, st') \<Longrightarrow> vcFrame st st'"
  by (simp add: framed_def)

lemma deliverAhead_frame: "framed (deliverAhead E svd vd decision md sender st) st"
  unfolding deliverAhead_def Let_def
  by (intro framed_rules vcFrame_refl vcFrame_committed; erule deliverDecision_frame)

lemma checkLastDecision_frame: "framed (checkLastDecision E svd sender st) st"
  unfolding checkLastDecision_def
  by (intro framed_rules vcFrame_refl deliverAhead_frame)

lemma validateViewDataMsg_frame:
  assumes "validateViewDataMsg E svd sender st = Inr (r, st')"
  shows "vcFrame st st'"
proof -
  have "framed (validateViewDataMsg E svd sender st) st"
    unfolding validateViewDataMsg_def
    by (intro framed_rules vcFrame_refl; simp add: framedD [OF checkLastDecision_frame])
  then show ?thesis using assms by (rule framedD)
qed

lemma newViewAhead_frame:
  "newViewAhead E svd vd decision md st = Inr (r, st') \<Longrightarrow> vcFrame st st'"
  by (auto simp: newViewAhead_def andThen_eq_Inr_iff dest!: deliverDecision_frame split: sum.splits if_splits)

lemma validateSvds_frame:
  "validateSvds E s d svds nodes n st = Inr (r, st') \<Longrightarrow> vcFrame st st'"
proof (induction E s d svds nodes n st rule: validateSvds.induct)
  case (2 E s d svd svds nodes n st)
  show ?case
  proof (cases "svd_Signer svd \<in> set nodes")
    case True
    then show ?thesis using 2 by simp
  next
    case False
    then show ?thesis
      using 2 by (cases "judgeSvd E s d svd st") (auto intro: vcFrame_emit dest: newViewAhead_frame)
  qed
qed simp

lemma validateNewViewMsg_frame:
  "validateNewViewMsg E svds st = Inr (r, st') \<Longrightarrow> vcFrame st st'"
  by (auto simp: validateNewViewMsg_def andThen_eq_Inr_iff dest!: validateSvds_frame)

lemma newViewLoop_frame:
  "newViewLoop n E svds st = Inr (r, st') \<Longrightarrow> vcFrame st st'"
proof (induction n E svds st rule: newViewLoop.induct)
  case (2 n E svds st)
  obtain a b c st1 where "validateNewViewMsg E svds st = Inr ((a, b, c), st1)"
    "(if c then newViewLoop n E svds st1 else Inr ((a, b), st1)) = Inr (r, st')"
    using 2(2) by (auto simp: andThen_eq_Inr_iff)
  then show ?case
    using 2(1) [of True st1] validateNewViewMsg_frame [of E svds st] vcFrame_trans [of st st1 st'] by (auto split: if_splits)
qed simp

subsection \<open>The quorum behind a new view\<close>

text \<open>Enough distinct signers sent view data for a view.\<close>

definition newViewQuorum :: "codec \<Rightarrow> int \<Rightarrow> u64 \<Rightarrow> SignedViewData list \<Rightarrow> bool" where
  "newViewQuorum C q view svds \<longleftrightarrow>
     (\<exists>ids. distinct ids \<and> q \<le> int (length ids) \<and>
        (\<forall>i\<in>set ids. \<exists>svd\<in>set svds. svd_Signer svd = i \<and>
           (\<exists>vd. unmarshalViewData C (svd_RawViewData svd) = Some vd \<and> vd_NextView vd = view)))"

lemma judgeSvd_valid:
  assumes "judgeSvd E s d svd st = SvdValid"
  shows "\<exists>vd. unmarshalViewData (ve_codec E) (svd_RawViewData svd) = Some vd \<and> vd_NextView vd = vc_currView (st_vc st)"
proof (cases "unmarshalViewData (ve_codec E) (svd_RawViewData svd)")
  case (Some vd)
  then show ?thesis
    using assms by (cases "vd_NextView vd = vc_currView (st_vc st)") (simp_all add: judgeSvd_def)
qed (use assms in \<open>simp add: judgeSvd_def\<close>)

lemma validateSvds_quorum:
  assumes "validateSvds E s d svds nodes (length nodes) st = Inr ((True, False, False), st')" "distinct nodes"
    and "\<forall>i\<in>set nodes. \<exists>svd\<in>set seen. svd_Signer svd = i \<and>
      (\<exists>vd. unmarshalViewData (ve_codec E) (svd_RawViewData svd) = Some vd \<and> vd_NextView vd = vc_currView (st_vc st))"
  shows "newViewQuorum (ve_codec E) (vc_quorum (st_vc st)) (vc_currView (st_vc st)) (seen @ svds)"
  using assms
proof (induction svds arbitrary: nodes seen)
  case Nil
  then show ?case unfolding newViewQuorum_def by (intro exI [of _ nodes]) auto
next
  case (Cons svd svds)
  show ?case
  proof (cases "svd_Signer svd \<in> set nodes")
    case True
    then show ?thesis
      using Cons.IH [of nodes "seen @ [svd]"] Cons.prems by auto
  next
    case False
    show ?thesis
    proof (cases "judgeSvd E s d svd st")
      case SvdValid
      then obtain vd where "unmarshalViewData (ve_codec E) (svd_RawViewData svd) = Some vd"
        "vd_NextView vd = vc_currView (st_vc st)"
        using judgeSvd_valid by blast
      then show ?thesis
        using Cons.IH [of "svd_Signer svd # nodes" "seen @ [svd]"] Cons.prems False SvdValid by auto
    next
      case (SvdAhead vd p md)
      then have "newViewAhead E svd vd p md st = Inr ((True, False, False), st')" using Cons.prems(1) False by simp
      then show ?thesis by (auto simp: newViewAhead_def andThen_eq_Inr_iff split: sum.splits if_splits)
    qed (use Cons.prems(1) False in auto)
  qed
qed

lemma newViewLoop_quorum:
  "newViewLoop n E svds st = Inr ((True, False), st') \<Longrightarrow>
   newViewQuorum (ve_codec E) (vc_quorum (st_vc st)) (vc_currView (st_vc st)) svds"
proof (induction n E svds st rule: newViewLoop.induct)
  case (2 n E svds st)
  obtain a b c st1 where v: "validateNewViewMsg E svds st = Inr ((a, b, c), st1)"
    "(if c then newViewLoop n E svds st1 else Inr ((a, b), st1)) = Inr ((True, False), st')"
    using 2(2) by (auto simp: andThen_eq_Inr_iff)
  show ?case
  proof (cases c)
    case True
    then have "newViewQuorum (ve_codec E) (vc_quorum (st_vc st1)) (vc_currView (st_vc st1)) svds"
      using 2(1) [of True st1] v by simp
    then show ?thesis using vcFrame_fields [OF validateNewViewMsg_frame [OF v(1)]] by simp
  next
    case False
    then obtain s d where "validateSvds E s d svds [] 0 st = Inr ((True, False, False), st1)"
      using v by (auto simp: validateNewViewMsg_def andThen_eq_Inr_iff)
    then show ?thesis using validateSvds_quorum [of E s d svds "[]" st st1 "[]"] by simp
  qed
qed simp

text \<open>What \<open>processNewViewMsg\<close> amounts to.\<close>

lemma finishNewView_result:
  assumes "finishNewView E st = Inr st'"
  obtains (stopped) md where "st' = emit [VcSave (SavedNewView md)] st"
  | (changed) s where "\<not> vc_stopped (st_vc st)"
      "st_vc st' = (st_vc st)\<lparr>vc_checkTimeout := False, vc_backOffFactor := 1, vc_realView := vc_currView (st_vc st),
         vc_nvs := nextViews_clear\<rparr>"
      "st_effects st' = st_effects st @ [VcSave (SavedNewView (emptyViewMetadata\<lparr>ViewId := vc_currView (st_vc st),
         LatestSequence := s\<rparr>)), VcViewChanged (vc_currView (st_vc st)) (s + 1), VcRestartTimers]"
proof -
  obtain s d where s: "extractCurrentSequence E st = Inr (s, d)"
    using assms by (auto simp: finishNewView_def andThen_eq_Inr_iff)
  let ?m = "SavedNewView (emptyViewMetadata\<lparr>ViewId := vc_currView (st_vc st), LatestSequence := s\<rparr>)"
  have ok: "ve_saveOK E ?m" using assms s by (auto simp: finishNewView_def saveState_def andThen_eq_Inr_iff split: if_splits)
  show ?thesis
  proof (cases "vc_stopped (st_vc st)")
    case True
    then have "st' = emit [VcSave ?m] st" using assms s ok by (simp add: finishNewView_def saveState_def)
    then show ?thesis by (rule that(1))
  next
    case False
    then show ?thesis using that(2) [of s] assms s ok by (auto simp: finishNewView_def saveState_def)
  qed
qed

lemma commitInFlight_result:
  assumes "commitInFlightProposal E p st = Inr (r, st')"
  obtains (ready) "st' = st" "r \<noteq> None"
  | (wait) q md where "p = Some q" "r = None" "vcMetadata E q = Some md"
      "st' = updVc (\<lambda>v. v\<lparr>vc_inFlightView := Some (inFlightView E q md st), vc_pc := VcInFlight 2 False\<rparr>) st"
  using assms by (auto simp: commitInFlightProposal_def Let_def split: option.splits if_splits)

lemma processNewViewMsg_result:
  assumes "processNewViewMsg E svds st = Inr st'"
  obtains (nothing) "vcFrame st st'"
  | (finish) st1 where "newViewQuorum (ve_codec E) (vc_quorum (st_vc st)) (vc_currView (st_vc st)) svds"
      "vcFrame st st1" "finishNewView E st1 = Inr st'"
  | (wait) st1 q md where "newViewQuorum (ve_codec E) (vc_quorum (st_vc st)) (vc_currView (st_vc st)) svds"
      "vcFrame st st1" "vcMetadata E q = Some md"
      "st' = updVc (\<lambda>v. v\<lparr>vc_inFlightView := Some (inFlightView E q md st1), vc_pc := VcInFlight 2 False\<rparr>) st1"
proof -
  obtain a b st1 where l: "newViewLoop (Suc (length svds)) E svds st = Inr ((a, b), st1)"
    using assms by (auto simp: processNewViewMsg_def andThen_eq_Inr_iff simp del: newViewLoop.simps)
  note f = newViewLoop_frame [OF l]
  show ?thesis
  proof (cases "a \<and> \<not> b")
    case False
    then have "st' = st1" using assms l by (auto simp: processNewViewMsg_def simp del: newViewLoop.simps)
    then show ?thesis using that(1) f by simp
  next
    case True
    then have q: "newViewQuorum (ve_codec E) (vc_quorum (st_vc st)) (vc_currView (st_vc st)) svds"
      using newViewLoop_quorum [of "Suc (length svds)"] l by (simp del: newViewLoop.simps)
    obtain vds res where r: "extractViewDataMessages E svds = Inr vds"
      "CheckInFlight (ve_codec E) vds (vc_f (st_vc st1)) (vc_quorum (st_vc st1)) = Inr res"
      using assms l True by (auto simp: processNewViewMsg_def andThen_eq_Inr_iff simp del: newViewLoop.simps)
    then obtain ok none p where res: "res = Inr (ok, none, p)"
      using assms l True by (cases res) (auto simp: processNewViewMsg_def simp del: newViewLoop.simps)
    have eq: "(if \<not> ok then Inr st1 else if none then finishNewView E st1
        else andThen (commitInFlightProposal E p st1) (\<lambda>(c, st2). if c = Some True then finishNewView E st2 else Inr st2))
        = Inr st'"
      using assms l True r res by (simp add: processNewViewMsg_def del: newViewLoop.simps)
    consider "st' = st1" | "finishNewView E st1 = Inr st'"
      | c st2 where "commitInFlightProposal E p st1 = Inr (c, st2)"
          "(if c = Some True then finishNewView E st2 else Inr st2) = Inr st'"
    proof (cases "ok \<and> \<not> none")
      case True
      then show ?thesis using eq that(3) by (auto simp: andThen_eq_Inr_iff)
    next
      case False
      then show ?thesis using eq that(1,2) by (cases ok) simp_all
    qed
    then show ?thesis
    proof cases
      case 1
      then show ?thesis using that(1) f by simp
    next
      case 2
      then show ?thesis using that(2) q f by blast
    next
      case (3 c st2)
      from 3(1) show ?thesis
      proof (cases rule: commitInFlight_result)
        case ready
        then show ?thesis using 3(2) that(1,2) q f by (auto split: if_splits)
      next
        case (wait p md)
        then show ?thesis using 3(2) that(3) q f by simp
      qed
    qed
  qed
qed

subsection \<open>Steps that change no view\<close>

definition vcPlain :: "'a vcState \<Rightarrow> 'a vcState \<Rightarrow> bool" where
  "vcPlain st st' \<longleftrightarrow>
     (\<exists>es. st_effects st' = st_effects st @ es \<and> (\<forall>view s. VcViewChanged view s \<notin> set es)) \<and>
     vc_quorum (st_vc st') = vc_quorum (st_vc st) \<and> vc_pc (st_vc st') = vc_pc (st_vc st) \<and>
     set (vc_incMsgs (st_vc st')) \<subseteq> set (vc_incMsgs (st_vc st))"

lemma vcPlain_refl [simp, intro]: "vcPlain st st"
  by (simp add: vcPlain_def)

lemma vcPlain_trans [trans]: "vcPlain st st1 \<Longrightarrow> vcPlain st1 st2 \<Longrightarrow> vcPlain st st2"
  unfolding vcPlain_def by fastforce

lemma vcPlain_updVc:
  "vc_quorum (g (st_vc st)) = vc_quorum (st_vc st) \<Longrightarrow> vc_pc (g (st_vc st)) = vc_pc (st_vc st) \<Longrightarrow>
   set (vc_incMsgs (g (st_vc st))) \<subseteq> set (vc_incMsgs (st_vc st)) \<Longrightarrow> vcPlain st (updVc g st)"
  by (simp add: vcPlain_def)

lemma vcPlain_emit: "(\<And>view s. VcViewChanged view s \<notin> set es) \<Longrightarrow> vcPlain st (emit es st)"
  by (simp add: vcPlain_def)

lemma vcPlain_frame: "vcFrame st st' \<Longrightarrow> vcPlain st st'"
  unfolding vcFrame_def vcPlain_def by (force simp: list_all_iff)

lemma vcPlain_start: "vcPlain st (vc_startViewChange ch st)"
  by (auto simp: vc_startViewChange_def vcPlain_def Let_def)

lemma vcPlain_inform: "vcPlain st (informNewView view st)"
  by (auto simp: informNewView_def vcPlain_def)

lemma vcPlain_timeout: "vcPlain st (snd (checkIfTimeout now st))"
  by (auto simp: checkIfTimeout_def vcPlain_def Let_def StartViewChange_def)

lemma vcPlain_resend: "vcPlain st (checkIfResendViewChange now st)"
  by (auto simp: checkIfResendViewChange_def vcPlain_def Let_def)

lemma vcPlain_tick: "vcPlain st (runTick now st)"
  unfolding runTick_def by (rule vcPlain_trans [OF vcPlain_trans [OF vcPlain_updVc vcPlain_resend] vcPlain_timeout]) auto

lemma vcPlain_sendViewData: "sendViewData E st = Inr st' \<Longrightarrow> vcPlain st st'"
  by (auto simp: sendViewData_def andThen_eq_Inr_iff vcPlain_def split: if_splits)

text \<open>The branches of \<open>processViewChangeMsg\<close>.\<close>

lemma processViewChangeMsg_result:
  assumes "processViewChangeMsg E restore st = Inr st'"
  obtains (joined) b where "st' = (if b then vc_startViewChange \<lparr>ch_view = vc_currView (st_vc st), ch_stopView = True\<rparr> st else st)"
    "\<not> restore" "int (length (voted (vc_viewChangeMsgs (st_vc st)))) < vc_quorum (st_vc st) - 1"
  | (advanced) st2 es where "restore \<or> vc_quorum (st_vc st) - 1 \<le> int (length (voted (vc_viewChangeMsgs (st_vc st))))"
      "st2 = st \<or> st2 = vc_startViewChange \<lparr>ch_view = vc_currView (st_vc st), ch_stopView = True\<rparr> st \<or>
       st2 = vc_startViewChange \<lparr>ch_view = vc_currView (st_vc st), ch_stopView = True\<rparr>
         (vc_startViewChange \<lparr>ch_view = vc_currView (st_vc st), ch_stopView = True\<rparr> st)"
      "es = (if restore then [] else [VcSave (SavedViewChange (vc_currView (st_vc st)))]) @ [VcAbortView (vc_currView (st_vc st))]"
      "sendViewData E (updVc (\<lambda>v. v\<lparr>vc_currView := vc_nextView v, vc_viewChangeMsgs := voteSet_clear (vc_N v),
         vc_viewDataMsgs := voteSet_clear (vc_N v)\<rparr>) (emit es st2)) = Inr st'"
proof -
  let ?join = "\<lambda>st. vc_startViewChange \<lparr>ch_view = vc_currView (st_vc st), ch_stopView = True\<rparr> st"
  let ?count = "length (voted (vc_viewChangeMsgs (st_vc st)))"
  have curr [simp]: "vc_currView (st_vc (vc_startViewChange ch x)) = vc_currView (st_vc x)" for ch and x :: "'a vcState"
    by (simp add: vc_startViewChange_def Let_def)
  define st1 where "st1 = (if int ?count = vc_f (st_vc st) + 1 \<and> vc_SpeedUpViewChange (st_vc st) \<or> restore then ?join st else st)"
  define st2 where "st2 = (if \<not> vc_SpeedUpViewChange (st_vc st) then ?join st1 else st1)"
  have c: "vc_currView (st_vc st2) = vc_currView (st_vc st)" by (simp add: st1_def st2_def)
  show ?thesis
  proof (cases "int ?count < vc_quorum (st_vc st) - 1 \<and> \<not> restore")
    case True
    then have "st' = st1" using assms unfolding processViewChangeMsg_def Let_def st1_def by simp
    then show ?thesis using True that(1) by (auto simp: st1_def)
  next
    case False
    then have r: "andThen (if restore then Inr st2 else saveState E (SavedViewChange (vc_currView (st_vc st2))) st2) (\<lambda>st3.
        sendViewData E (updVc (\<lambda>v. v\<lparr>vc_currView := vc_nextView v, vc_viewChangeMsgs := voteSet_clear (vc_N v),
           vc_viewDataMsgs := voteSet_clear (vc_N v)\<rparr>) (emit [VcAbortView (vc_currView (st_vc st3))] st3))) = Inr st'"
      using assms unfolding processViewChangeMsg_def Let_def st2_def st1_def by (simp only: False if_False)
    let ?es = "(if restore then [] else [VcSave (SavedViewChange (vc_currView (st_vc st)))]) @ [VcAbortView (vc_currView (st_vc st))]"
    have "sendViewData E (updVc (\<lambda>v. v\<lparr>vc_currView := vc_nextView v, vc_viewChangeMsgs := voteSet_clear (vc_N v),
         vc_viewDataMsgs := voteSet_clear (vc_N v)\<rparr>) (emit ?es st2)) = Inr st'"
      using r c by (cases restore) (auto simp: saveState_def andThen_eq_Inr_iff emit_def updVc_def split: if_splits)
    moreover have "st2 = st \<or> st2 = ?join st \<or>
        st2 = vc_startViewChange \<lparr>ch_view = vc_currView (st_vc st), ch_stopView = True\<rparr> (?join st)"
      by (simp add: st2_def st1_def)
    ultimately show ?thesis using that(2) [of st2 ?es] False by auto
  qed
qed

lemma vcPlain_processViewChange: "processViewChangeMsg E restore st = Inr st' \<Longrightarrow> vcPlain st st'"
proof (erule processViewChangeMsg_result)
  fix st2 es
  assume st2: "st2 = st \<or> st2 = vc_startViewChange \<lparr>ch_view = vc_currView (st_vc st), ch_stopView = True\<rparr> st \<or>
       st2 = vc_startViewChange \<lparr>ch_view = vc_currView (st_vc st), ch_stopView = True\<rparr>
         (vc_startViewChange \<lparr>ch_view = vc_currView (st_vc st), ch_stopView = True\<rparr> st)"
    and es: "es = (if restore then [] else [VcSave (SavedViewChange (vc_currView (st_vc st)))]) @ [VcAbortView (vc_currView (st_vc st))]"
    and send: "sendViewData E (updVc (\<lambda>v. v\<lparr>vc_currView := vc_nextView v, vc_viewChangeMsgs := voteSet_clear (vc_N v),
         vc_viewDataMsgs := voteSet_clear (vc_N v)\<rparr>) (emit es st2)) = Inr st'"
  have "vcPlain st st2" using st2 vcPlain_start vcPlain_trans by blast
  also have "vcPlain st2 (emit es st2)" by (rule vcPlain_emit) (simp add: es)
  also have "vcPlain (emit es st2) (updVc (\<lambda>v. v\<lparr>vc_currView := vc_nextView v,
      vc_viewChangeMsgs := voteSet_clear (vc_N v), vc_viewDataMsgs := voteSet_clear (vc_N v)\<rparr>) (emit es st2))"
    by (rule vcPlain_updVc) simp_all
  also note vcPlain_sendViewData [OF send]
  finally show "vcPlain st st'" .
qed (simp add: vcPlain_start)

subsection \<open>Every new view has a quorum\<close>

text \<open>
  \<open>es\<close> are the effects so far: a quorum of view data for \<open>view\<close> was handled or broadcast, and the new view was saved.
\<close>

definition seenQuorum :: "codec \<Rightarrow> (u64 \<times> Message) set \<Rightarrow> int \<Rightarrow> vcEffect list \<Rightarrow> u64 \<Rightarrow> bool" where
  "seenQuorum C D Q es view \<longleftrightarrow> (\<exists>svds. newViewQuorum C Q view svds \<and>
     ((\<exists>s. (s, NewViewMsg svds) \<in> D) \<or> VcBroadcast (NewViewMsg svds) \<in> set es))"

definition savedNewView :: "vcEffect list \<Rightarrow> u64 \<Rightarrow> u64 \<Rightarrow> bool" where
  "savedNewView es view s \<longleftrightarrow> (\<exists>md. VcSave (SavedNewView md) \<in> set es \<and> ViewId md = view \<and> LatestSequence md + 1 = s)"

text \<open>Every announcement of a new view comes after its quorum and after its save.\<close>

definition backedChanges :: "codec \<Rightarrow> (u64 \<times> Message) set \<Rightarrow> int \<Rightarrow> vcEffect list \<Rightarrow> bool" where
  "backedChanges C D Q es \<longleftrightarrow> (\<forall>before view s after. es = before @ VcViewChanged view s # after \<longrightarrow>
     seenQuorum C D Q before view \<and> savedNewView before view s)"

definition vcRun_inv :: "int \<Rightarrow> codec \<Rightarrow> (u64 \<times> Message) set \<Rightarrow> 'a vcState \<Rightarrow> bool" where
  "vcRun_inv Q C D st \<longleftrightarrow> vc_quorum (st_vc st) = Q \<and> set (vc_incMsgs (st_vc st)) \<subseteq> D \<and>
     backedChanges C D Q (st_effects st) \<and>
     (\<forall>n c. vc_pc (st_vc st) = VcInFlight n c \<longrightarrow> seenQuorum C D Q (st_effects st) (vc_currView (st_vc st)))"

lemma seenQuorum_append: "seenQuorum C D Q es view \<Longrightarrow> seenQuorum C D Q (es @ es') view"
  unfolding seenQuorum_def by auto

lemma backedChanges_plain:
  assumes "backedChanges C D Q es" "\<And>view s. VcViewChanged view s \<notin> set es'"
  shows "backedChanges C D Q (es @ es')"
  unfolding backedChanges_def
proof (intro allI impI)
  fix before view s after
  assume "es @ es' = before @ VcViewChanged view s # after"
  then consider us where "es = before @ us" "us @ es' = VcViewChanged view s # after"
    | us where "es' = us @ VcViewChanged view s # after"
    by (auto simp: append_eq_append_conv2)
  then have "\<exists>after'. es = before @ VcViewChanged view s # after'"
  proof cases
    case (1 us)
    then show ?thesis using assms(2) [of view s] by (cases us) auto
  next
    case (2 us)
    then show ?thesis using assms(2) [of view s] by simp
  qed
  then show "seenQuorum C D Q before view \<and> savedNewView before view s"
    using assms(1) unfolding backedChanges_def by blast
qed

lemma backedChanges_snoc:
  assumes "backedChanges C D Q es" "seenQuorum C D Q es view" "savedNewView es view s"
  shows "backedChanges C D Q (es @ [VcViewChanged view s])"
  unfolding backedChanges_def
proof (intro allI impI)
  fix before view' s' after
  assume eq: "es @ [VcViewChanged view s] = before @ VcViewChanged view' s' # after"
  show "seenQuorum C D Q before view' \<and> savedNewView before view' s'"
  proof (cases after rule: rev_cases)
    case Nil
    then show ?thesis using eq assms(2,3) by simp
  next
    case (snoc after' e)
    then have "es = before @ VcViewChanged view' s' # after'" using eq by simp
    then show ?thesis using assms(1) unfolding backedChanges_def by blast
  qed
qed

lemma vcRun_inv_plain:
  assumes "vcRun_inv Q C D st" "vcPlain st st'"
    and "vc_currView (st_vc st') = vc_currView (st_vc st) \<or> (\<forall>n c. vc_pc (st_vc st) \<noteq> VcInFlight n c)"
  shows "vcRun_inv Q C D st'"
proof -
  obtain es where es: "st_effects st' = st_effects st @ es" "\<And>view s. VcViewChanged view s \<notin> set es"
    and q: "vc_quorum (st_vc st') = vc_quorum (st_vc st)" "vc_pc (st_vc st') = vc_pc (st_vc st)"
      "set (vc_incMsgs (st_vc st')) \<subseteq> set (vc_incMsgs (st_vc st))"
    using assms(2) unfolding vcPlain_def by blast
  have "backedChanges C D Q (st_effects st')"
    using assms(1) es backedChanges_plain unfolding vcRun_inv_def by metis
  moreover have "seenQuorum C D Q (st_effects st') (vc_currView (st_vc st'))" if "vc_pc (st_vc st') = VcInFlight n c" for n c
    using that assms(1,3) q(2) es(1) seenQuorum_append unfolding vcRun_inv_def by metis
  ultimately show ?thesis using assms(1) q(1,3) unfolding vcRun_inv_def by auto
qed

lemma finishNewView_inv:
  assumes "finishNewView E st = Inr st'" "vcRun_inv Q C D st" "seenQuorum C D Q (st_effects st) (vc_currView (st_vc st))"
  shows "vcRun_inv Q C D st'"
  using assms(1)
proof (cases rule: finishNewView_result)
  case (stopped md)
  have "vcPlain st (emit [VcSave (SavedNewView md)] st)" by (rule vcPlain_emit) simp
  then show ?thesis using stopped assms(2) vcRun_inv_plain [of Q C D st st'] by simp
next
  case (changed s)
  let ?view = "vc_currView (st_vc st)"
  let ?saved = "st_effects st @ [VcSave (SavedNewView (emptyViewMetadata\<lparr>ViewId := ?view, LatestSequence := s\<rparr>))]"
  have "backedChanges C D Q ?saved"
    using assms(2) by (intro backedChanges_plain) (simp_all add: vcRun_inv_def)
  moreover have "savedNewView ?saved ?view (s + 1)" unfolding savedNewView_def by auto
  ultimately have "backedChanges C D Q (?saved @ [VcViewChanged ?view (s + 1)])"
    using backedChanges_snoc seenQuorum_append [OF assms(3)] by blast
  then have "backedChanges C D Q ((?saved @ [VcViewChanged ?view (s + 1)]) @ [VcRestartTimers])"
    by (rule backedChanges_plain) simp
  moreover have "st_effects st' = (?saved @ [VcViewChanged ?view (s + 1)]) @ [VcRestartTimers]" using changed(3) by simp
  ultimately have "backedChanges C D Q (st_effects st')" by simp
  moreover have "seenQuorum C D Q (st_effects st') ?view" using changed(3) seenQuorum_append [OF assms(3)] by simp
  ultimately show ?thesis using assms(2) changed(2) unfolding vcRun_inv_def by auto
qed

lemma handleNewView_inv:
  assumes "handleNewView E sender svds st = Inr st'" "vcRun_inv Q C D st" "vc_pc (st_vc st) = VcRun" "ve_codec E = C"
    and "(\<exists>s. (s, NewViewMsg svds) \<in> D) \<or> VcBroadcast (NewViewMsg svds) \<in> set (st_effects st)"
  shows "vcRun_inv Q C D st'"
proof -
  have seen: "seenQuorum C D Q (st_effects st1) (vc_currView (st_vc st))"
    if "newViewQuorum (ve_codec E) (vc_quorum (st_vc st)) (vc_currView (st_vc st)) svds" "vcFrame st st1" for st1
    using that assms(2,4,5) unfolding seenQuorum_def vcFrame_def vcRun_inv_def by auto
  consider "st' = st" | "processNewViewMsg E svds st = Inr st'"
    using assms(1) by (auto simp: handleNewView_def andThen_eq_Inr_iff split: if_splits)
  then show ?thesis
  proof cases
    case 2
    then show ?thesis
    proof (cases rule: processNewViewMsg_result)
      case nothing
      then show ?thesis using vcRun_inv_plain [OF assms(2) vcPlain_frame] vcFrame_fields(1) by blast
    next
      case (finish st1)
      have "vcRun_inv Q C D st1"
        using vcRun_inv_plain [OF assms(2) vcPlain_frame [OF finish(2)]] vcFrame_fields(1) [OF finish(2)] by simp
      moreover have "seenQuorum C D Q (st_effects st1) (vc_currView (st_vc st1))"
        using seen [OF finish(1,2)] vcFrame_fields [OF finish(2)] by simp
      ultimately show ?thesis using finishNewView_inv [OF finish(3), of Q C D] by simp
    next
      case (wait st1 q md)
      have i: "vcRun_inv Q C D st1"
        using vcRun_inv_plain [OF assms(2) vcPlain_frame [OF wait(2)]] vcFrame_fields(1) [OF wait(2)] by simp
      have "seenQuorum C D Q (st_effects st1) (vc_currView (st_vc st1))"
        using seen [OF wait(1,2)] vcFrame_fields [OF wait(2)] by simp
      then show ?thesis
        using i wait(4) unfolding vcRun_inv_def by auto
    qed
  qed (use assms(2) in simp)
qed

lemma processViewDataMsg_result:
  assumes "processViewDataMsg E st = Inr st'"
  obtains (wait) "st' = st"
  | (broadcast) svds st1 st2 where "st1 = emit [VcBroadcast (NewViewMsg svds)]
        (updVc (\<lambda>v. v\<lparr>vc_viewDataMsgs := (vc_viewDataMsgs v)\<lparr>votes := []\<rparr>\<rparr>) st)"
      "handleNewView E (vc_SelfID (st_vc st)) svds st1 = Inr st2"
      "st' = (case vc_pc (st_vc st2) of VcInFlight n _ \<Rightarrow> updVc (\<lambda>v. v\<lparr>vc_pc := VcInFlight n True\<rparr>) st2
              | _ \<Rightarrow> clearViewData st2)"
proof (cases "int (length (voted (vc_viewDataMsgs (st_vc st)))) < vc_quorum (st_vc st)")
  case True
  then show ?thesis using assms that(1) by (simp add: processViewDataMsg_def Let_def)
next
  case False
  obtain svds vds res where r: "viewDataOf (votes (vc_viewDataMsgs (st_vc st))) = Inr svds"
    "extractViewDataMessages E svds = Inr vds"
    "CheckInFlight (ve_codec E) vds (vc_f (st_vc st)) (vc_quorum (st_vc st)) = Inr res"
    using assms False by (auto simp: processViewDataMsg_def Let_def andThen_eq_Inr_iff)
  then obtain ok none p where res: "res = Inr (ok, none, p)"
    using assms False by (cases res) (auto simp: processViewDataMsg_def Let_def)
  show ?thesis
  proof (cases ok)
    case ok: False
    then show ?thesis using assms False r res that(1) by (simp add: processViewDataMsg_def Let_def)
  next
    case True
    obtain my others where o: "prepareViewDataMsg E st = Inr my"
      "viewDataOf (filter (\<lambda>vt. vote_sender vt \<noteq> vc_SelfID (st_vc st)) (votes (vc_viewDataMsgs (st_vc st)))) = Inr others"
      using assms False r res True by (auto simp: processViewDataMsg_def Let_def andThen_eq_Inr_iff)
    define st1 where "st1 = emit [VcBroadcast (NewViewMsg (my # others))]
        (updVc (\<lambda>v. v\<lparr>vc_viewDataMsgs := (vc_viewDataMsgs v)\<lparr>votes := []\<rparr>\<rparr>) st)"
    obtain st2 where "handleNewView E (vc_SelfID (st_vc st)) (my # others) st1 = Inr st2"
      "(case vc_pc (st_vc st2) of VcInFlight n _ \<Rightarrow> Inr (updVc (\<lambda>v. v\<lparr>vc_pc := VcInFlight n True\<rparr>) st2)
        | _ \<Rightarrow> Inr (clearViewData st2)) = (Inr st' :: 'a vcState outcome)"
    proof -
      let ?k = "\<lambda>st2. case vc_pc (st_vc st2) of VcInFlight n _ \<Rightarrow> Inr (updVc (\<lambda>v. v\<lparr>vc_pc := VcInFlight n True\<rparr>) st2)
        | _ \<Rightarrow> Inr (clearViewData st2)"
      have "andThen (handleNewView E (vc_SelfID (st_vc st)) (my # others) st1) ?k = Inr st'"
        using assms False r res True o by (simp add: processViewDataMsg_def Let_def st1_def)
      then show ?thesis by (rule andThenE) (rule that)
    qed
    then show ?thesis using that(2) [OF st1_def, of st2] by (cases "vc_pc (st_vc st2)") auto
  qed
qed

lemma vcPlain_clear: "vcPlain st (clearViewData st)"
  unfolding clearViewData_def by (rule vcPlain_updVc) simp_all

lemma processViewDataMsg_inv:
  assumes "processViewDataMsg E st = Inr st'" "vcRun_inv Q C D st" "vc_pc (st_vc st) = VcRun" "ve_codec E = C"
  shows "vcRun_inv Q C D st'"
  using assms(1)
proof (cases rule: processViewDataMsg_result)
  case (broadcast svds st1 st2)
  have "vcPlain st st1"
    unfolding broadcast(1) by (rule vcPlain_trans [OF vcPlain_updVc vcPlain_emit]) simp_all
  then have "vcRun_inv Q C D st1" using vcRun_inv_plain [OF assms(2)] assms(3) by simp
  then have i: "vcRun_inv Q C D st2"
    using broadcast(1) assms(3) by (intro handleNewView_inv [OF broadcast(2) _ _ assms(4)]) auto
  show ?thesis
  proof (cases "vc_pc (st_vc st2)")
    case (VcInFlight n c)
    then have "st' = updVc (\<lambda>v. v\<lparr>vc_pc := VcInFlight n True\<rparr>) st2" using broadcast(3) by simp
    then show ?thesis using i VcInFlight by (auto simp: vcRun_inv_def)
  qed (use i broadcast(3) vcRun_inv_plain [OF i vcPlain_clear] in \<open>auto simp: clearViewData_def\<close>)
qed (use assms(2) in simp)

lemma vcRun_inv_updVc:
  assumes "vcRun_inv Q C D st" "vc_pc (g (st_vc st)) = vc_pc (st_vc st)" "vc_quorum (g (st_vc st)) = vc_quorum (st_vc st)"
    and "vc_currView (g (st_vc st)) = vc_currView (st_vc st)" "set (vc_incMsgs (g (st_vc st))) \<subseteq> set (vc_incMsgs (st_vc st))"
  shows "vcRun_inv Q C D (updVc g st)"
  by (rule vcRun_inv_plain [OF assms(1) vcPlain_updVc]) (use assms(2-) in simp_all)

text \<open>The branches of \<open>processMsg\<close>.\<close>

lemma vc_processMsg_eqs:
  "vc_processMsg E sender (ViewChangeMsg n) st =
     (let st1 = updVc (\<lambda>v. v\<lparr>vc_nvs := registerNext (vc_nvs v) n sender\<rparr>) st; v = st_vc st1 in
      if n = vc_currView v + 1 then
        andThen (registerVote acceptViewChange (vc_viewChangeMsgs v) sender (ViewChangeMsg n)) (\<lambda>vs.
          processViewChangeMsg E False (updVc (\<lambda>v. v\<lparr>vc_viewChangeMsgs := vs\<rparr>) st1))
      else if vc_nextView v = vc_currView v + 1 \<and> n > vc_realView v \<and> n < vc_currView v + 1 \<and>
              sendRecv (vc_nvs v) n sender
      then Inr (emit [VcBroadcast (ViewChangeMsg n)] st1) else Inr st1)"
  "vc_processMsg E sender (ViewDataMsg svd) st =
     andThen (validateViewDataMsg E svd sender st) (\<lambda>(valid, st1).
       if \<not> valid then Inr st1
       else andThen (registerVote acceptViewData (vc_viewDataMsgs (st_vc st1)) sender (ViewDataMsg svd)) (\<lambda>vs.
              processViewDataMsg E (updVc (\<lambda>v. v\<lparr>vc_viewDataMsgs := vs\<rparr>) st1)))"
  "vc_processMsg E sender (NewViewMsg svds) st = handleNewView E sender svds st"
  by (simp_all add: vc_processMsg_def)

lemma processMsg_viewChange:
  assumes "vc_processMsg E sender (ViewChangeMsg n) st = Inr st'"
  defines "st1 \<equiv> updVc (\<lambda>v. v\<lparr>vc_nvs := registerNext (vc_nvs v) n sender\<rparr>) st"
  obtains (same) "st' = st1" | (helped) "st' = emit [VcBroadcast (ViewChangeMsg n)] st1"
  | (counted) vs where "registerVote acceptViewChange (vc_viewChangeMsgs (st_vc st1)) sender (ViewChangeMsg n) = Inr vs"
      "processViewChangeMsg E False (updVc (\<lambda>v. v\<lparr>vc_viewChangeMsgs := vs\<rparr>) st1) = Inr st'"
proof (cases "n = vc_currView (st_vc st1) + 1")
  case True
  then have "andThen (registerVote acceptViewChange (vc_viewChangeMsgs (st_vc st1)) sender (ViewChangeMsg n)) (\<lambda>vs.
      processViewChangeMsg E False (updVc (\<lambda>v. v\<lparr>vc_viewChangeMsgs := vs\<rparr>) st1)) = Inr st'"
    using assms(1) unfolding vc_processMsg_eqs Let_def st1_def by (simp only: refl if_True)
  then show ?thesis by (rule andThenE) (rule that(3))
next
  case False
  then show ?thesis
    using assms(1) that(1,2) unfolding vc_processMsg_eqs Let_def st1_def [symmetric] by (simp only: if_False split: if_splits) simp_all
qed

lemma processMsg_viewData:
  assumes "vc_processMsg E sender (ViewDataMsg svd) st = Inr st'"
  obtains (invalid) "vcFrame st st'"
  | (counted) st1 vs where "vcFrame st st1" "validateViewDataMsg E svd sender st = Inr (True, st1)"
      "registerVote acceptViewData (vc_viewDataMsgs (st_vc st1)) sender (ViewDataMsg svd) = Inr vs"
      "processViewDataMsg E (updVc (\<lambda>v. v\<lparr>vc_viewDataMsgs := vs\<rparr>) st1) = Inr st'"
proof -
  from assms obtain res where res: "validateViewDataMsg E svd sender st = Inr res"
    "(case res of (valid, st1) \<Rightarrow> if \<not> valid then Inr st1
       else andThen (registerVote acceptViewData (vc_viewDataMsgs (st_vc st1)) sender (ViewDataMsg svd)) (\<lambda>vs.
              processViewDataMsg E (updVc (\<lambda>v. v\<lparr>vc_viewDataMsgs := vs\<rparr>) st1))) = Inr st'"
    unfolding vc_processMsg_eqs by (rule andThenE)
  obtain valid st1 where r: "res = (valid, st1)" by fastforce
  have f: "vcFrame st st1" using validateViewDataMsg_frame res(1) r by blast
  show ?thesis
  proof (cases valid)
    case True
    then have "andThen (registerVote acceptViewData (vc_viewDataMsgs (st_vc st1)) sender (ViewDataMsg svd)) (\<lambda>vs.
              processViewDataMsg E (updVc (\<lambda>v. v\<lparr>vc_viewDataMsgs := vs\<rparr>) st1)) = Inr st'"
      using res(2) r by simp
    then show ?thesis by (rule andThenE) (rule that(2) [OF f], use res(1) r True in auto)
  next
    case False
    then show ?thesis using that(1) f res(2) r by simp
  qed
qed

lemma vc_processMsg_inv:
  assumes "vc_processMsg E sender m st = Inr st'" "vcRun_inv Q C D st" "vc_pc (st_vc st) = VcRun" "ve_codec E = C"
    and "(sender, m) \<in> D"
  shows "vcRun_inv Q C D st'"
proof (cases m)
  case (ViewChangeMsg n)
  let ?st1 = "updVc (\<lambda>v. v\<lparr>vc_nvs := registerNext (vc_nvs v) n sender\<rparr>) st"
  have p1: "vcPlain st ?st1" by (rule vcPlain_updVc) simp_all
  have "vcPlain st st'"
    using assms(1) unfolding ViewChangeMsg
  proof (cases rule: processMsg_viewChange)
    case (counted vs)
    have "vcPlain ?st1 (updVc (\<lambda>v. v\<lparr>vc_viewChangeMsgs := vs\<rparr>) ?st1)" by (rule vcPlain_updVc) simp_all
    then show ?thesis using vcPlain_processViewChange [OF counted(2)] p1 vcPlain_trans by blast
  next
    case helped
    have "vcPlain ?st1 (emit [VcBroadcast (ViewChangeMsg n)] ?st1)" by (rule vcPlain_emit) simp
    then show ?thesis using p1 helped vcPlain_trans by blast
  qed (use p1 in simp)
  then show ?thesis using vcRun_inv_plain [OF assms(2)] assms(3) by simp
next
  case (ViewDataMsg svd)
  show ?thesis
    using assms(1) unfolding ViewDataMsg
  proof (cases rule: processMsg_viewData)
    case invalid
    then show ?thesis using vcRun_inv_plain [OF assms(2) vcPlain_frame] assms(3) by simp
  next
    case (counted st1 vs)
    have "vcRun_inv Q C D st1" using vcRun_inv_plain [OF assms(2) vcPlain_frame [OF counted(1)]] assms(3) by simp
    then have "vcRun_inv Q C D (updVc (\<lambda>v. v\<lparr>vc_viewDataMsgs := vs\<rparr>) st1)" by (rule vcRun_inv_updVc) simp_all
    then show ?thesis
      by (rule processViewDataMsg_inv [OF counted(4)]) (use assms(3,4) vcFrame_fields(4) [OF counted(1)] in simp_all)
  qed
next
  case (NewViewMsg svds)
  then show ?thesis
    using assms by (intro handleNewView_inv [of E sender svds st st' Q C D]) (auto simp: vc_processMsg_def)
qed (use assms in \<open>simp_all add: vc_processMsg_def\<close>)

end
