(* ===== verification/ViewChangeRuns.thy ===== *)
theory ViewChangeRuns
  imports ViewChangeSafety
begin

text \<open>
  Runs of the view changer: what holds of every sequence of events, whatever the other nodes send and however the
  goroutines interleave.
\<close>

subsection \<open>The view for the proposal in flight\<close>

text \<open>The view numbers and the channel of \<open>InformNewView\<close>.\<close>

definition viewNumbers :: "'a vcState \<Rightarrow> u64 \<times> u64 \<times> u64 \<times> u64 list" where
  "viewNumbers st = (vc_realView (st_vc st), vc_currView (st_vc st), vc_nextView (st_vc st), vc_informChan (st_vc st))"

lemma vcFrame_viewNumbers: "vcFrame st st' \<Longrightarrow> viewNumbers st' = viewNumbers st"
  by (auto simp: viewNumbers_def vcFrame_fields)

lemma vc_Decide_plain:
  assumes "vc_Decide E p sigs reqs st = Inr st'"
  shows "vcPlain st st' \<and> viewNumbers st' = viewNumbers st"
proof -
  let ?st0 = "updVc (\<lambda>v. v\<lparr>vc_inFlightView := map_option view_stop (vc_inFlightView v)\<rparr>) st"
  from assms obtain st1 where st1: "deliverToApp E p sigs ?st0 = Inr st1"
    "Inr (updVc (\<lambda>v. v\<lparr>vc_inFlightDecide := True\<rparr>) (emit (map VcRemoveRequest reqs @ [VcPrune]) st1)) = (Inr st' :: 'a vcState outcome)"
    unfolding vc_Decide_def by (rule andThenE)
  note f = deliverToApp_frame [OF st1(1)]
  have p0: "vcPlain st ?st0" by (rule vcPlain_updVc) simp_all
  have p2: "vcPlain st1 st'"
    using st1(2) by (auto simp: vcPlain_def)
  show ?thesis
    using vcPlain_trans [OF vcPlain_trans [OF p0 vcPlain_frame [OF f]] p2] vcFrame_viewNumbers [OF f] st1(2)
    by (auto simp: viewNumbers_def)
qed

lemma viewEffects_plain:
  "viewEffects E es st = Inr st' \<Longrightarrow> vcPlain st st' \<and> viewNumbers st' = viewNumbers st"
proof (induction E es st rule: viewEffects.induct)
  case (2 E e es st)
  from 2(2) obtain st1 where st1: "viewEffectStep E e st = Inr st1" "viewEffects E es st1 = Inr st'"
    unfolding viewEffects.simps by (rule andThenE)
  have "vcPlain st st1 \<and> viewNumbers st1 = viewNumbers st"
  proof (cases e)
    case (Decide p sigs reqs)
    then show ?thesis using st1(1) vc_Decide_plain by (simp add: viewEffectStep_def)
  qed (use st1(1) in \<open>auto simp: viewEffectStep_def vcPlain_def viewNumbers_def\<close>)
  then show ?case using 2(1) [OF st1(2)] vcPlain_trans by metis
qed simp

lemma inFlightStep_plain:
  assumes "inFlightStep E ch st = Inr st'"
  shows "vcPlain st st' \<and> viewNumbers st' = viewNumbers st"
proof (cases "\<exists>view. vc_inFlightView (st_vc st) = Some view \<and> \<not> (vc_inFlightDecide (st_vc st) \<or> vc_inFlightSync (st_vc st))")
  case True
  then obtain view where "vc_inFlightView (st_vc st) = Some view"
    "\<not> (vc_inFlightDecide (st_vc st) \<or> vc_inFlightSync (st_vc st))" by blast
  then obtain view' effs where "viewEffects E effs (updVc (\<lambda>v. v\<lparr>vc_inFlightView := Some view'\<rparr>) st) = Inr st'"
    using assms by (auto simp: inFlightStep_def Let_def andThen_eq_Inr_iff)
  note e = viewEffects_plain [OF this]
  have "vcPlain st (updVc (\<lambda>v. v\<lparr>vc_inFlightView := Some view'\<rparr>) st)" by (rule vcPlain_updVc) simp_all
  then show ?thesis using e vcPlain_trans by (auto simp: viewNumbers_def)
next
  case False
  then have "st' = st" using assms by (auto simp: inFlightStep_def Let_def split: option.splits)
  then show ?thesis by simp
qed

lemma abortInFlight_plain:
  assumes "abortInFlight st = Inr st'"
  shows "vcPlain st st' \<and> viewNumbers st' = viewNumbers st"
  using assms
  by (auto simp: abortInFlight_def Let_def vcPlain_def viewNumbers_def split: option.splits if_splits)

subsection \<open>The invariant of the quorum\<close>

lemma resumeInFlight_inv:
  assumes "resumeInFlight E b c st = Inr st'" "vcRun_inv Q C D st" "vc_pc (st_vc st) = VcInFlight n c'"
  shows "vcRun_inv Q C D st'"
proof -
  from assms(1) obtain st1 where st1: "abortInFlight st = Inr st1"
    "andThen (if b then finishNewView E (updVc (\<lambda>v. v\<lparr>vc_pc := VcRun\<rparr>) st1) else Inr (updVc (\<lambda>v. v\<lparr>vc_pc := VcRun\<rparr>) st1))
       (\<lambda>st3. Inr (if c then clearViewData st3 else st3)) = Inr st'"
    unfolding resumeInFlight_def Let_def by (rule andThenE)
  let ?st2 = "updVc (\<lambda>v. v\<lparr>vc_pc := VcRun\<rparr>) st1"
  note a = abortInFlight_plain [OF st1(1)]
  have i1: "vcRun_inv Q C D st1"
    using vcRun_inv_plain [OF assms(2)] a by (auto simp: viewNumbers_def)
  have q1: "seenQuorum C D Q (st_effects st1) (vc_currView (st_vc st1))"
    using i1 a assms(3) unfolding vcRun_inv_def vcPlain_def by auto
  have i2: "vcRun_inv Q C D ?st2" and q2: "seenQuorum C D Q (st_effects ?st2) (vc_currView (st_vc ?st2))"
    using i1 q1 by (auto simp: vcRun_inv_def)
  from st1(2) obtain st3 where st3: "(if b then finishNewView E ?st2 else Inr ?st2) = Inr st3"
    "Inr (if c then clearViewData st3 else st3) = (Inr st' :: 'a vcState outcome)"
    by (rule andThenE)
  have i3: "vcRun_inv Q C D st3"
    using st3(1) i2 q2 finishNewView_inv [of E ?st2 st3 Q C D] by (cases b) auto
  then show ?thesis
    using st3(2) vcRun_inv_plain [OF i3 vcPlain_clear] by (auto simp: clearViewData_def split: if_splits)
qed

lemma runStep_inv:
  assumes "runStep E ch st = Inr st'" "vcRun_inv Q C D st" "vc_pc (st_vc st) = VcRun" "ve_codec E = C"
  shows "vcRun_inv Q C D st'"
proof (cases ch)
  case VcTakeStop
  then have "st' = st \<or> st' = updVc (\<lambda>v. v\<lparr>vc_pc := VcEnded\<rparr>) st" using assms(1) by (auto simp: runStep_def split: if_splits)
  then show ?thesis using assms(2) by (auto simp: vcRun_inv_def)
next
  case VcTakeChange
  have "vcPlain st (vc_startViewChange c (updVc (\<lambda>v. v\<lparr>vc_startChangeChan := cs\<rparr>) st))" for c cs
    by (rule vcPlain_trans [OF vcPlain_updVc vcPlain_start]) simp_all
  then have "vcPlain st st'" using assms(1) VcTakeChange by (auto simp: runStep_def split: list.splits)
  then show ?thesis using vcRun_inv_plain [OF assms(2)] assms(3) by simp
next
  case VcTakeMsg
  show ?thesis
  proof (cases "vc_incMsgs (st_vc st)")
    case (Cons sm rest)
    obtain s m where sm: "sm = (s, m)" by fastforce
    let ?st1 = "updVc (\<lambda>v. v\<lparr>vc_incMsgs := rest\<rparr>) st"
    have "vcRun_inv Q C D ?st1" by (rule vcRun_inv_updVc [OF assms(2)]) (use Cons in auto)
    moreover have "(s, m) \<in> D" using assms(2) Cons sm by (simp add: vcRun_inv_def)
    moreover have "vc_processMsg E s m ?st1 = Inr st'" using assms(1) VcTakeMsg Cons sm by (simp add: runStep_def)
    ultimately show ?thesis using vc_processMsg_inv [of E s m ?st1 st' Q C D] assms(3,4) by simp
  qed (use assms(1,2) VcTakeMsg in \<open>simp add: runStep_def\<close>)
next
  case (VcTick now)
  then have "st' = runTick now st" using assms(1) by (simp add: runStep_def)
  then show ?thesis using vcRun_inv_plain [OF assms(2) vcPlain_tick] assms(3) by simp
next
  case VcTakeInform
  have "vcPlain st (informNewView i (updVc (\<lambda>v. v\<lparr>vc_informChan := is\<rparr>) st))" for i "is"
    by (rule vcPlain_trans [OF vcPlain_updVc vcPlain_inform]) simp_all
  then have "vcPlain st st'" using assms(1) VcTakeInform by (auto simp: runStep_def split: list.splits)
  then show ?thesis using vcRun_inv_plain [OF assms(2)] assms(3) by simp
next
  case VcTakeRestore
  let ?st1 = "updVc (\<lambda>v. v\<lparr>vc_Restore := False\<rparr>) st"
  have "vcPlain st ?st1" by (rule vcPlain_updVc) simp_all
  moreover have "st' = st \<or> processViewChangeMsg E True ?st1 = Inr st'"
    using assms(1) VcTakeRestore by (auto simp: runStep_def split: if_splits)
  ultimately have "vcPlain st st'" using vcPlain_processViewChange vcPlain_trans by blast
  then show ?thesis using vcRun_inv_plain [OF assms(2)] assms(3) by simp
qed (use assms in \<open>simp_all add: runStep_def\<close>)

lemma checkIfTimeout_same:
  "checkIfTimeout now st = (t, st1) \<Longrightarrow> vcPlain st st1 \<and> viewNumbers st1 = viewNumbers st"
  by (auto simp: checkIfTimeout_def Let_def vcPlain_def viewNumbers_def StartViewChange_def split: if_splits)

lemma waitStep_inv:
  assumes "waitStep E n c ch st = Inr st'" "vcRun_inv Q C D st" "vc_pc (st_vc st) = VcInFlight n c"
  shows "vcRun_inv Q C D st'"
proof -
  have flag: "vcRun_inv Q C D (updVc g st) \<and> vc_pc (st_vc (updVc g st)) = VcInFlight n c"
    if "g = vc_inFlightDecide_update (\<lambda>_. False) \<or> g = vc_inFlightSync_update (\<lambda>_. False)" for g
  proof -
    have "vcRun_inv Q C D (updVc g st)" by (rule vcRun_inv_updVc [OF assms(2)]) (use that in auto)
    then show ?thesis using assms(3) that by auto
  qed
  show ?thesis
  proof (cases ch)
    case (VcTick now)
    show ?thesis
    proof (cases n)
      case 0
      obtain t st1 where t: "checkIfTimeout now (updVc (\<lambda>v. v\<lparr>vc_lastTick := now\<rparr>) st) = (t, st1)" by fastforce
      have i1: "vcRun_inv Q C D st1" and pc: "vc_pc (st_vc st1) = VcInFlight n c"
        using checkIfTimeout_same [OF t] vcRun_inv_plain [of Q C D "updVc (\<lambda>v. v\<lparr>vc_lastTick := now\<rparr>) st" st1]
          vcRun_inv_updVc [OF assms(2), of "\<lambda>v. v\<lparr>vc_lastTick := now\<rparr>"] assms(3)
        by (auto simp: viewNumbers_def vcPlain_def)
      have "if t then resumeInFlight E False c st1 = Inr st' else st' = st1"
        using assms(1) VcTick 0 t by (simp add: waitStep_def waitTick_def split: if_splits)
      then show ?thesis using i1 resumeInFlight_inv [OF _ i1 pc] by (auto split: if_splits)
    next
      case (Suc k)
      then show ?thesis
        using assms VcTick by (auto simp: waitStep_def waitTick_def vcRun_inv_def)
    qed
  next
    case VcTakeDecide
    then show ?thesis
      using assms(1,2) flag [of "vc_inFlightDecide_update (\<lambda>_. False)"] resumeInFlight_inv
      by (fastforce simp: waitStep_def split: if_splits)
  next
    case VcTakeSync
    then show ?thesis
      using assms(1,2) flag [of "vc_inFlightSync_update (\<lambda>_. False)"] resumeInFlight_inv
      by (fastforce simp: waitStep_def split: if_splits)
  next
    case VcTakeStop
    then show ?thesis
      using assms resumeInFlight_inv by (fastforce simp: waitStep_def split: if_splits)
  qed (use assms in \<open>simp_all add: waitStep_def\<close>)
qed

lemma vcRun_inv_world: "vcRun_inv Q C D (st\<lparr>st_world := w, st_InFlight := i\<rparr>) = vcRun_inv Q C D st"
  by (simp add: vcRun_inv_def)

lemma vcStep_inv:
  assumes "vcStep E ch st = Inr st'" "vcRun_inv Q C D st" "ve_codec E = C" "\<And>s m. ch = VcHandle s m \<Longrightarrow> (s, m) \<in> D"
  shows "vcRun_inv Q C D st'"
proof (cases ch)
  case (VcHandle s m)
  then have "st' = st \<or> st' = updVc (\<lambda>v. v\<lparr>vc_incMsgs := vc_incMsgs v @ [(s, m)]\<rparr>) st"
    using assms(1) by (auto simp: vcStep_def vcCall_def vc_HandleMessage_def updVc_def split: if_splits)
  then show ?thesis
    using assms(2) assms(4) [OF VcHandle] by (auto simp: vcRun_inv_def)
next
  case (VcHandleView s m)
  then have "st' = st \<or> (\<exists>view. st' = updVc (\<lambda>v. v\<lparr>vc_inFlightView := view\<rparr>) st)"
    using assms(1) by (auto simp: vcStep_def vcCall_def HandleViewMessage_def updVc_def split: option.splits vcPc.splits nat.splits)
  then show ?thesis using assms(2) by (auto intro: vcRun_inv_updVc)
next
  case (VcInformCall n)
  then have "st' = st \<or> st' = updVc (\<lambda>v. v\<lparr>vc_informChan := vc_informChan v @ [n]\<rparr>) st"
    using assms(1) by (auto simp: vcStep_def vcCall_def InformNewView_def updVc_def split: if_splits)
  then show ?thesis using assms(2) by (auto intro: vcRun_inv_updVc)
next
  case (VcStartCall n b)
  then have "st' = updVc (StartViewChange n b) st" using assms(1) by (simp add: vcStep_def)
  then show ?thesis using assms(2) by (auto simp: StartViewChange_def split: if_splits intro!: vcRun_inv_updVc)
next
  case VcCloseCall
  then have "st' = updVc vc_close st" using assms(1) by (simp add: vcStep_def)
  then show ?thesis using assms(2) by (auto simp: vc_close_def intro!: vcRun_inv_updVc)
next
  case (VcShared w i)
  then have "st' = st\<lparr>st_world := w, st_InFlight := i\<rparr>" using assms(1) by (simp add: vcStep_def)
  then show ?thesis using assms(2) by (simp add: vcRun_inv_world)
next
  case (VcViewStep c)
  then have "inFlightStep E c st = Inr st'" using assms(1) by (simp add: vcStep_def)
  note f = inFlightStep_plain [OF this]
  then show ?thesis using vcRun_inv_plain [OF assms(2)] by (auto simp: viewNumbers_def)
qed (use assms(1-3) runStep_inv [OF _ assms(2) _ assms(3)] waitStep_inv [OF _ assms(2)] in
    \<open>auto simp: vcStep_def split: vcPc.splits\<close>)

definition handled :: "('a vcEnv \<times> 'a vcChoice) list \<Rightarrow> (u64 \<times> Message) set" where
  "handled steps = {(s, m). \<exists>E. (E, VcHandle s m) \<in> set steps}"

lemma vcRun_keeps_inv:
  "vcRun st steps = Inr st' \<Longrightarrow> vcRun_inv Q C D st \<Longrightarrow> \<forall>(E, ch)\<in>set steps. ve_codec E = C \<Longrightarrow> handled steps \<subseteq> D \<Longrightarrow>
   vcRun_inv Q C D st'"
proof (induction st steps rule: vcRun.induct)
  case (2 st E ch steps)
  from 2(2) obtain st1 where st1: "vcStep E ch st = Inr st1" "vcRun st1 steps = Inr st'"
    unfolding vcRun.simps by (rule andThenE)
  have "vcRun_inv Q C D st1" by (rule vcStep_inv [OF st1(1) 2(3)]) (use 2(4,5) in \<open>auto simp: handled_def\<close>)
  moreover have "handled steps \<subseteq> D" using 2(5) by (auto simp: handled_def)
  ultimately show ?case using 2(1) [OF st1(2)] 2(4) by simp
qed simp

subsection \<open>The view numbers\<close>

definition orderedViews :: "nat \<Rightarrow> 'a vcState \<Rightarrow> bool" where
  "orderedViews B st \<longleftrightarrow>
     (vc_nextView (st_vc st) = vc_currView (st_vc st) \<or> vc_nextView (st_vc st) = vc_currView (st_vc st) + 1) \<and>
     vc_realView (st_vc st) \<le> vc_currView (st_vc st) \<and> unat (vc_currView (st_vc st)) \<le> B \<and>
     (\<forall>i\<in>set (vc_informChan (st_vc st)). unat i \<le> B)"

text \<open>Handling a new view message only moves \<open>realView\<close> up to \<open>currView\<close>.\<close>

definition settles :: "'a vcState \<Rightarrow> 'a vcState \<Rightarrow> bool" where
  "settles st st' \<longleftrightarrow> vc_currView (st_vc st') = vc_currView (st_vc st) \<and> vc_nextView (st_vc st') = vc_nextView (st_vc st) \<and>
     vc_informChan (st_vc st') = vc_informChan (st_vc st) \<and>
     (vc_realView (st_vc st') = vc_realView (st_vc st) \<or> vc_realView (st_vc st') = vc_currView (st_vc st))"

lemma settles_same: "viewNumbers st' = viewNumbers st \<Longrightarrow> settles st st'"
  by (simp add: settles_def viewNumbers_def)

lemma settles_trans [trans]: "settles st st1 \<Longrightarrow> settles st1 st2 \<Longrightarrow> settles st st2"
  by (auto simp: settles_def)

lemma settles_frame: "vcFrame st st' \<Longrightarrow> settles st st'"
  by (rule settles_same) (rule vcFrame_viewNumbers)

lemma orderedViews_settles:
  "orderedViews B st \<Longrightarrow> settles st st' \<Longrightarrow> orderedViews B st' \<and> vc_currView (st_vc st') = vc_currView (st_vc st)"
  by (auto simp: orderedViews_def settles_def)

lemma settles_finish: "finishNewView E st = Inr st' \<Longrightarrow> settles st st'"
  by (erule finishNewView_result) (simp_all add: settles_def)

lemma settles_handle:
  assumes "handleNewView E sender svds st = Inr st'"
  shows "settles st st'"
proof -
  consider "st' = st" | "processNewViewMsg E svds st = Inr st'"
    using assms by (auto simp: handleNewView_def andThen_eq_Inr_iff split: if_splits)
  then show ?thesis
  proof cases
    case 2
    then show ?thesis
    proof (cases rule: processNewViewMsg_result)
      case (finish st1)
      then show ?thesis using settles_frame settles_finish settles_trans by blast
    next
      case (wait st1 q md)
      then show ?thesis using settles_frame [OF wait(2)] by (auto simp: settles_def)
    qed (rule settles_frame)
  qed (simp add: settles_def)
qed

lemma settles_viewData:
  assumes "processViewDataMsg E st = Inr st'"
  shows "settles st st'"
  using assms
proof (cases rule: processViewDataMsg_result)
  case (broadcast svds st1 st2)
  have "settles st st1" using broadcast(1) by (simp add: settles_def)
  also note settles_handle [OF broadcast(2)]
  also have "settles st2 st'"
    using broadcast(3) by (cases "vc_pc (st_vc st2)") (simp_all add: settles_def clearViewData_def)
  finally show ?thesis .
qed (simp add: settles_def)

lemma settles_resume:
  assumes "resumeInFlight E b c st = Inr st'"
  shows "settles st st'"
proof -
  from assms obtain st1 where st1: "abortInFlight st = Inr st1"
    "andThen (if b then finishNewView E (updVc (\<lambda>v. v\<lparr>vc_pc := VcRun\<rparr>) st1) else Inr (updVc (\<lambda>v. v\<lparr>vc_pc := VcRun\<rparr>) st1))
       (\<lambda>st3. Inr (if c then clearViewData st3 else st3)) = Inr st'"
    unfolding resumeInFlight_def Let_def by (rule andThenE)
  let ?st2 = "updVc (\<lambda>v. v\<lparr>vc_pc := VcRun\<rparr>) st1"
  from st1(2) obtain st3 where st3: "(if b then finishNewView E ?st2 else Inr ?st2) = Inr st3"
    "Inr (if c then clearViewData st3 else st3) = (Inr st' :: 'a vcState outcome)"
    by (rule andThenE)
  have "settles st ?st2" using abortInFlight_plain [OF st1(1)] by (simp add: settles_def viewNumbers_def)
  also have "settles ?st2 st3" using st3(1) settles_finish [of E ?st2 st3] by (cases b) (simp_all add: settles_same)
  also have "settles st3 st'" using st3(2) by (auto simp: settles_def clearViewData_def)
  finally show ?thesis .
qed

lemma orderedViews_start:
  "orderedViews B st \<Longrightarrow> orderedViews B (vc_startViewChange ch st) \<and>
   vc_currView (st_vc (vc_startViewChange ch st)) = vc_currView (st_vc st)"
  by (auto simp: orderedViews_def vc_startViewChange_def Let_def)

lemma orderedViews_inform:
  "orderedViews B st \<Longrightarrow> unat view \<le> B \<Longrightarrow> orderedViews B (informNewView view st) \<and>
   vc_currView (st_vc st) \<le> vc_currView (st_vc (informNewView view st))"
  by (auto simp: orderedViews_def informNewView_def)

lemma sendViewData_numbers: "sendViewData E st = Inr st' \<Longrightarrow> viewNumbers st' = viewNumbers st"
  by (auto simp: sendViewData_def andThen_eq_Inr_iff viewNumbers_def split: if_splits)

lemma orderedViews_viewChange:
  assumes "processViewChangeMsg E restore st = Inr st'" "orderedViews B st" "Suc B < 2 ^ 64"
  shows "orderedViews (Suc B) st' \<and> vc_currView (st_vc st) \<le> vc_currView (st_vc st')"
  using assms(1)
proof (cases rule: processViewChangeMsg_result)
  case (joined b)
  have "orderedViews B st'" "vc_currView (st_vc st') = vc_currView (st_vc st)"
    using orderedViews_start [OF assms(2)] assms(2) joined(1) by (cases b; simp)+
  then show ?thesis by (auto simp: orderedViews_def)
next
  case (advanced st2 es)
  have o: "orderedViews B st2" "vc_currView (st_vc st2) = vc_currView (st_vc st)"
    using advanced(2) assms(2) orderedViews_start orderedViews_start [OF conjunct1 [OF orderedViews_start]] by metis+
  let ?c = "vc_currView (st_vc st2)" and ?n = "vc_nextView (st_vc st2)"
  have n: "vc_currView (st_vc st') = ?n" "vc_nextView (st_vc st') = ?n" "vc_realView (st_vc st') = vc_realView (st_vc st2)"
    "vc_informChan (st_vc st') = vc_informChan (st_vc st2)"
    using sendViewData_numbers [OF advanced(4)] by (simp_all add: viewNumbers_def)
  have "?c \<noteq> max_u64" using o(1) assms(3) by (intro unat_not_max) (simp add: orderedViews_def)
  then have "unat (?c + 1) = unat ?c + 1" by (rule unat_plus_one)
  then have "?c \<le> ?n" "unat ?n \<le> Suc B" using o(1) by (auto simp: orderedViews_def word_le_nat_alt)
  then show ?thesis using o n by (auto simp: orderedViews_def)
qed

lemma orderedViews_weaken: "orderedViews B st \<Longrightarrow> orderedViews (Suc B) st"
  by (auto simp: orderedViews_def)

lemma orderedViews_same:
  "orderedViews B st \<Longrightarrow> settles st st' \<Longrightarrow> orderedViews (Suc B) st' \<and> vc_currView (st_vc st) \<le> vc_currView (st_vc st')"
  using orderedViews_settles orderedViews_weaken by fastforce

lemma orderedViews_processMsg:
  assumes "vc_processMsg E sender m st = Inr st'" "orderedViews B st" "Suc B < 2 ^ 64"
  shows "orderedViews (Suc B) st' \<and> vc_currView (st_vc st) \<le> vc_currView (st_vc st')"
proof (cases m)
  case (ViewChangeMsg n)
  let ?st1 = "updVc (\<lambda>v. v\<lparr>vc_nvs := registerNext (vc_nvs v) n sender\<rparr>) st"
  show ?thesis
    using assms(1) unfolding ViewChangeMsg
  proof (cases rule: processMsg_viewChange)
    case (counted vs)
    have "orderedViews B (updVc (\<lambda>v. v\<lparr>vc_viewChangeMsgs := vs\<rparr>) ?st1)" using assms(2) by (simp add: orderedViews_def)
    then show ?thesis using orderedViews_viewChange [OF counted(2) _ assms(3)] by simp
  qed (use assms(2) in \<open>auto simp: orderedViews_def\<close>)
next
  case (ViewDataMsg svd)
  have "settles st st'"
    using assms(1) unfolding ViewDataMsg
  proof (cases rule: processMsg_viewData)
    case (counted st1 vs)
    have "settles st1 (updVc (\<lambda>v. v\<lparr>vc_viewDataMsgs := vs\<rparr>) st1)" by (simp add: settles_def)
    then show ?thesis using settles_viewData [OF counted(4)] settles_frame [OF counted(1)] settles_trans by blast
  qed (rule settles_frame)
  then show ?thesis by (rule orderedViews_same [OF assms(2)])
next
  case (NewViewMsg svds)
  then have "settles st st'" using assms(1) by (intro settles_handle) (simp add: vc_processMsg_def)
  then show ?thesis by (rule orderedViews_same [OF assms(2)])
qed (use assms orderedViews_weaken in \<open>auto simp: vc_processMsg_def\<close>)

lemma orderedViews_runStep:
  assumes r: "runStep E ch st = Inr st'" and ord: "orderedViews B st" and bound: "Suc B < 2 ^ 64"
  shows "orderedViews (Suc B) st' \<and> vc_currView (st_vc st) \<le> vc_currView (st_vc st')"
proof (cases ch)
  case VcTakeChange
  have "orderedViews B (updVc (\<lambda>v. v\<lparr>vc_startChangeChan := cs\<rparr>) st)" for cs
    using ord by (simp add: orderedViews_def)
  note o = orderedViews_start [OF this]
  then show ?thesis
    using r VcTakeChange ord by (fastforce simp: runStep_def orderedViews_weaken split: list.splits)
next
  case VcTakeMsg
  show ?thesis
  proof (cases "vc_incMsgs (st_vc st)")
    case (Cons sm rest)
    obtain s m where "sm = (s, m)" by fastforce
    then have "vc_processMsg E s m (updVc (\<lambda>v. v\<lparr>vc_incMsgs := rest\<rparr>) st) = Inr st'"
      using r VcTakeMsg Cons by (simp add: runStep_def)
    from orderedViews_processMsg [OF this _ bound] show ?thesis using ord by (simp add: orderedViews_def)
  qed (use r VcTakeMsg ord in \<open>simp add: runStep_def orderedViews_weaken\<close>)
next
  case (VcTick now)
  then have "settles st st'"
    using r by (auto simp: runStep_def runTick_def settles_def checkIfTimeout_def checkIfResendViewChange_def
        StartViewChange_def Let_def)
  then show ?thesis by (rule orderedViews_same [OF ord])
next
  case VcTakeInform
  show ?thesis
  proof (cases "vc_informChan (st_vc st)")
    case (Cons i rest)
    then have st': "st' = informNewView i (updVc (\<lambda>v. v\<lparr>vc_informChan := rest\<rparr>) st)"
      using r VcTakeInform by (simp add: runStep_def)
    have "orderedViews B (updVc (\<lambda>v. v\<lparr>vc_informChan := rest\<rparr>) st)" "unat i \<le> B"
      using ord Cons by (simp_all add: orderedViews_def)
    from orderedViews_inform [OF this] show ?thesis using st' by (simp add: orderedViews_weaken)
  qed (use r VcTakeInform ord in \<open>simp add: runStep_def orderedViews_weaken\<close>)
next
  case VcTakeRestore
  have "orderedViews B (updVc (\<lambda>v. v\<lparr>vc_Restore := False\<rparr>) st)" using ord by (simp add: orderedViews_def)
  note o = orderedViews_viewChange [OF _ this bound]
  show ?thesis
  proof (cases "vc_Restore (st_vc st)")
    case True
    then show ?thesis using r VcTakeRestore o [of E True st'] by (simp add: runStep_def)
  qed (use r VcTakeRestore ord in \<open>simp add: runStep_def orderedViews_weaken\<close>)
qed (use r orderedViews_same [OF ord] in \<open>auto simp: runStep_def settles_def split: if_splits\<close>)

lemma waitStep_settles:
  assumes w: "waitStep E n c ch st = Inr st'"
  shows "settles st st'"
proof -
  have res: "settles st st'" if "resumeInFlight E b c st1 = Inr st'" "viewNumbers st1 = viewNumbers st" for b st1
    using settles_trans [OF settles_same [OF that(2)] settles_resume [OF that(1)]] .
  show ?thesis
  proof (cases ch)
    case (VcTick now)
    show ?thesis
    proof (cases n)
      case 0
      obtain t st1 where t: "checkIfTimeout now (updVc (\<lambda>v. v\<lparr>vc_lastTick := now\<rparr>) st) = (t, st1)" by fastforce
      have "viewNumbers st1 = viewNumbers st" using checkIfTimeout_same [OF t] by (simp add: viewNumbers_def)
      then show ?thesis
        using w VcTick 0 t res settles_same [of st1 st] by (auto simp: waitStep_def waitTick_def split: if_splits)
    qed (use w VcTick in \<open>auto simp: waitStep_def waitTick_def settles_def\<close>)
  next
    case VcTakeDecide
    then show ?thesis
      using w res settles_same [of st st] by (auto simp: waitStep_def viewNumbers_def split: if_splits)
  next
    case VcTakeSync
    then show ?thesis
      using w res settles_same [of st st] by (auto simp: waitStep_def viewNumbers_def split: if_splits)
  next
    case VcTakeStop
    then show ?thesis
      using w res settles_same [of st st] by (auto simp: waitStep_def split: if_splits)
  qed (use w in \<open>simp_all add: waitStep_def settles_def\<close>)
qed

lemma orderedViews_step:
  assumes "vcStep E ch st = Inr st'" "orderedViews B st" "Suc B < 2 ^ 64" "\<And>i. ch = VcInformCall i \<Longrightarrow> unat i \<le> B"
  shows "orderedViews (Suc B) st' \<and> vc_currView (st_vc st) \<le> vc_currView (st_vc st')"
proof -
  note same = orderedViews_same [OF assms(2)]
  show ?thesis
  proof (cases ch)
    case (VcHandle s m)
    then show ?thesis
      using assms(1) same by (auto simp: vcStep_def vcCall_def vc_HandleMessage_def settles_def split: if_splits)
  next
    case (VcHandleView s m)
    then show ?thesis
      using assms(1) same
      by (auto simp: vcStep_def vcCall_def HandleViewMessage_def settles_def split: option.splits vcPc.splits nat.splits)
  next
    case (VcInformCall i)
    then show ?thesis
      using assms(1,2) assms(4) [OF VcInformCall]
      by (auto simp: vcStep_def vcCall_def InformNewView_def orderedViews_def split: if_splits)
  next
    case (VcStartCall n b)
    then show ?thesis using assms(1) same by (auto simp: vcStep_def StartViewChange_def settles_def)
  next
    case VcCloseCall
    then show ?thesis using assms(1) same by (auto simp: vcStep_def vc_close_def settles_def)
  next
    case (VcShared w i)
    then show ?thesis using assms(1) same by (auto simp: vcStep_def settles_def)
  next
    case (VcViewStep c)
    then show ?thesis using assms(1) same inFlightStep_plain [of E c st st'] settles_same [of st' st] by (simp add: vcStep_def)
  qed (use assms(1) orderedViews_runStep [OF _ assms(2,3), of E ch st'] waitStep_settles [of E _ _ ch st st'] same in \<open>auto simp: vcStep_def settles_def split: vcPc.splits\<close>)
qed

lemma orderedViews_run:
  "vcRun st steps = Inr st' \<Longrightarrow> orderedViews B st \<Longrightarrow> \<forall>E i. (E, VcInformCall i) \<in> set steps \<longrightarrow> unat i \<le> B \<Longrightarrow>
   B + length steps < 2 ^ 64 \<Longrightarrow>
   orderedViews (B + length steps) st' \<and> vc_currView (st_vc st) \<le> vc_currView (st_vc st')"
proof (induction st steps arbitrary: B rule: vcRun.induct)
  case (2 st E ch steps)
  from 2(2) obtain st1 where st1: "vcStep E ch st = Inr st1" "vcRun st1 steps = Inr st'"
    unfolding vcRun.simps by (rule andThenE)
  have "orderedViews (Suc B) st1 \<and> vc_currView (st_vc st) \<le> vc_currView (st_vc st1)"
    by (rule orderedViews_step [OF st1(1) 2(3)]) (use 2(4,5) in auto)
  then show ?case using 2(1) [OF st1(2), of "Suc B"] 2(4,5) by fastforce
qed simp

subsection \<open>The end of the validation loop\<close>

text \<open>Protobuf documents that an empty message decodes to the default values.\<close>

definition emptyDecodes :: "codec \<Rightarrow> bool" where
  "emptyDecodes C \<longleftrightarrow> (\<exists>md. unmarshalMetadata C [] = Some md \<and> LatestSequence md = 0)"

lemma extractCurrentSequence_height:
  assumes "extractCurrentSequence E st = Inr (s, d)" "atHeight (ve_codec E) height (st_world st)" "emptyDecodes (ve_codec E)"
  shows "s = height (w_app (st_world st))"
  using assms
  by (auto simp: extractCurrentSequence_def atHeight_def latestSeq_def emptyDecodes_def Checkpoint_Get_def bytes_of_def
      split: if_splits option.splits)

lemma judgeSvd_ahead:
  assumes "judgeSvd E s d svd st = SvdAhead vd p md"
  shows "unmarshalViewData (ve_codec E) (svd_RawViewData svd) = Some vd \<and> vd_LastDecision vd = Some p \<and>
    vcMetadata E p = Some md \<and> LatestSequence md = s + 1 \<and> s < LatestSequence md"
proof -
  obtain vd0 where vd0: "unmarshalViewData (ve_codec E) (svd_RawViewData svd) = Some vd0"
    using assms by (cases "unmarshalViewData (ve_codec E) (svd_RawViewData svd)") (simp_all add: judgeSvd_def)
  have nv: "vd_NextView vd0 = vc_currView (st_vc st)"
    using assms vd0 by (cases "vd_NextView vd0 = vc_currView (st_vc st)") (simp_all add: judgeSvd_def)
  obtain p0 where p0: "vd_LastDecision vd0 = Some p0"
    using assms vd0 nv by (cases "vd_LastDecision vd0") (simp_all add: judgeSvd_def)
  have nn: "Metadata p0 \<noteq> None"
    using assms vd0 nv p0 by (cases "Metadata p0 = None") (simp_all add: judgeSvd_def Let_def split: if_splits)
  obtain md0 where md0: "vcMetadata E p0 = Some md0"
    using assms vd0 nv p0 nn by (cases "vcMetadata E p0") (simp_all add: judgeSvd_def)
  let ?l = "LatestSequence md0"
  have v: "\<not> ViewId md0 \<ge> vd_NextView vd0" "\<not> ?l > s + 1" "\<not> ?l < s" "?l \<noteq> s" "?l = s + 1" "vd = vd0" "p = p0" "md = md0"
    using assms vd0 nv p0 nn md0 unfolding judgeSvd_def Let_def by (auto split: if_splits)
  have "s < ?l" using v(3,4) linorder_less_linear [of s ?l] by blast
  then show ?thesis using v(5-8) vd0 p0 md0 by simp
qed

lemma validateSvds_deliver:
  "validateSvds E s d svds nodes n st = Inr ((a, b, True), st') \<Longrightarrow>
   \<exists>svd\<in>set svds. \<exists>vd p md. judgeSvd E s d svd st = SvdAhead vd p md \<and>
     newViewAhead E svd vd p md st = Inr ((a, b, True), st')"
proof (induction E s d svds nodes n st rule: validateSvds.induct)
  case (2 E s d svd svds nodes n st)
  show ?case
  proof (cases "svd_Signer svd \<in> set nodes")
    case True
    then show ?thesis using 2(1,3) by auto
  next
    case False
    then show ?thesis using 2(2,3) by (cases "judgeSvd E s d svd st") auto
  qed
qed simp

lemma deliverDecision_world:
  assumes "deliverDecision E p sigs st = Inr st'"
  shows "\<exists>r. MutuallyExclusiveDeliver (ve_codec E) (ve_application E) (st_world st) p sigs = Inr (st_world st', r)"
  using assms by (auto simp: deliverDecision_def deliverToApp_def andThen_eq_Inr_iff)

lemma newViewAhead_deliver:
  assumes "newViewAhead E svd vd p md st = Inr ((a, b, True), st')"
  shows "deliverDecision E p (vd_LastDecisionSignatures vd) st = Inr st'"
  using assms by (auto simp: newViewAhead_def andThen_eq_Inr_iff split: sum.splits if_splits)

text \<open>The sequences a new view message can still bring.\<close>

definition sequencesAbove :: "codec \<Rightarrow> SignedViewData list \<Rightarrow> u64 \<Rightarrow> u64 set" where
  "sequencesAbove C svds h = {x \<in> set (List.map_filter
     (\<lambda>svd. Option.bind (unmarshalViewData C (svd_RawViewData svd)) (\<lambda>vd.
        Option.bind (vd_LastDecision vd) (sequenceOf C))) svds). h < x}"

lemma sequencesAbove_finite [simp]: "finite (sequencesAbove C svds h)"
  by (simp add: sequencesAbove_def)

lemma length_map_filter: "length (List.map_filter f xs) \<le> length xs"
  by (induction xs) (auto simp: map_filter_simps split: option.splits)

lemma sequencesAbove_card: "card (sequencesAbove C svds h) \<le> length svds"
proof -
  let ?l = "List.map_filter (\<lambda>svd. Option.bind (unmarshalViewData C (svd_RawViewData svd)) (\<lambda>vd.
        Option.bind (vd_LastDecision vd) (sequenceOf C))) svds"
  have "card (sequencesAbove C svds h) \<le> card (set ?l)" by (rule card_mono) (auto simp: sequencesAbove_def)
  also have "\<dots> \<le> length ?l" by (rule card_length)
  also have "\<dots> \<le> length svds" by (rule length_map_filter)
  finally show ?thesis .
qed

lemma deliver_round:
  assumes "validateNewViewMsg E svds st = Inr ((a, b, True), st1)" "storesDecisions (ve_codec E) (ve_application E) height"
    and "atHeight (ve_codec E) height (st_world st)" "emptyDecodes (ve_codec E)"
  shows "atHeight (ve_codec E) height (st_world st1) \<and>
    card (sequencesAbove (ve_codec E) svds (height (w_app (st_world st1)))) <
    card (sequencesAbove (ve_codec E) svds (height (w_app (st_world st))))"
proof -
  obtain s d where sd: "extractCurrentSequence E st = Inr (s, d)"
    "validateSvds E s d svds [] 0 st = Inr ((a, b, True), st1)"
    using assms(1) by (auto simp: validateNewViewMsg_def andThen_eq_Inr_iff)
  have h: "s = height (w_app (st_world st))" by (rule extractCurrentSequence_height [OF sd(1) assms(3,4)])
  obtain svd vd p md where svd: "svd \<in> set svds" "judgeSvd E s d svd st = SvdAhead vd p md"
    "newViewAhead E svd vd p md st = Inr ((a, b, True), st1)"
    using validateSvds_deliver [OF sd(2)] by blast
  have j: "unmarshalViewData (ve_codec E) (svd_RawViewData svd) = Some vd" "vd_LastDecision vd = Some p"
    "vcMetadata E p = Some md" "s < LatestSequence md"
    using judgeSvd_ahead [OF svd(2)] by blast+
  have sq: "sequenceOf (ve_codec E) p = Some (LatestSequence md)" using j(3) by (simp add: sequenceOf_def)
  obtain r where r: "MutuallyExclusiveDeliver (ve_codec E) (ve_application E) (st_world st) p
      (vd_LastDecisionSignatures vd) = Inr (st_world st1, r)"
    using deliverDecision_world [OF newViewAhead_deliver [OF svd(3)]] by blast
  have "LatestSequence md > 0" using j(4) by (metis word_gt_0 word_not_simps(1))
  note d = MutuallyExclusiveDeliver_result [OF r assms(2,3) sq this]
  have new: "height (w_app (st_world st1)) = LatestSequence md" using d j(4) h by (auto split: if_splits)
  have "LatestSequence md \<in> sequencesAbove (ve_codec E) svds s"
    using svd(1) j sq by (force simp: sequencesAbove_def List.map_filter_def)
  moreover have "LatestSequence md \<notin> sequencesAbove (ve_codec E) svds (LatestSequence md)" by (simp add: sequencesAbove_def)
  moreover have "sequencesAbove (ve_codec E) svds (LatestSequence md) \<subseteq> sequencesAbove (ve_codec E) svds s"
    using j(4) by (auto simp: sequencesAbove_def)
  ultimately have "sequencesAbove (ve_codec E) svds (LatestSequence md) \<subset> sequencesAbove (ve_codec E) svds s" by blast
  then have "card (sequencesAbove (ve_codec E) svds (LatestSequence md)) < card (sequencesAbove (ve_codec E) svds s)"
    by (rule psubset_card_mono [OF sequencesAbove_finite])
  then show ?thesis using d new h by simp
qed

text \<open>The handlers of the loop panic, but never wait.\<close>

fun waits :: "'r outcome \<Rightarrow> bool" where
  "waits (Inl (Blocked c)) = True"
| "waits _ = False"

lemma waits_andThen: "waits (andThen r k) \<longleftrightarrow> waits r \<or> (\<exists>x. r = Inr x \<and> waits (k x))"
proof (cases r)
  case (Inl e)
  then show ?thesis by (cases e) auto
qed simp

lemma deliverDecision_waits: "\<not> waits (deliverDecision E p sigs st)"
  by (auto simp: deliverDecision_def deliverToApp_def MutuallyExclusiveDeliver_def waits_andThen latestSeq_def Let_def
      split: option.splits if_splits prod.splits)

lemma newViewAhead_waits: "\<not> waits (newViewAhead E svd vd p md st)"
  by (auto simp: newViewAhead_def waits_andThen deliverDecision_waits split: sum.splits if_splits)

lemma validateSvds_waits: "\<not> waits (validateSvds E s d svds nodes n st)"
proof (induction E s d svds nodes n st rule: validateSvds.induct)
  case (2 E s d svd svds nodes n st)
  show ?case
  proof (cases "svd_Signer svd \<in> set nodes")
    case True
    then show ?thesis using 2(1) by simp
  next
    case False
    then show ?thesis using 2(2) by (cases "judgeSvd E s d svd st") (simp_all add: newViewAhead_waits)
  qed
qed simp

lemma validateNewViewMsg_waits: "\<not> waits (validateNewViewMsg E svds st)"
  by (auto simp: validateNewViewMsg_def extractCurrentSequence_def waits_andThen validateSvds_waits
      split: option.splits if_splits)

lemma newViewLoop_ends:
  assumes "storesDecisions (ve_codec E) (ve_application E) height" "emptyDecodes (ve_codec E)"
  shows "atHeight (ve_codec E) height (st_world st) \<Longrightarrow>
    card (sequencesAbove (ve_codec E) svds (height (w_app (st_world st)))) < n \<Longrightarrow> \<not> waits (newViewLoop n E svds st)"
proof (induction n arbitrary: st)
  case (Suc n)
  show ?case
  proof (cases "validateNewViewMsg E svds st")
    case (Inl e)
    then show ?thesis using validateNewViewMsg_waits [of E svds st] by (cases e) simp_all
  next
    case (Inr res)
    obtain a b c st1 where res: "res = ((a, b, c), st1)" by (metis prod_cases3 surj_pair)
    show ?thesis
    proof (cases c)
      case True
      then have "validateNewViewMsg E svds st = Inr ((a, b, True), st1)" using Inr res by simp
      note d = deliver_round [OF this assms(1) Suc.prems(1) assms(2)]
      then show ?thesis using Suc.IH [of st1] Suc.prems(2) Inr res True by simp
    qed (use Inr res in simp)
  qed
qed simp

end
