(* ===== verification/ViewChangeProperties.thy ===== *)
theory ViewChangeProperties
  imports ViewChangeRuns
begin

text \<open>
  What the view changer guarantees: a node enters a new view only on the view data of a quorum, after it saved it;
  its view numbers stay ordered; the validation of a new view message ends; and two ways in which a faulty leader or
  a timeout gets past that.
\<close>

subsection \<open>An example\<close>

text \<open>The view data of a node at genesis, of one with the first proposal in flight, and of one that decided it.\<close>

definition genesisReport :: ViewData where
  "genesisReport = \<lparr>vd_NextView = 1, vd_LastDecision = Some genesis, vd_LastDecisionSignatures = [],
     vd_InFlightProposal = None, vd_InFlightPrepared = False\<rparr>"

definition preparedReport :: ViewData where
  "preparedReport = genesisReport\<lparr>vd_InFlightProposal := Some (counterProposal 1), vd_InFlightPrepared := True\<rparr>"

definition decidedReport :: ViewData where
  "decidedReport = genesisReport\<lparr>vd_LastDecision := Some (counterProposal 1),
     vd_LastDecisionSignatures := map (\<lambda>i. \<lparr>Signer = i, Value = [], Msg = []\<rparr>) [1, 2, 4]\<rparr>"

definition reportCodec :: codec where
  "reportCodec = fullCodec\<lparr>unmarshalViewData := (\<lambda>b.
     if b = [0] then Some genesisReport else if b = [1] then Some preparedReport
     else if b = [2] then Some decidedReport else None)\<rparr>"

definition counterServices :: "u64 \<Rightarrow> u64 services" where
  "counterServices self = \<lparr>api_VerifyProposal = (\<lambda>_ _. Some []), api_VerifyConsenterSig = (\<lambda>_ sig p. Some (Msg sig)),
     api_VerifySignature = (\<lambda>_ _. True), api_VerificationSequence = (\<lambda>_. 0),
     api_RequestsFromProposal = (\<lambda>_ _. []), api_AuxiliaryData = (\<lambda>_ m. m), api_MembershipNotifier = None,
     api_SignProposal = (\<lambda>_ p raw. \<lparr>Signer = self, Value = [], Msg = []\<rparr>), api_Sign = (\<lambda>_ _. [])\<rparr>"

definition counterEnv :: "u64 vcEnv" where
  "counterEnv = \<lparr>ve_codec = reportCodec, ve_services = counterServices 3, ve_application = counterApp,
     ve_saveOK = (\<lambda>_. True), ve_metricsFile = True\<rparr>"

text \<open>Node 3 of four; node 2 leads view 1.\<close>

definition exampleChanger :: ViewChanger where
  "exampleChanger = \<lparr>vc_SelfID = 3, vc_NodesList = [1, 2, 3, 4], vc_N = 4, vc_f = 0, vc_quorum = 0,
     vc_SpeedUpViewChange = False, vc_LeaderRotation = False, vc_DecisionsPerLeader = 0, vc_inFlightDecide = False,
     vc_inFlightSync = False, vc_inFlightView = None, vc_lastTick = 0, vc_ResendTimeout = 5, vc_lastResend = 0,
     vc_ViewChangeTimeout = 20, vc_startViewChangeTime = 0, vc_checkTimeout = False, vc_backOffFactor = 0,
     vc_Restore = False, vc_InMsqQSize = 10, vc_incMsgs = [], vc_viewChangeMsgs = voteSet_clear 0,
     vc_viewDataMsgs = voteSet_clear 0, vc_nvs = nextViews_clear, vc_realView = 0, vc_currView = 0, vc_nextView = 0,
     vc_startChangeChan = [], vc_informChan = [], vc_committedDuringViewChange = None, vc_stopped = False,
     vc_pc = VcEnded\<rparr>"

definition startState :: "u64 vcState" where
  "startState = \<lparr>st_vc = ViewChanger_Start 0 0 exampleChanger,
     st_world = \<lparr>w_app = 0, w_Checkpoint = \<lparr>ckp_proposal = genesis, ckp_signatures = []\<rparr>\<rparr>,
     st_InFlight = None, st_effects = []\<rparr>"

definition signedReport :: "u64 \<Rightarrow> nat \<Rightarrow> SignedViewData" where
  "signedReport signer kind = \<lparr>svd_RawViewData = [of_nat kind], svd_Signer = signer, svd_Signature = []\<rparr>"

definition changeSteps :: "SignedViewData list \<Rightarrow> (u64 vcEnv \<times> u64 vcChoice) list" where
  "changeSteps svds = map (\<lambda>ch. (counterEnv, ch)) [VcStartCall 0 True, VcTakeChange, VcHandle 1 (ViewChangeMsg 1), VcTakeMsg,
     VcHandle 4 (ViewChangeMsg 1), VcTakeMsg, VcHandle 2 (NewViewMsg svds), VcTakeMsg]"

definition quorumReports :: "SignedViewData list" where
  "quorumReports = [signedReport 1 2, signedReport 2 2, signedReport 4 0]"

definition exampleEnd :: "u64 vcState" where
  "exampleEnd = (case vcRun startState (changeSteps quorumReports) of Inr st \<Rightarrow> st | Inl _ \<Rightarrow> startState)"

lemma exampleEnd_run: "vcRun startState (changeSteps quorumReports) = Inr exampleEnd"
proof -
  have "case vcRun startState (changeSteps quorumReports) of Inr _ \<Rightarrow> True | Inl _ \<Rightarrow> False" by code_simp
  then show ?thesis by (auto simp: exampleEnd_def split: sum.splits)
qed

lemma vcRun_inv_start:
  "st_vc st = ViewChanger_Start n now v \<Longrightarrow> st_effects st = [] \<Longrightarrow> vcRun_inv (fst (computeQuorum (vc_N v))) C D st"
  by (simp add: vcRun_inv_def backedChanges_def ViewChanger_Start_def vc_setupVotes_def)

lemma orderedViews_fresh:
  "st_vc st = ViewChanger_Start n now v \<Longrightarrow> unat n \<le> B \<Longrightarrow> orderedViews B st"
  by (simp add: orderedViews_def ViewChanger_Start_def vc_setupVotes_def)

lemma reportCodec_stores: "storesDecisions reportCodec counterApp (\<lambda>a. a)"
  using counterApp_stores by (simp add: storesDecisions_def reportCodec_def sequenceOf_def)

subsection \<open>Properties\<close>

text \<open>
  C8: a node installs a new view only on the word of a quorum, and only after it saved it. In every run of the view
  changer, wherever it tells the controller to change to a view, it has before that handled or itself broadcast one new
  view message with decodable view data for exactly that view from at least \<open>quorum\<close> distinct signers, and
  it has before that saved that view together with the sequence it continues from. \<open>before\<close> are the effects up to the announcement.
\<close>

theorem new_view_has_quorum:
  assumes "vcRun st steps = Inr st'" "st_vc st = ViewChanger_Start n now v" "st_effects st = []"
    and "\<forall>(E, ch)\<in>set steps. ve_codec E = C" "st_effects st' = before @ VcViewChanged view s # after"
  shows "\<exists>svds. newViewQuorum C (fst (computeQuorum (vc_N v))) view svds \<and>
    ((\<exists>sender. (sender, NewViewMsg svds) \<in> handled steps) \<or> VcBroadcast (NewViewMsg svds) \<in> set before) \<and>
    (\<exists>md. VcSave (SavedNewView md) \<in> set before \<and> ViewId md = view \<and> LatestSequence md + 1 = s)"
proof -
  have "vcRun_inv (fst (computeQuorum (vc_N v))) C (handled steps) st'"
    by (rule vcRun_keeps_inv [OF assms(1) vcRun_inv_start [OF assms(2,3)] assms(4)]) simp
  then have "seenQuorum C (handled steps) (fst (computeQuorum (vc_N v))) before view" "savedNewView before view s"
    using assms(5) unfolding vcRun_inv_def backedChanges_def by blast+
  then show ?thesis unfolding seenQuorum_def savedNewView_def by auto
qed

theorem new_view_has_quorum_witness:
  "\<exists>before after svds. st_effects exampleEnd = before @ VcViewChanged 1 2 # after \<and> newViewQuorum reportCodec 3 1 svds \<and>
     ((\<exists>sender. (sender, NewViewMsg svds) \<in> handled (changeSteps quorumReports)) \<or> VcBroadcast (NewViewMsg svds) \<in> set before) \<and>
     (\<exists>md. VcSave (SavedNewView md) \<in> set before \<and> ViewId md = 1 \<and> LatestSequence md + 1 = 2)"
proof -
  have "VcViewChanged 1 2 \<in> set (st_effects exampleEnd)" by code_simp
  then obtain before after where e: "st_effects exampleEnd = before @ VcViewChanged 1 2 # after"
    by (meson split_list)
  have q: "fst (computeQuorum (vc_N exampleChanger)) = 3" by code_simp
  have s: "st_vc startState = ViewChanger_Start 0 0 exampleChanger" "st_effects startState = []"
    by (simp_all add: startState_def)
  have c: "\<forall>(E, ch)\<in>set (changeSteps quorumReports). ve_codec E = reportCodec"
    by (auto simp: changeSteps_def counterEnv_def)
  show ?thesis using new_view_has_quorum [OF exampleEnd_run s c e] e unfolding q by blast
qed

text \<open>
  C21: the view numbers stay in order. Cut a run anywhere: as long as the numbers stay below \<open>2 ^ 64\<close>, at the cut and at
  the end the real view is not ahead of the current one and the next view is the current one or its successor, and the
  current view at the end is not below the one at the cut, whatever view changes, timeouts and synchronizations happen.
\<close>

theorem view_numbers_ordered:
  assumes "st_vc st = ViewChanger_Start n now v" "vcRun st steps = Inr mid" "vcRun mid steps' = Inr st'" "unat n \<le> B"
    and "\<forall>E i. (E, VcInformCall i) \<in> set (steps @ steps') \<longrightarrow> unat i \<le> B" "B + length (steps @ steps') < 2 ^ 64"
  shows "n \<le> vc_currView (st_vc mid) \<and> vc_currView (st_vc mid) \<le> vc_currView (st_vc st') \<and>
    unat (vc_currView (st_vc st')) \<le> B + length (steps @ steps') \<and>
    (\<forall>x\<in>{mid, st'}. vc_realView (st_vc x) \<le> vc_currView (st_vc x) \<and>
       (vc_nextView (st_vc x) = vc_currView (st_vc x) \<or> vc_nextView (st_vc x) = vc_currView (st_vc x) + 1))"
proof -
  have "n = vc_currView (st_vc st)" using assms(1) by (simp add: ViewChanger_Start_def)
  moreover have m: "orderedViews (B + length steps) mid \<and> vc_currView (st_vc st) \<le> vc_currView (st_vc mid)"
    by (rule orderedViews_run [OF assms(2) orderedViews_fresh [OF assms(1,4)]]) (use assms(5,6) in auto)
  moreover have "orderedViews (B + length steps + length steps') st' \<and> vc_currView (st_vc mid) \<le> vc_currView (st_vc st')"
    by (rule orderedViews_run [OF assms(3) conjunct1 [OF m]]) (use assms(5,6) in \<open>auto simp: trans_le_add1\<close>)
  ultimately show ?thesis by (auto simp: orderedViews_def add.assoc)
qed

text \<open>Node 3 moved to view 1; a late report of view 0 by a synchronization changes nothing.\<close>

definition lateInform :: "(u64 vcEnv \<times> u64 vcChoice) list" where
  "lateInform = [(counterEnv, VcInformCall 0), (counterEnv, VcTakeInform)]"

theorem view_numbers_ordered_witness:
  "\<exists>st'. vcRun startState (changeSteps quorumReports) = Inr exampleEnd \<and> vcRun exampleEnd lateInform = Inr st' \<and>
     vc_currView (st_vc exampleEnd) = 1 \<and> 1 \<le> vc_currView (st_vc st') \<and>
     vc_realView (st_vc st') \<le> vc_currView (st_vc st') \<and> unat (vc_currView (st_vc st')) \<le> 10"
proof -
  have "case vcRun exampleEnd lateInform of Inr _ \<Rightarrow> True | Inl _ \<Rightarrow> False" by code_simp
  then obtain st' where st': "vcRun exampleEnd lateInform = Inr st'" by (auto split: sum.splits)
  have "st_vc startState = ViewChanger_Start 0 0 exampleChanger" by (simp add: startState_def)
  moreover have "\<forall>E i. (E, VcInformCall i) \<in> set (changeSteps quorumReports @ lateInform) \<longrightarrow> unat i \<le> 0"
    "length (changeSteps quorumReports @ lateInform) = 10"
    by (auto simp: changeSteps_def lateInform_def)
  moreover have "vc_currView (st_vc exampleEnd) = 1" by code_simp
  ultimately show ?thesis
    using view_numbers_ordered [OF _ exampleEnd_run st', of 0 0 exampleChanger 0] exampleEnd_run st' by simp
qed

text \<open>
  C22: the loop of \<open>processNewViewMsg\<close> ends. It validates the message again after every decision it delivered from it; with
  an application that keeps what it is given, one round more than the message has view data is enough, since every
  round that delivers uses up one sequence the message can bring.
\<close>

theorem new_view_loop_ends:
  assumes "storesDecisions (ve_codec E) (ve_application E) height" "emptyDecodes (ve_codec E)"
    and "atHeight (ve_codec E) height (st_world st)"
  shows "\<not> waits (newViewLoop (Suc (length svds)) E svds st)"
  by (rule newViewLoop_ends [OF assms(1,2,3)]) (simp add: less_Suc_eq_le sequencesAbove_card)

theorem new_view_loop_ends_witness:
  "\<not> waits (newViewLoop (Suc (length quorumReports)) counterEnv quorumReports startState)"
proof (rule new_view_loop_ends [of counterEnv "\<lambda>a. a"])
  show "storesDecisions (ve_codec counterEnv) (ve_application counterEnv) (\<lambda>a. a)"
    using reportCodec_stores by (simp add: counterEnv_def)
  show "emptyDecodes (ve_codec counterEnv)"
    unfolding emptyDecodes_def by (intro exI [of _ emptyViewMetadata]) code_simp
  show "atHeight (ve_codec counterEnv) (\<lambda>a. a) (st_world startState)"
    unfolding atHeight_def by code_simp
qed

subsection \<open>Defects\<close>

text \<open>
  \<open>validateNewViewMsg\<close> skips a second view data of one signer, but \<open>processNewViewMsg\<close> passes every one to
  \<open>CheckInFlight\<close>. Node 1 prepared the first proposal with node 2 and one more; nodes 2 (faulty, the leader of view 1)
  and 4 report nothing in flight. With its view data once, the check is undecided; with it twice, node 3
  enters view 1 without the proposal that may have been decided.
\<close>

theorem duplicate_view_data_drops_proposal:
  "(case vcRun startState (changeSteps [signedReport 2 0, signedReport 1 1, signedReport 4 0]) of
      Inr st \<Rightarrow> \<forall>s. VcViewChanged 1 s \<notin> set (st_effects st) | Inl _ \<Rightarrow> False) \<and>
   (case vcRun startState (changeSteps [signedReport 2 0, signedReport 1 1, signedReport 4 0, signedReport 2 0]) of
      Inr st \<Rightarrow> VcViewChanged 1 1 \<in> set (st_effects st) | Inl _ \<Rightarrow> False)"
proof
  have "case vcRun startState (changeSteps [signedReport 2 0, signedReport 1 1, signedReport 4 0]) of
      Inr st \<Rightarrow> list_all (\<lambda>e. case e of VcViewChanged _ _ \<Rightarrow> False | _ \<Rightarrow> True) (st_effects st) | Inl _ \<Rightarrow> False"
    by code_simp
  then show "case vcRun startState (changeSteps [signedReport 2 0, signedReport 1 1, signedReport 4 0]) of
      Inr st \<Rightarrow> \<forall>s. VcViewChanged 1 s \<notin> set (st_effects st) | Inl _ \<Rightarrow> False"
    by (auto simp: list_all_iff split: sum.splits)
qed code_simp

text \<open>A second view data of the leader that does not decode makes the node panic.\<close>

theorem undecodable_duplicate_panics:
  "vcRun startState (changeSteps [signedReport 2 0, signedReport 1 0, signedReport 4 0, signedReport 2 7]) =
     Inl (Panic ''unable to unmarshal viewData from the newView message'')"
  by code_simp

text \<open>
  While the goroutine of the view for the proposal in flight waits to report its decision or its synchronization,
  a timeout of the view changer aborts that view and waits for the same goroutine: both wait for ever.
\<close>

theorem timeout_while_view_reports_blocks:
  assumes "vc_pc (st_vc st) = VcInFlight 0 c" "vc_inFlightView (st_vc st) = Some view" "vc_checkTimeout (st_vc st)"
    and "vc_startViewChangeTime (st_vc st) + durationMul (vc_ViewChangeTimeout (st_vc st)) (vc_backOffFactor (st_vc st)) \<le> now"
    and "vc_inFlightSync (st_vc st) \<or> vc_inFlightDecide (st_vc st) \<and> \<not> vc_stopped (st_vc st)"
  shows "vcStep E (VcTick now) st = Inl (Blocked ''viewEnded'')"
  using assms
  by (auto simp: vcStep_def waitStep_def waitTick_def checkIfTimeout_def resumeInFlight_def abortInFlight_def Let_def
      StartViewChange_def)

text \<open>
  At genesis the new leader accepts view data whose signer is not the sender and whose signature nobody checked; the
  followers do check it, so one such view data in the new view message makes them reject the whole message.
\<close>

theorem genesis_view_data_unchecked:
  assumes "unmarshalViewData (ve_codec E) (svd_RawViewData svd) = Some vd" "vd_LastDecision vd = Some p" "Metadata p = None"
    and "Metadata (lastDecision st) = None"
  shows "checkLastDecision E svd sender st = Inr ((True, 0), st) \<and>
    (\<not> verifySvd E svd st \<longrightarrow> judgeSvd E 0 (lastDecision st) svd st = SvdInvalid)"
  using assms by (simp add: checkLastDecision_def extractCurrentSequence_def judgeSvd_def)

end
