(* ===== verification/CrossView.thy ===== *)
theory CrossView
  imports Recovery ViewChangeProperties
begin

text \<open>
  Safety across a view change. What a node commits in a view stays in its in-flight data until it decides it, so the
  view data it sends afterwards reports it as prepared; with the quorum behind a decision and the safety of
  \<open>CheckInFlight\<close> this shows that a decision of the old view is what the new view starts with.
\<close>

subsection \<open>How a view progresses\<close>

text \<open>A record of a proposal: its metadata carries the sequence it was accepted for.\<close>

definition recorded :: "codec \<Rightarrow> PrePrepare \<Rightarrow> bool" where
  "recorded C pp \<longleftrightarrow> (\<exists>p md. pp_Proposal pp = Some p \<and> unmarshalMetadata C (bytes_of (Metadata p)) = Some md \<and>
     LatestSequence md = pp_Seq pp)"

text \<open>One step of a view saves nothing, or accepts a proposal, or commits to it, or decides it.\<close>

inductive viewProgress :: "codec \<Rightarrow> View \<Rightarrow> View \<Rightarrow> viewEffect list \<Rightarrow> bool" for C where
  quiet: "\<lbrakk>\<And>L. savedLog L effs = L; committedIn effs = {}; \<And>s. decisionsFrom s effs = [];
    v_Phase v' = v_Phase v \<or> v_Phase v' = ABORT; v_ProposalSequence v' = v_ProposalSequence v\<rbrakk> \<Longrightarrow> viewProgress C v v' effs"
| proposed: "\<lbrakk>\<And>L. savedLog L effs = [SavedProposedRecord pp prp]; committedIn effs = {}; \<And>s. decisionsFrom s effs = [];
    recorded C pp; v_Phase v = COMMITTED; v_Phase v' = PROPOSED\<rbrakk> \<Longrightarrow> viewProgress C v v' effs"
| prepared: "\<lbrakk>\<And>L. savedLog L effs = L @ [SavedCommit (CommitMsg c)]; committedIn effs = {c}; \<And>s. decisionsFrom s effs = [];
    v_inFlightProposal v = Some p; cmt_Seq c = v_ProposalSequence v; cmt_Digest c = Digest C p;
    v_Phase v = PROPOSED; v_Phase v' = PREPARED; v_ProposalSequence v' = v_ProposalSequence v\<rbrakk> \<Longrightarrow> viewProgress C v v' effs"
| decided: "\<lbrakk>\<And>L. savedLog L effs = L; committedIn effs = {}; \<And>s. \<exists>p sigs. decisionsFrom s effs = [(v_ProposalSequence v, p, sigs)];
    v_Phase v = PREPARED; v_Phase v' = COMMITTED\<rbrakk> \<Longrightarrow> viewProgress C v v' effs"

lemma quiet_progress:
  assumes "list_all quietEffect effs" "v_Phase v' = v_Phase v \<or> v_Phase v' = ABORT" "v_ProposalSequence v' = v_ProposalSequence v"
  shows "viewProgress C v v' effs"
  using assms by (intro viewProgress.quiet) (auto simp: savedLog_quiet quiet_decisions)

lemma progress_cong:
  assumes "viewProgress C w v' effs" "v_Phase w = v_Phase v" "v_ProposalSequence w = v_ProposalSequence v"
    and "v_inFlightProposal w = v_inFlightProposal v"
  shows "viewProgress C v v' effs"
  using assms(1)
proof cases
  case quiet
  then show ?thesis using assms(2,3) by (intro viewProgress.quiet) auto
next
  case (proposed pp prp)
  then show ?thesis using assms(2) by (intro viewProgress.proposed) auto
next
  case (prepared c p)
  then show ?thesis using assms(2-4) by (intro viewProgress.prepared [of _ c _ p]) auto
next
  case decided
  then show ?thesis using assms(2,3) by (intro viewProgress.decided) auto
qed

lemma progress_broadcastLast:
  assumes "viewProgress C v v' effs"
  shows "viewProgress C v v' (broadcastLast v @ effs)"
proof -
  have b: "committedIn (broadcastLast v) = {}" "\<And>L. savedLog L (broadcastLast v @ effs) = savedLog L effs"
    "\<And>s. decisionsFrom s (broadcastLast v @ effs) = decisionsFrom s effs"
    by (auto simp: broadcastLast_def committedIn_def split: option.splits)
  from assms show ?thesis
    by (cases rule: viewProgress.cases) (auto simp: b intro: viewProgress.intros)
qed

lemma acceptPrePrepare_progress:
  assumes "acceptPrePrepare E v m = Inr (v', effs)" "env_codec E = C" "m = PrePrepareMsg pp" "pp_Seq pp = v_ProposalSequence v"
    and "v_Phase v = COMMITTED"
  shows "viewProgress C v v' effs"
  using assms(1)
proof (cases rule: acceptPrePrepare_result)
  case (bad b)
  then show ?thesis by (intro quiet_progress) (simp_all add: view_stop_def split: option.splits)
next
  case (good pp' p b requests prepare)
  have "recorded C pp"
    using verifyProposal_metadata [OF good(3)] good(1,2) assms(2-4) by (auto simp: recorded_def)
  then show ?thesis
    using good(1,5,6) assms(3,5) by (intro viewProgress.proposed [of _ pp prepare]) (auto simp: committedIn_def)
qed

lemma continuePrepares_progress:
  assumes "continuePrepares E v ids = Inr (v', effs)" "env_codec E = C" "v_Phase v = PROPOSED"
  shows "viewProgress C v v' effs"
  using assms(1)
proof (cases rule: continuePrepares_result)
  case wait
  then show ?thesis by (intro quiet_progress) simp_all
next
  case (enough p sig commit)
  then show ?thesis
    using assms(2,3) by (intro viewProgress.prepared [of _ commit _ p]) simp_all
qed

lemma continueCommits_progress:
  assumes "continueCommits v sigs ver vv = Inr (v', effs)" "v_Phase v = PREPARED"
  shows "viewProgress C v v' effs"
  using assms(1)
proof (cases rule: continueCommits_result)
  case wait
  then show ?thesis by (intro quiet_progress) simp_all
next
  case (enough p sig)
  then show ?thesis using assms(2) by (intro viewProgress.decided) simp_all
qed

lemma stepVote_progress:
  assumes "stepVote E v = Inr (v', effs)" "env_codec E = C" "pcPhase v"
  shows "viewProgress C v v' effs"
  using assms(1)
proof (cases rule: stepVote_result)
  case (prepare ids vt vs)
  have ph: "v_Phase v = PROPOSED" using assms(3) prepare(1) by (simp add: pcPhase_def)
  obtain ids' where "continuePrepares E (v\<lparr>v_prepares := vs\<rparr>) ids' = Inr (v', effs)"
    using prepareVote_continues [OF prepare(3)] by blast
  from continuePrepares_progress [OF this assms(2)] show ?thesis by (rule progress_cong) (simp_all add: ph)
qed (auto intro: quiet_progress)

lemma doPhase_progress:
  assumes "doPhase E v = Inr (v', effs)" "env_codec E = C"
  shows "viewProgress C v v' effs"
  using assms(1)
proof (cases rule: doPhase_result)
  case (prepares es)
  then show ?thesis using continuePrepares_progress [OF _ assms(2)] progress_broadcastLast by blast
next
  case (commits es)
  then show ?thesis using continueCommits_progress progress_broadcastLast by blast
qed (auto simp: beginProposal_def intro!: quiet_progress)

lemma viewStep_progress:
  assumes "viewStep E v ch = Inr (v', effs)" "env_codec E = C" "pcPhase v" "chan_inv v"
  shows "viewProgress C v v' effs"
  using assms(1)
proof (cases rule: viewStep_result)
  case (msg s m q)
  note f = processMsg_frame [OF msg(2)]
  have mf: "messageFrame (v\<lparr>v_incMsgs := q\<rparr>) v'" using f by blast
  show ?thesis using f messageFrame_simps [OF mf] by (intro quiet_progress) auto
next
  case phase
  then show ?thesis using doPhase_progress [OF _ assms(2)] by blast
next
  case (preprepare m)
  obtain pp where pp: "m = PrePrepareMsg pp" "pp_Seq pp = v_ProposalSequence v"
    using assms(4) preprepare(2) by (auto simp: chan_inv_def)
  have "v_Phase v = COMMITTED" using assms(3) preprepare(1) by (simp add: pcPhase_def)
  then have "viewProgress C (v\<lparr>v_prePrepare := None\<rparr>) v' effs"
    using acceptPrePrepare_progress [OF preprepare(3) assms(2) pp(1)] pp(2) by simp
  then show ?thesis by (rule progress_cong) simp_all
next
  case vote
  then show ?thesis by (rule stepVote_progress [OF _ assms(2,3)])
next
  case (verify i sigs ver vv)
  then show ?thesis using commitVerified_result [OF verify(2)] by (intro quiet_progress) auto
next
  case (verified sigs ver sig vv)
  have "v_Phase v = PREPARED" using assms(3) verified(1) by (simp add: pcPhase_def)
  then show ?thesis by (rule continueCommits_progress [OF verified(2)])
qed (auto intro: quiet_progress)

subsection \<open>What is committed is decided or in flight\<close>

definition logShape :: "codec \<Rightarrow> SavedMessage list \<Rightarrow> bool" where
  "logShape C L \<longleftrightarrow> L = [] \<or> (\<exists>pp prp. recorded C pp \<and> L = [SavedProposedRecord pp prp]) \<or>
     (\<exists>pp prp c. recorded C pp \<and> L = [SavedProposedRecord pp prp, SavedCommit (CommitMsg c)] \<and> cmt_Seq c = pp_Seq pp \<and>
        map_option (Digest C) (pp_Proposal pp) = Some (cmt_Digest c))"

definition decidedIn :: "u64 \<Rightarrow> viewEffect list \<Rightarrow> u64 \<Rightarrow> bool" where
  "decidedIn s0 H s \<longleftrightarrow> s \<in> fst ` set (decisionsFrom s0 H)"

definition pending_inv :: "codec \<Rightarrow> u64 \<Rightarrow> viewEffect list \<Rightarrow> View \<Rightarrow> bool" where
  "pending_inv C s0 H v \<longleftrightarrow> logShape C (savedLog [] H) \<and>
     (\<forall>c\<in>committedIn H. decidedIn s0 H (cmt_Seq c) \<or>
        v_Phase v \<in> {PREPARED, ABORT} \<and> SavedCommit (CommitMsg c) \<in> set (savedLog [] H) \<and>
        (v_Phase v = PREPARED \<longrightarrow> cmt_Seq c = v_ProposalSequence v))"

lemma decidedIn_append: "decidedIn s0 (H @ effs) s \<longleftrightarrow> decidedIn s0 H s \<or> decidedIn (lastStored s0 H) effs s"
  by (auto simp: decidedIn_def decisionsFrom_append)

lemma pending_step:
  assumes "viewProgress C v v' effs" "log_inv C (savedLog [] H) v" "pending_inv C s0 H v"
  shows "pending_inv C s0 (H @ effs) v'"
  using assms(1)
proof cases
  case quiet
  then show ?thesis
    using assms(3) unfolding pending_inv_def by (auto simp: savedLog_append decidedIn_append)
next
  case (proposed pp prp)
  then show ?thesis
    using assms(3) unfolding pending_inv_def by (auto simp: savedLog_append decidedIn_append logShape_def)
next
  case (prepared c p)
  obtain pp prp where L: "savedLog [] H = [SavedProposedRecord pp prp]" "proposedWith C v pp"
    using assms(2) prepared(7) by (auto simp: log_inv_def)
  have "recorded C pp" using assms(3) L(1) by (auto simp: pending_inv_def logShape_def)
  then have "logShape C (savedLog [] (H @ effs))"
    using L prepared(1,4-6) by (auto simp: savedLog_append logShape_def proposedWith_def)
  then show ?thesis
    using assms(3) prepared L(1) unfolding pending_inv_def by (auto simp: savedLog_append decidedIn_append)
next
  case decided
  obtain p sigs where "decisionsFrom (lastStored s0 H) effs = [(v_ProposalSequence v, p, sigs)]" using decided(3) by blast
  then have "decidedIn (lastStored s0 H) effs (v_ProposalSequence v)" by (simp add: decidedIn_def)
  then show ?thesis
    using assms(3) decided unfolding pending_inv_def by (auto simp: savedLog_append decidedIn_append)
qed

lemma pending_run:
  "viewRun v steps = Inr (v', effs) \<Longrightarrow> log_inv C (savedLog [] H) v \<Longrightarrow> pending_inv C s0 H v \<Longrightarrow>
   \<forall>(E, ch)\<in>set steps. env_codec E = C \<Longrightarrow> unat (v_ProposalSequence v) + length steps < 2 ^ 64 \<Longrightarrow>
   pending_inv C s0 (H @ effs) v'"
proof (induction v steps arbitrary: effs H rule: viewRun.induct)
  case (2 v E ch steps)
  obtain v1 effs1 effs2 where r: "viewStep E v ch = Inr (v1, effs1)"
    "viewRun v1 steps = Inr (v', effs2)" "effs = effs1 @ effs2"
    using 2(2) by (auto simp: andThen_eq_Inr_iff)
  have nm: "v_ProposalSequence v \<noteq> max_u64" using 2(6) by (intro unat_not_max) simp
  have cod: "env_codec E = C" using 2(5) by simp
  have log: "log_inv C (savedLog [] (H @ effs1)) v1"
    using viewStep_log [OF r(1) 2(3) cod nm] by (simp add: savedLog_append)
  have "viewProgress C v v1 effs1" using viewStep_progress [OF r(1) cod] 2(3) by (simp add: log_inv_def)
  then have "pending_inv C s0 (H @ effs1) v1" using 2(3,4) by (rule pending_step)
  moreover have "unat (v_ProposalSequence v1) + length steps < 2 ^ 64"
    using viewStep_same [OF r(1)] 2(6) unat_plus_one [OF nm] by (auto simp: sameView_def)
  ultimately show ?case using 2(1) [OF r(2) log] 2(5) r(3) by simp
qed simp

lemma committed_in_log:
  assumes "freshRun C v steps v' effs" "c \<in> committedIn effs" "\<not> decidedIn s0 effs (cmt_Seq c)"
  obtains pp prp where "savedLog [] effs = [SavedProposedRecord pp prp, SavedCommit (CommitMsg c)]" "recorded C pp"
    "pp_Seq pp = cmt_Seq c" "map_option (Digest C) (pp_Proposal pp) = Some (cmt_Digest c)"
proof -
  have start: "log_inv C (savedLog [] []) (View_Start True v)" "pending_inv C s0 [] (View_Start True v)"
    using assms(1) by (simp_all add: freshRun_def freshView_def log_inv_def chan_inv_def View_Start_def setupVotes_def
        pcPhase_def pending_inv_def logShape_def)
  have "pending_inv C s0 ([] @ effs) v'"
    using assms(1) by (intro pending_run [OF _ start]) (auto simp: freshRun_def)
  then show ?thesis using assms(2,3) that by (auto simp: pending_inv_def logShape_def)
qed

subsection \<open>The in-flight data of a node\<close>

text \<open>The in-flight data matches the records since the last accepted proposal.\<close>

fun matchesLog :: "SavedMessage list \<Rightarrow> InFlightData \<Rightarrow> bool" where
  "matchesLog [SavedProposedRecord pp prp] ifp = (ifp = Some \<lparr>ifp_proposal = pp_Proposal pp, ifp_prepared = False\<rparr>)"
| "matchesLog [SavedProposedRecord pp prp, SavedCommit m] ifp = (ifp = Some \<lparr>ifp_proposal = pp_Proposal pp, ifp_prepared = True\<rparr>)"
| "matchesLog _ ifp = True"

lemma Save_matches:
  assumes "PersistedState_Save C app ps m = Inr (ps', True)" "matchesLog L (ps_InFlightProposal ps)"
  shows "matchesLog (if isProposedRecord m then [m] else L @ [m]) (ps_InFlightProposal ps')"
proof -
  obtain ps1 where r: "recordInFlight ps m = Inr ps1" "ps_InFlightProposal ps' = ps_InFlightProposal ps1"
    using assms(1) unfolding PersistedState_Save_def by (elim andThenE) (auto split: sum.split_asm)
  show ?thesis
  proof (cases m)
    case (SavedProposedRecord pp prp)
    then show ?thesis
      using r by (auto simp: recordInFlight_def storeProposal_def StoreProposal_def split: option.split_asm)
  next
    case (SavedCommit cm)
    obtain p where "ps_InFlightProposal ps1 = Some \<lparr>ifp_proposal = Some p, ifp_prepared = True\<rparr>"
      "InFlightProposal (ps_InFlightProposal ps) = Some p"
      using r(1) SavedCommit
      by (auto simp: recordInFlight_def storePrepared_def StorePrepares_def andThen_eq_Inr_iff split: option.split_asm)
    then show ?thesis
      using assms(2) r(2) SavedCommit by (cases "(L, ps_InFlightProposal ps)" rule: matchesLog.cases) (auto simp: InFlightProposal_def)
  qed (cases "(L, ps_InFlightProposal ps)" rule: matchesLog.cases; auto)+
qed

lemma saveAll_matches:
  "saveAll C app ps effs = Inr (ps', True) \<Longrightarrow> matchesLog L (ps_InFlightProposal ps) \<Longrightarrow>
   matchesLog (savedLog L effs) (ps_InFlightProposal ps')"
proof (induction L effs arbitrary: ps rule: savedLog.induct)
  case (2 L m es)
  obtain ps1 ok where "PersistedState_Save C app ps m = Inr (ps1, ok)"
    "(if ok then saveAll C app ps1 es else Inr (ps1, False)) = Inr (ps', True)"
    using 2(2) by (auto simp: andThen_eq_Inr_iff)
  then have s: "PersistedState_Save C app ps m = Inr (ps1, True)" "saveAll C app ps1 es = Inr (ps', True)"
    by (auto split: if_split_asm)
  show ?case using 2(1) [OF s(2) Save_matches [OF s(1) 2(3)]] by simp
qed auto

lemma committed_in_flight:
  assumes "freshRun C v steps v' effs" "c \<in> committedIn effs" "\<not> decidedIn s0 effs (cmt_Seq c)"
    and "saveAll C app ps effs = Inr (ps', True)"
  obtains q md where "ps_InFlightProposal ps' = Some \<lparr>ifp_proposal = Some q, ifp_prepared = True\<rparr>"
    "Digest C q = cmt_Digest c" "unmarshalMetadata C (bytes_of (Metadata q)) = Some md" "LatestSequence md = cmt_Seq c"
proof -
  obtain pp prp where L: "savedLog [] effs = [SavedProposedRecord pp prp, SavedCommit (CommitMsg c)]" "recorded C pp"
    "pp_Seq pp = cmt_Seq c" "map_option (Digest C) (pp_Proposal pp) = Some (cmt_Digest c)"
    using assms(1-3) by (rule committed_in_log)
  have "matchesLog (savedLog [] effs) (ps_InFlightProposal ps')" using saveAll_matches [OF assms(4), of "[]"] by simp
  then show ?thesis using L that by (auto simp: recorded_def)
qed

subsection \<open>The view data of a node\<close>

text \<open>The view data that \<open>prepareViewDataMsg\<close> signs.\<close>

definition nodeViewData :: "'a vcEnv \<Rightarrow> 'a vcState \<Rightarrow> ViewData outcome" where
  "nodeViewData E st = andThen (getInFlight E st) (\<lambda>inFlight.
     Inr \<lparr>vd_NextView = vc_currView (st_vc st), vd_LastDecision = Some (lastDecision st),
          vd_LastDecisionSignatures = snd (Checkpoint_Get (w_Checkpoint (st_world st))), vd_InFlightProposal = inFlight,
          vd_InFlightPrepared = IsInFlightPrepared (st_InFlight st)\<rparr>)"

lemma prepareViewDataMsg_data:
  assumes "prepareViewDataMsg E st = Inr svd"
  obtains vd where "nodeViewData E st = Inr vd" "svd_RawViewData svd = marshalViewData (ve_codec E) vd"
  using assms by (auto simp: prepareViewDataMsg_def nodeViewData_def andThen_eq_Inr_iff case_prod_unfold Let_def)

lemma maxLastDecisionLoop_bound:
  "maxLastDecisionLoop C vds m = Inr m' \<Longrightarrow> m \<le> m' \<and> (\<forall>vd\<in>set vds. \<forall>p raw md. vd_LastDecision vd = Some p \<longrightarrow>
     Metadata p = Some raw \<longrightarrow> unmarshalMetadata C raw = Some md \<longrightarrow> LatestSequence md \<le> m')"
proof (induction C vds m rule: maxLastDecisionLoop.induct)
  case (2 C vd vds m)
  then show ?case by (auto split: option.split_asm if_split_asm) (force+)?
qed simp

text \<open>
  What a correct node sends: it saved everything its view saved, its in-flight data and its checkpoint are those of
  the view changer, and the checkpoint covers what the view decided.
\<close>

definition reports ::
  "('w \<Rightarrow> bytes \<Rightarrow> bool \<Rightarrow> 'e + 'w) \<Rightarrow> 'a vcEnv \<Rightarrow> viewEffect list \<Rightarrow> u64 \<Rightarrow> 'w PersistedState \<Rightarrow> 'a vcState \<Rightarrow> ViewData \<Rightarrow> bool" where
  "reports app E effs s0 ps st vd \<longleftrightarrow>
     (\<exists>ps'. saveAll (ve_codec E) app ps effs = Inr (ps', True) \<and> st_InFlight st = ps_InFlightProposal ps') \<and>
     (\<exists>svd. prepareViewDataMsg E st = Inr svd \<and> unmarshalViewData (ve_codec E) (svd_RawViewData svd) = Some vd) \<and>
     (\<forall>s. decidedIn s0 effs s \<longrightarrow> (\<exists>raw md. Metadata (lastDecision st) = Some raw \<and>
        unmarshalMetadata (ve_codec E) raw = Some md \<and> s \<le> LatestSequence md))"

lemma reports_data:
  assumes "reports app E effs s0 ps st vd"
    and "\<And>vd'. nodeViewData E st = Inr vd' \<Longrightarrow> unmarshalViewData (ve_codec E) (marshalViewData (ve_codec E) vd') = Some vd'"
  shows "nodeViewData E st = Inr vd"
  using assms by (auto simp: reports_def elim!: prepareViewDataMsg_data)

lemma nodeViewData_last: "nodeViewData E st = Inr vd \<Longrightarrow> vd_LastDecision vd = Some (lastDecision st)"
  by (auto simp: nodeViewData_def andThen_eq_Inr_iff)

lemma report_is_prepared:
  assumes "freshRun C v steps v' effs" "backsDigest effs (m + 1) d" "reports app E effs s0 ps st vd" "ve_codec E = C"
    and nv: "nodeViewData E st = Inr vd"
    and bound: "\<And>raw md. Metadata (lastDecision st) = Some raw \<Longrightarrow> unmarshalMetadata C raw = Some md \<Longrightarrow> LatestSequence md \<le> m"
    and m: "unat m + 2 < 2 ^ 64"
  shows "\<exists>q. preparedAt C (m + 1) vd = Some q \<and> Digest C q = d"
proof -
  have m1: "m \<noteq> max_u64" using m by (intro unat_not_max) simp
  then have u: "unat (m + 1) = unat m + 1" by (rule unat_plus_one)
  have "m + 1 \<noteq> max_u64" by (rule unat_not_max) (use m u in linarith)
  then have "unat (m + 1 + 1) = unat m + 2" using unat_plus_one [of "m + 1"] u by linarith
  with u have late: "\<not> m + 1 \<le> m" "\<not> m + 1 + 1 \<le> m" unfolding word_le_nat_alt by linarith+
  obtain c where c: "c \<in> committedIn effs" "cmt_Seq c = m + 1" "cmt_Digest c = d"
    using assms(2) by (auto simp: backsDigest_def)
  obtain ps' where s: "saveAll C app ps effs = Inr (ps', True)" "st_InFlight st = ps_InFlightProposal ps'"
    using assms(3,4) by (auto simp: reports_def)
  have "\<not> decidedIn s0 effs (cmt_Seq c)"
    using assms(3,4) bound late(1) unfolding c(2) reports_def by (meson order_trans)
  then obtain q md where q: "st_InFlight st = Some \<lparr>ifp_proposal = Some q, ifp_prepared = True\<rparr>" "Digest C q = d"
    "unmarshalMetadata C (bytes_of (Metadata q)) = Some md" "LatestSequence md = m + 1"
    using committed_in_flight [OF assms(1) c(1) _ s(1)] s(2) c(2,3) by metis
  obtain inFlight where g: "getInFlight E st = Inr inFlight" "vd_InFlightProposal vd = inFlight" "vd_InFlightPrepared vd"
    using nv q(1) by (auto simp: nodeViewData_def andThen_eq_Inr_iff IsInFlightPrepared_def)
  have "inFlight = Some q"
  proof -
    have "LatestSequence md2 \<noteq> m + 1 \<and> m + 1 + 1 \<noteq> LatestSequence md2"
      if "Metadata (lastDecision st) = Some raw" "unmarshalMetadata C raw = Some md2" for raw md2
      using bound [OF that] late by auto
    then show ?thesis
      using g(1) q(1,3,4) assms(4)
      by (auto simp: getInFlight_def InFlightProposal_def bytes_of_def split: if_split_asm option.split_asm)
  qed
  then show ?thesis using g(2,3) q(2-4) by (simp add: preparedAt_def inFlightAt_def)
qed

subsection \<open>An example\<close>

text \<open>Node 1 decides; nodes 2 and 3 have committed and stop; they and node 4, which is faulty, report to the next leader.\<close>

definition crossCodec :: codec where
  "crossCodec = exampleCodec\<lparr>marshalViewData := (\<lambda>vd. [if vd_InFlightPrepared vd then 1 else 0]),
     unmarshalViewData := (\<lambda>b. Some (exampleViewData (b = [1])))\<rparr>"

definition crossSteps :: "u64 \<Rightarrow> (unit viewEnv \<times> viewChoice) list" where
  "crossSteps n = map (\<lambda>ch. ((exampleEnv n)\<lparr>env_codec := crossCodec\<rparr>, ch))
     (if n = 1 then exampleChoices 2 3 else take 15 (if n = 2 then exampleChoices 1 3 else exampleChoices 1 2))"

abbreviation crossEffects :: "u64 \<Rightarrow> viewEffect list" where
  "crossEffects n \<equiv> runEffects (View_Start True (exampleView n)) (crossSteps n)"

abbreviation crossFinal :: "u64 \<Rightarrow> View" where
  "crossFinal n \<equiv> runView (View_Start True (exampleView n)) (crossSteps n)"

definition crossEnv :: "u64 vcEnv" where
  "crossEnv = counterEnv\<lparr>ve_codec := crossCodec\<rparr>"

definition crossState :: "u64 vcState" where
  "crossState = startState\<lparr>st_vc := exampleChanger\<lparr>vc_currView := 1\<rparr>,
     st_InFlight := Some \<lparr>ifp_proposal = Some exampleProposal, ifp_prepared = True\<rparr>\<rparr>"

definition crossReports :: "(u64 \<times> ViewData) list" where
  "crossReports = [(2, exampleViewData True), (3, exampleViewData True), (4, exampleViewData False)]"

lemma crossRun:
  assumes "n \<in> {1, 2, 3}"
  shows "freshRun crossCodec (exampleView n) (crossSteps n) (crossFinal n) (crossEffects n)"
proof -
  have "\<forall>n\<in>{1, 2, 3}. case viewRun (View_Start True (exampleView n)) (crossSteps n) of Inr _ \<Rightarrow> True | Inl _ \<Rightarrow> False"
    by code_simp
  then have "viewRun (View_Start True (exampleView n)) (crossSteps n) = Inr (crossFinal n, crossEffects n)"
    using assms by (intro viewRun_runView) blast
  moreover have "length (crossSteps n) \<le> 22" by (simp add: crossSteps_def exampleChoices_def)
  moreover have "\<forall>(E, ch)\<in>set (crossSteps n). env_codec E = crossCodec" by (auto simp: crossSteps_def)
  ultimately show ?thesis by (simp add: freshRun_def freshView_def exampleView_def)
qed

lemma crossRuns: "correctRuns crossCodec [1, 2, 3, 4] {4} exampleView crossSteps crossFinal crossEffects"
  unfolding correctRuns_def
proof
  fix x :: u64 assume "x \<in> set [1, 2, 3, 4] - {4}"
  then have "x \<in> {1, 2, 3}" by auto
  moreover have "fst ` deliveries (crossSteps x) \<subseteq> set [1, 2, 3, 4]"
    by (auto simp: deliveries_def crossSteps_def exampleChoices_def split: if_splits)
  ultimately show "freshRun crossCodec (exampleView x) (crossSteps x) (crossFinal x) (crossEffects x) \<and>
      v_SelfID (exampleView x) = x \<and> v_Quorum (exampleView x) = int (quorumSize [1, 2, 3, 4]) \<and>
      fst ` deliveries (crossSteps x) \<subseteq> set [1, 2, 3, 4]"
    using crossRun exampleNodes(2) by (simp add: exampleView_def)
qed

lemma crossAuthentic: "authenticCommits (set [1, 2, 3, 4] - {4}) crossEffects crossSteps"
  unfolding authenticCommits_def
proof (intro ballI allI impI)
  fix x y c assume x: "x \<in> set [1, 2, 3, 4 :: u64] - {4}" "(x, CommitMsg c) \<in> deliveries (crossSteps y)"
  then have "CommitMsg c = exampleCommit x"
    by (auto simp: deliveries_def crossSteps_def exampleChoices_def examplePP_def examplePrepare_def split: if_splits)
  moreover have "\<forall>x\<in>{1, 2, 3}. Broadcast (exampleCommit x) \<in> set (crossEffects x)" by code_simp
  moreover have "x \<in> {1, 2, 3}" using x(1) by auto
  ultimately show "\<exists>n. Broadcast (CommitMsg c) \<in> set (crossEffects x) \<or> SendConsensus n (CommitMsg c) \<in> set (crossEffects x)"
    by metis
qed

abbreviation noLog :: "unit \<Rightarrow> bytes \<Rightarrow> bool \<Rightarrow> unit + unit" where
  "noLog w b t \<equiv> Inr w"

lemma crossReport:
  assumes "x \<in> {2, 3}"
  shows "reports noLog crossEnv (crossEffects x) 0 \<lparr>ps_InFlightProposal = None, ps_Entries = [], ps_WAL = ()\<rparr> crossState
    (exampleViewData True)"
proof -
  have "\<forall>x\<in>{2, 3}. case saveAll crossCodec noLog \<lparr>ps_InFlightProposal = None, ps_Entries = [], ps_WAL = ()\<rparr> (crossEffects x) of
      Inl _ \<Rightarrow> False | Inr (ps', ok) \<Rightarrow> ok \<and> st_InFlight crossState = ps_InFlightProposal ps'" by code_simp
  then have "case saveAll crossCodec noLog \<lparr>ps_InFlightProposal = None, ps_Entries = [], ps_WAL = ()\<rparr> (crossEffects x) of
      Inl _ \<Rightarrow> False | Inr (ps', ok) \<Rightarrow> ok \<and> st_InFlight crossState = ps_InFlightProposal ps'" using assms by blast
  moreover have "\<forall>x\<in>{2, 3}. decisionsFrom 0 (crossEffects x) = []" by code_simp
  moreover have "case prepareViewDataMsg crossEnv crossState of Inl _ \<Rightarrow> False
      | Inr svd \<Rightarrow> unmarshalViewData crossCodec (svd_RawViewData svd) = Some (exampleViewData True)" by code_simp
  moreover have "ve_codec crossEnv = crossCodec" by (simp add: crossEnv_def)
  ultimately show ?thesis
    using assms unfolding reports_def decidedIn_def by (auto split: sum.split_asm prod.split_asm)
qed

subsection \<open>Property\<close>

text \<open>
  C2: agreement across a view change. If a correct node decided a proposal in the old view at the sequence after the latest
  decision that the view data reports, then \<open>CheckInFlight\<close> over the view data of distinct members, at most \<open>f\<close> of them faulty, picks
  that proposal for the new view: it neither answers that nothing is in flight nor picks another one. The view data of
  correct members is what their view changers build from what their views saved. No reported proposal may
  collide with the decided one under the digest.
\<close>

theorem decision_survives_view_change:
  assumes "validNodes nodes" "F \<subseteq> set nodes" "card F \<le> maxFaulty nodes"
    and "correctRuns C nodes F V steps V' eff" "authenticCommits (set nodes - F) eff steps"
    and "a \<in> set nodes - F" "(m + 1, p, sigs) \<in> set (decisionsFrom s0 (eff a))"
    and "fromMembers nodes msgs" "\<forall>vd\<in>snd ` set msgs. decodes C vd" "maxLastDecisionSequence C (map snd msgs) = Inr m"
    and "unat m + 2 < 2 ^ 64"
    and "\<And>x vd. (x, vd) \<in> set msgs \<Longrightarrow> x \<notin> F \<Longrightarrow> ve_codec (E x) = C \<and> reports app (E x) (eff x) s1 (ps x) (st x) vd"
    and "\<And>x vd. x \<in> fst ` set msgs - F \<Longrightarrow> nodeViewData (E x) (st x) = Inr vd \<Longrightarrow>
      unmarshalViewData C (marshalViewData C vd) = Some vd"
    and "\<And>x vd q. (x, vd) \<in> set msgs \<Longrightarrow> vd_InFlightProposal vd = Some q \<Longrightarrow> Digest C q = Digest C p \<Longrightarrow> proposalEqual q p"
    and "CheckInFlight C (map snd msgs) (int (maxFaulty nodes)) (int (quorumSize nodes)) = Inr (Inr (True, none, r))"
  shows "\<not> none \<and> (\<exists>q. r = Some q \<and> proposalEqual q p)"
proof -
  obtain A where A: "isQuorum nodes A" "\<And>x. x \<in> A - F \<Longrightarrow> backsDigest (eff x) (m + 1) (Digest C p)"
    using decision_backed [OF assms(1,4-7)] by blast
  have "\<exists>q. preparedAt C (m + 1) vd = Some q \<and> proposalEqual q p" if x: "(x, vd) \<in> set msgs" "x \<in> A - F" for x vd
  proof -
    have node: "x \<in> fst ` set msgs - F" "x \<in> set nodes - F" using x assms(8) by (force simp: fromMembers_def)+
    have run: "freshRun C (V x) (steps x) (V' x) (eff x)" using assms(4) node(2) by (simp add: correctRuns_def)
    have rep: "ve_codec (E x) = C" "reports app (E x) (eff x) s1 (ps x) (st x) vd" using assms(12) x by auto
    have nv: "nodeViewData (E x) (st x) = Inr vd"
      by (rule reports_data [OF rep(2)]) (simp add: rep(1) assms(13) [OF node(1)])
    have bound: "LatestSequence md \<le> m" if "Metadata (lastDecision (st x)) = Some raw" "unmarshalMetadata C raw = Some md" for raw md
      using maxLastDecisionLoop_bound [of C "map snd msgs" 0 m] assms(10) nodeViewData_last [OF nv] x(1) that
      unfolding maxLastDecisionSequence_def by force
    obtain q where q: "preparedAt C (m + 1) vd = Some q" "Digest C q = Digest C p"
      using report_is_prepared [OF run A(2) [OF x(2)] rep(2,1) nv _ assms(11)] bound by blast
    then have "vd_InFlightProposal vd = Some q"
      by (auto simp: preparedAt_def inFlightAt_def split: if_split_asm option.split_asm)
    then show ?thesis using q assms(14) [OF x(1)] by blast
  qed
  note prep = this
  have "checkInFlightSpec C (m + 1) (map snd msgs) (int (maxFaulty nodes)) (int (quorumSize nodes)) = (True, none, r)"
    using CheckInFlight_reference [OF _ assms(10)] assms(9,15) by simp
  then show ?thesis by (rule spec_keeps_prepared [OF assms(1-3) A(1) assms(8), rotated]) (rule prep)
qed

theorem decision_survives_view_change_witness:
  "\<exists>sigs none r q. (1, exampleProposal, sigs) \<in> set (decisionsFrom 0 (crossEffects 1)) \<and>
     CheckInFlight crossCodec (map snd crossReports) 1 3 = Inr (Inr (True, none, r)) \<and> \<not> none \<and> r = Some q \<and>
     proposalEqual q exampleProposal"
proof -
  have "map (\<lambda>(s, p, sigs). (s, p)) (decisionsFrom 0 (crossEffects 1)) = [(0 + 1, exampleProposal)]" by code_simp
  then have "(0 + 1, exampleProposal) \<in> set (map (\<lambda>(s, p, sigs). (s, p)) (decisionsFrom 0 (crossEffects 1)))"
    by (simp only: list.set insertI1)
  then obtain sigs where d: "(0 + 1, exampleProposal, sigs) \<in> set (decisionsFrom 0 (crossEffects 1))" by auto
  have c: "CheckInFlight crossCodec (map snd crossReports) 1 3 = Inr (Inr (True, False, Some exampleProposal))"
    and m: "maxLastDecisionSequence crossCodec (map snd crossReports) = Inr 0"
    and dec: "\<forall>vd\<in>snd ` set crossReports. decodes crossCodec vd" by code_simp+
  have nv: "nodeViewData crossEnv crossState = Inr (exampleViewData True)" by code_simp
  have rt: "unmarshalViewData crossCodec (marshalViewData crossCodec (exampleViewData True)) = Some (exampleViewData True)" by code_simp
  have mem: "fromMembers [1, 2, 3, 4] crossReports" by (simp add: fromMembers_def crossReports_def)
  have "\<not> False \<and> (\<exists>q. Some exampleProposal = Some q \<and> proposalEqual q exampleProposal)"
  proof (rule decision_survives_view_change [OF exampleNodes(1) _ _ crossRuns crossAuthentic _ d mem dec m])
    show "ve_codec crossEnv = crossCodec \<and> reports noLog crossEnv (crossEffects x) 0
        \<lparr>ps_InFlightProposal = None, ps_Entries = [], ps_WAL = ()\<rparr> crossState vd" if "(x, vd) \<in> set crossReports" "x \<notin> {4}" for x vd
      using that crossReport by (auto simp: crossReports_def crossEnv_def)
    show "proposalEqual q exampleProposal" if "(x, vd) \<in> set crossReports" "vd_InFlightProposal vd = Some q" for x vd q
      using that by (auto simp: crossReports_def exampleViewData_def proposalEqual_def)
    show "CheckInFlight crossCodec (map snd crossReports) (int (maxFaulty [1, 2, 3, 4])) (int (quorumSize [1, 2, 3, 4])) =
        Inr (Inr (True, False, Some exampleProposal))" using c by (simp add: exampleNodes)
  qed (use nv rt exampleNodes in auto)
  then show ?thesis using d c by auto
qed

end
