(* ===== verification/RequestPool.thy ===== *)
theory RequestPool
  imports Protos "HOL-Library.Sublist"
begin

text \<open>
  The request pool of internal/bft/requestpool.go.

  The FIFO list holds elements with an identity (the pointer \<open>*list.Element\<close>); the map
  \<open>existMap\<close> leads from the info of a request to its element. A request carries one timer,
  which is stopped or waits to call one of the three timeout functions. The weighted
  semaphore is the number of units held. \<open>inspector\<close> is the application's
  \<open>RequestInspector\<close>, a parameter of the operations that call it.

  Every definition below is one critical section of the code. \<open>Submit\<close> is two of them
  (\<open>submitCheck\<close> and \<open>submitLocked\<close>) with the acquisition of the semaphore in between,
  during which other goroutines run; the invariant counts the goroutines that hold a unit and
  have not inserted their request yet.
\<close>

datatype timer = TimerStopped | ForwardTimer | ComplainTimer | AutoRemoveTimer

record requestItem =
  ri_request :: bytes
  ri_timeout :: timer

record PoolOptions =
  po_QueueSize :: int
  po_ForwardTimeout :: int
  po_ComplainTimeout :: int
  po_AutoRemoveTimeout :: int
  po_RequestMaxBytes :: u64
  po_SubmitTimeout :: int

record Pool =
  rp_options :: PoolOptions
  rp_fifo :: "(nat \<times> requestItem) list"
  rp_nextElement :: nat
  rp_semaphore :: int
  rp_existMap :: "(RequestInfo \<times> nat) list"
  rp_closed :: bool
  rp_stopped :: bool
  rp_submittedChan :: bool
  rp_sizeBytes :: u64
  rp_delMap :: "RequestInfo list"
  rp_delSlice :: "RequestInfo list"
  rp_capacity :: int

datatype submitError =
    ErrPoolClosed | ErrRequestMaxBytes | ErrReqAlreadyExists | ErrReqAlreadyProcessed
  | ErrSemaphore

datatype handlerCall =
    OnRequestTimeout bytes RequestInfo
  | OnLeaderFwdRequestTimeout bytes RequestInfo
  | OnAutoRemoveTimeout RequestInfo

abbreviation defaultRequestTimeout :: int where
  "defaultRequestTimeout \<equiv> 10000000000"

abbreviation defaultMaxBytes :: u64 where
  "defaultMaxBytes \<equiv> 100 * 1024"

abbreviation defaultSizeOfDelElements :: nat where
  "defaultSizeOfDelElements \<equiv> 1000"

definition defaultOptions :: "PoolOptions \<Rightarrow> PoolOptions" where
  "defaultOptions o0 =
     o0\<lparr>po_ForwardTimeout := (if po_ForwardTimeout o0 = 0 then defaultRequestTimeout else po_ForwardTimeout o0),
        po_ComplainTimeout := (if po_ComplainTimeout o0 = 0 then defaultRequestTimeout else po_ComplainTimeout o0),
        po_AutoRemoveTimeout := (if po_AutoRemoveTimeout o0 = 0 then defaultRequestTimeout else po_AutoRemoveTimeout o0),
        po_RequestMaxBytes := (if po_RequestMaxBytes o0 = 0 then defaultMaxBytes else po_RequestMaxBytes o0),
        po_SubmitTimeout := (if po_SubmitTimeout o0 = 0 then defaultRequestTimeout else po_SubmitTimeout o0)\<rparr>"

definition NewPool :: "PoolOptions \<Rightarrow> Pool" where
  "NewPool options =
     \<lparr>rp_options = defaultOptions options, rp_fifo = [], rp_nextElement = 0, rp_semaphore = 0,
      rp_existMap = [], rp_closed = False, rp_stopped = False, rp_submittedChan = False,
      rp_sizeBytes = 0, rp_delMap = [], rp_delSlice = [], rp_capacity = po_QueueSize options\<rparr>"

text \<open>The queue size of the new options is not taken over.\<close>

definition ChangeOptions :: "Pool \<Rightarrow> PoolOptions \<Rightarrow> Pool" where
  "ChangeOptions rp options =
     (if \<not> rp_stopped rp then rp
      else rp\<lparr>rp_options := (defaultOptions options)\<lparr>po_QueueSize := po_QueueSize (rp_options rp)\<rparr>\<rparr>)"

definition submitCheck :: "(bytes \<Rightarrow> RequestInfo) \<Rightarrow> Pool \<Rightarrow> bytes \<Rightarrow> submitError option" where
  "submitCheck inspector rp request =
     (let reqInfo = inspector request in
      if rp_closed rp then Some ErrPoolClosed
      else if of_nat (length request) > po_RequestMaxBytes (rp_options rp) then Some ErrRequestMaxBytes
      else if reqInfo \<in> fst ` set (rp_existMap rp) then Some ErrReqAlreadyExists
      else if reqInfo \<in> set (rp_delMap rp) then Some ErrReqAlreadyProcessed
      else None)"

text \<open>\<open>None\<close>: no unit is free now, the caller waits until one is released or its time is up.\<close>

definition semaphoreAcquire :: "Pool \<Rightarrow> Pool option" where
  "semaphoreAcquire rp =
     (if rp_semaphore rp < po_QueueSize (rp_options rp)
      then Some (rp\<lparr>rp_semaphore := rp_semaphore rp + 1\<rparr>) else None)"

text \<open>\<open>Release\<close> of golang.org/x/sync/semaphore panics when no unit is held.\<close>

definition semaphoreRelease :: "Pool \<Rightarrow> Pool outcome" where
  "semaphoreRelease rp =
     (let rp' = rp\<lparr>rp_semaphore := rp_semaphore rp - 1\<rparr> in
      if rp_semaphore rp' < 0 then Inl (Panic ''semaphore: released more than held'') else Inr rp')"

definition submitLocked ::
  "(bytes \<Rightarrow> RequestInfo) \<Rightarrow> Pool \<Rightarrow> bytes \<Rightarrow> (Pool \<times> submitError option) outcome" where
  "submitLocked inspector rp request =
     (let reqInfo = inspector request in
      if reqInfo \<in> fst ` set (rp_existMap rp)
      then andThen (semaphoreRelease rp) (\<lambda>rp'. Inr (rp', Some ErrReqAlreadyExists))
      else if reqInfo \<in> set (rp_delMap rp)
      then andThen (semaphoreRelease rp) (\<lambda>rp'. Inr (rp', Some ErrReqAlreadyProcessed))
      else
        let to = (if rp_stopped rp then TimerStopped else ForwardTimer);
            element = rp_nextElement rp;
            rp1 = rp\<lparr>rp_nextElement := element + 1,
                     rp_fifo := rp_fifo rp @ [(element, \<lparr>ri_request = request, ri_timeout = to\<rparr>)],
                     rp_existMap := AList.update reqInfo element (rp_existMap rp)\<rparr>
        in if length (rp_existMap rp1) \<noteq> length (rp_fifo rp1)
           then Inl (Panic ''RequestPool map and list are of different length'')
           else Inr (rp1\<lparr>rp_submittedChan := True,
                         rp_sizeBytes := rp_sizeBytes rp1 + of_nat (length request)\<rparr>, None))"

text \<open>\<open>Submit\<close> with no other goroutine in between; a full pool makes it time out.\<close>

definition Submit ::
  "(bytes \<Rightarrow> RequestInfo) \<Rightarrow> Pool \<Rightarrow> bytes \<Rightarrow> (Pool \<times> submitError option) outcome" where
  "Submit inspector rp request =
     (case submitCheck inspector rp request of
        Some err \<Rightarrow> Inr (rp, Some err)
      | None \<Rightarrow>
          (case semaphoreAcquire rp of
             None \<Rightarrow> Inr (rp, Some ErrSemaphore)
           | Some rp' \<Rightarrow> submitLocked inspector rp' request))"

definition Size :: "Pool \<Rightarrow> nat" where
  "Size rp = length (rp_existMap rp)"

definition Capacity :: "Pool \<Rightarrow> int" where
  "Capacity rp = rp_capacity rp"

text \<open>The loop of \<open>NextRequests\<close>; the flag says that the next request would exceed the size.\<close>

fun takeBatch :: "nat \<Rightarrow> u64 \<Rightarrow> u64 \<Rightarrow> requestItem list \<Rightarrow> bytes list \<Rightarrow> bytes list \<times> u64 \<times> bool" where
  "takeBatch (Suc n) maxSizeBytes totalSize (item # items) batch =
     (let req = ri_request item; reqLen = of_nat (length req) in
      if totalSize + reqLen > maxSizeBytes then (batch, totalSize, True)
      else takeBatch n maxSizeBytes (totalSize + reqLen) items (batch @ [req]))"
| "takeBatch _ maxSizeBytes totalSize _ batch = (batch, totalSize, False)"

definition NextRequests :: "Pool \<Rightarrow> int \<Rightarrow> u64 \<Rightarrow> bool \<Rightarrow> (bytes list \<times> bool) outcome" where
  "NextRequests rp maxCount maxSizeBytes check =
     (if check \<and> int (length (rp_existMap rp)) < maxCount \<and> rp_sizeBytes rp < maxSizeBytes
      then Inr ([], False)
      else
        let count = min (int (length (rp_fifo rp))) maxCount in
        if count < 0 then Inl (Panic ''makeslice: cap out of range'')
        else
          case takeBatch (nat count) maxSizeBytes 0 (map snd (rp_fifo rp)) [] of
            (batch, totalSize, True) \<Rightarrow> Inr (batch, True)
          | (batch, totalSize, False) \<Rightarrow>
              Inr (batch, totalSize \<ge> maxSizeBytes \<or> int (length batch) = maxCount))"

definition moveToDelSlice :: "Pool \<Rightarrow> RequestInfo \<Rightarrow> Pool" where
  "moveToDelSlice rp requestInfo =
     (if requestInfo \<in> set (rp_delMap rp) then rp
      else rp\<lparr>rp_delMap := requestInfo # rp_delMap rp,
              rp_delSlice := rp_delSlice rp @ [requestInfo]\<rparr>)"

definition deleteRequest :: "Pool \<Rightarrow> nat \<Rightarrow> RequestInfo \<Rightarrow> Pool outcome" where
  "deleteRequest rp element requestInfo =
     (let rp1 = rp\<lparr>rp_fifo := filter (\<lambda>(e, _). e \<noteq> element) (rp_fifo rp),
                   rp_existMap := AList.delete requestInfo (rp_existMap rp)\<rparr>
      in andThen (semaphoreRelease (moveToDelSlice rp1 requestInfo)) (\<lambda>rp2.
           if length (rp_existMap rp2) \<noteq> length (rp_fifo rp2)
           then Inl (Panic ''RequestPool map and list are of different length'')
           else Inr rp2))"

text \<open>The boolean is \<open>err == nil\<close>.\<close>

definition RemoveRequest :: "Pool \<Rightarrow> RequestInfo \<Rightarrow> (Pool \<times> bool) outcome" where
  "RemoveRequest rp requestInfo =
     (case map_of (rp_existMap rp) requestInfo of
        None \<Rightarrow> Inr (moveToDelSlice rp requestInfo, False)
      | Some element \<Rightarrow>
          (let size = (case map_of (rp_fifo rp) element of
                         None \<Rightarrow> 0 | Some item \<Rightarrow> of_nat (length (ri_request item)))
           in andThen (deleteRequest rp element requestInfo)
                (\<lambda>rp'. Inr (rp'\<lparr>rp_sizeBytes := rp_sizeBytes rp' - size\<rparr>, True))))"

definition copyRequests :: "Pool \<Rightarrow> (bytes \<times> RequestInfo) list" where
  "copyRequests rp =
     map (\<lambda>(info, element).
            (case map_of (rp_fifo rp) element of None \<Rightarrow> [] | Some item \<Rightarrow> ri_request item, info))
       (rp_existMap rp)"

text \<open>The predicate returns true where the code's returns a nil error.\<close>

fun pruneLoop :: "(bytes \<Rightarrow> bool) \<Rightarrow> Pool \<Rightarrow> (bytes \<times> RequestInfo) list \<Rightarrow> Pool outcome" where
  "pruneLoop predicate rp [] = Inr rp"
| "pruneLoop predicate rp ((req, info) # rest) =
     (if predicate req then pruneLoop predicate rp rest
      else andThen (RemoveRequest rp info) (\<lambda>(rp', _). pruneLoop predicate rp' rest))"

definition Prune :: "(bytes \<Rightarrow> bool) \<Rightarrow> Pool \<Rightarrow> Pool outcome" where
  "Prune predicate rp = pruneLoop predicate rp (copyRequests rp)"

definition eraseFromDelSlice :: "Pool \<Rightarrow> Pool" where
  "eraseFromDelSlice rp =
     (if length (rp_delSlice rp) \<le> defaultSizeOfDelElements then rp
      else let n = length (rp_delSlice rp) - defaultSizeOfDelElements in
           rp\<lparr>rp_delMap := filter (\<lambda>r. r \<notin> set (take n (rp_delSlice rp))) (rp_delMap rp),
              rp_delSlice := drop n (rp_delSlice rp)\<rparr>)"

fun closeLoop :: "Pool \<Rightarrow> (RequestInfo \<times> nat) list \<Rightarrow> Pool outcome" where
  "closeLoop rp [] = Inr rp"
| "closeLoop rp ((info, element) # rest) =
     andThen (deleteRequest rp element info) (\<lambda>rp'. closeLoop rp' rest)"

definition Pool_Close :: "Pool \<Rightarrow> Pool outcome" where
  "Pool_Close rp = closeLoop (rp\<lparr>rp_closed := True\<rparr>) (rp_existMap rp)"

definition StopTimers :: "Pool \<Rightarrow> Pool" where
  "StopTimers rp =
     rp\<lparr>rp_stopped := True,
        rp_fifo := map (\<lambda>(e, item). (e, item\<lparr>ri_timeout := TimerStopped\<rparr>)) (rp_fifo rp)\<rparr>"

definition RestartTimers :: "Pool \<Rightarrow> Pool" where
  "RestartTimers rp =
     rp\<lparr>rp_stopped := False,
        rp_fifo := map (\<lambda>(e, item). (e, item\<lparr>ri_timeout := ForwardTimer\<rparr>)) (rp_fifo rp)\<rparr>"

definition setTimer :: "Pool \<Rightarrow> nat \<Rightarrow> timer \<Rightarrow> Pool" where
  "setTimer rp element t =
     rp\<lparr>rp_fifo := map (\<lambda>(e, item). (e, if e = element then item\<lparr>ri_timeout := t\<rparr> else item))
                     (rp_fifo rp)\<rparr>"

definition onRequestTO :: "Pool \<Rightarrow> bytes \<Rightarrow> RequestInfo \<Rightarrow> Pool \<times> handlerCall option" where
  "onRequestTO rp request reqInfo =
     (case map_of (rp_existMap rp) reqInfo of
        None \<Rightarrow> (rp, None)
      | Some element \<Rightarrow>
          if rp_closed rp \<or> rp_stopped rp then (rp, None)
          else (setTimer rp element ComplainTimer, Some (OnRequestTimeout request reqInfo)))"

definition onLeaderFwdRequestTO :: "Pool \<Rightarrow> bytes \<Rightarrow> RequestInfo \<Rightarrow> Pool \<times> handlerCall option" where
  "onLeaderFwdRequestTO rp request reqInfo =
     (case map_of (rp_existMap rp) reqInfo of
        None \<Rightarrow> (rp, None)
      | Some element \<Rightarrow>
          if rp_closed rp \<or> rp_stopped rp then (rp, None)
          else (setTimer rp element AutoRemoveTimer,
                Some (OnLeaderFwdRequestTimeout request reqInfo)))"

definition onAutoRemoveTO :: "Pool \<Rightarrow> RequestInfo \<Rightarrow> (Pool \<times> handlerCall option) outcome" where
  "onAutoRemoveTO rp reqInfo =
     andThen (RemoveRequest rp reqInfo)
       (\<lambda>(rp', ok). Inr (rp', if ok then Some (OnAutoRemoveTimeout reqInfo) else None))"

subsection \<open>The invariant\<close>

definition entries :: "(bytes \<Rightarrow> RequestInfo) \<Rightarrow> (nat \<times> requestItem) list \<Rightarrow> (RequestInfo \<times> nat) list" where
  "entries inspector fifo = map (\<lambda>(e, item). (inspector (ri_request item), e)) fifo"

definition totalBytes :: "(nat \<times> requestItem) list \<Rightarrow> nat" where
  "totalBytes fifo = sum_list (map (\<lambda>(e, item). length (ri_request item)) fifo)"

text \<open>The map and the list describe the same requests.\<close>

definition index_inv :: "(bytes \<Rightarrow> RequestInfo) \<Rightarrow> Pool \<Rightarrow> bool" where
  "index_inv inspector rp \<longleftrightarrow>
     distinct (map fst (rp_fifo rp)) \<and> (\<forall>e\<in>fst ` set (rp_fifo rp). e < rp_nextElement rp) \<and>
     distinct (map fst (rp_existMap rp)) \<and> distinct (map fst (entries inspector (rp_fifo rp))) \<and>
     set (rp_existMap rp) = set (entries inspector (rp_fifo rp))"

definition del_inv :: "Pool \<Rightarrow> bool" where
  "del_inv rp \<longleftrightarrow>
     distinct (rp_delSlice rp) \<and> set (rp_delSlice rp) = set (rp_delMap rp) \<and>
     fst ` set (rp_existMap rp) \<inter> set (rp_delMap rp) = {}"

definition pool_inv :: "(bytes \<Rightarrow> RequestInfo) \<Rightarrow> nat \<Rightarrow> Pool \<Rightarrow> bool" where
  "pool_inv inspector pending rp \<longleftrightarrow>
     index_inv inspector rp \<and> del_inv rp \<and>
     rp_semaphore rp = int (length (rp_fifo rp) + pending) \<and>
     rp_semaphore rp \<le> po_QueueSize (rp_options rp) \<and>
     rp_capacity rp = po_QueueSize (rp_options rp) \<and>
     (\<not> rp_closed rp \<longrightarrow> rp_sizeBytes rp = of_nat (totalBytes (rp_fifo rp))) \<and>
     (rp_stopped rp \<longrightarrow> (\<forall>(e, item)\<in>set (rp_fifo rp). ri_timeout item = TimerStopped))"

text \<open>The abstract pool: the pending requests in the order of their submission.\<close>

definition contents :: "Pool \<Rightarrow> bytes list" where
  "contents rp = map (\<lambda>(e, item). ri_request item) (rp_fifo rp)"

lemma alist_update_fresh: "k \<notin> fst ` set al \<Longrightarrow> AList.update k v al = al @ [(k, v)]"
  by (induction al) auto

lemma fst_entries: "map fst (entries inspector fifo) = map (\<lambda>(e, item). inspector (ri_request item)) fifo"
  by (simp add: entries_def case_prod_unfold)

lemma length_entries [simp]: "length (entries inspector fifo) = length fifo"
  by (simp add: entries_def)

lemma index_inv_length:
  assumes "index_inv inspector rp"
  shows "length (rp_existMap rp) = length (rp_fifo rp)"
proof -
  have "distinct (rp_existMap rp)" "distinct (entries inspector (rp_fifo rp))"
    using assms by (auto simp: index_inv_def distinct_map)
  then have "length (rp_existMap rp) = length (entries inspector (rp_fifo rp))"
    using assms by (metis distinct_card index_inv_def)
  then show ?thesis by simp
qed

lemma index_inv_exist:
  assumes "index_inv inspector rp"
  shows "fst ` set (rp_existMap rp) = inspector ` set (contents rp)"
  using assms by (force simp: index_inv_def entries_def contents_def image_image case_prod_unfold)

lemma index_inv_lookup:
  assumes "index_inv inspector rp" "map_of (rp_existMap rp) info = Some e"
  obtains item where "(e, item) \<in> set (rp_fifo rp)" "inspector (ri_request item) = info"
    "map_of (rp_fifo rp) e = Some item"
proof -
  have "(info, e) \<in> set (entries inspector (rp_fifo rp))"
    using assms by (auto simp: index_inv_def dest: map_of_SomeD)
  then obtain item where "(e, item) \<in> set (rp_fifo rp)" "inspector (ri_request item) = info"
    by (auto simp: entries_def)
  then show ?thesis using that assms(1) by (auto simp: index_inv_def)
qed

lemma index_inv_lookup_None:
  "index_inv inspector rp \<Longrightarrow> map_of (rp_existMap rp) info = None \<Longrightarrow>
   info \<notin> inspector ` set (contents rp)"
  by (metis index_inv_exist map_of_eq_None_iff)

lemma pool_inv_NewPool [keeps_inv]:
  "0 \<le> po_QueueSize options \<Longrightarrow> pool_inv inspector 0 (NewPool options)"
  by (simp add: pool_inv_def index_inv_def del_inv_def NewPool_def entries_def totalBytes_def
      defaultOptions_def)

lemma index_inv_semaphore [simp]:
  "index_inv inspector (rp\<lparr>rp_semaphore := n\<rparr>) = index_inv inspector rp"
  "index_inv inspector (rp\<lparr>rp_sizeBytes := b\<rparr>) = index_inv inspector rp"
  "index_inv inspector (rp\<lparr>rp_options := os\<rparr>) = index_inv inspector rp"
  "index_inv inspector (rp\<lparr>rp_closed := c\<rparr>) = index_inv inspector rp"
  "index_inv inspector (rp\<lparr>rp_submittedChan := c\<rparr>) = index_inv inspector rp"
  "index_inv inspector (rp\<lparr>rp_delMap := dm\<rparr>) = index_inv inspector rp"
  "index_inv inspector (rp\<lparr>rp_delSlice := ds\<rparr>) = index_inv inspector rp"
  by (simp_all add: index_inv_def)

lemma del_inv_semaphore [simp]:
  "del_inv (rp\<lparr>rp_semaphore := n\<rparr>) = del_inv rp"
  "del_inv (rp\<lparr>rp_sizeBytes := b\<rparr>) = del_inv rp"
  "del_inv (rp\<lparr>rp_options := os\<rparr>) = del_inv rp"
  "del_inv (rp\<lparr>rp_closed := c\<rparr>) = del_inv rp"
  "del_inv (rp\<lparr>rp_submittedChan := c\<rparr>) = del_inv rp"
  "del_inv (rp\<lparr>rp_fifo := ff\<rparr>) = del_inv rp"
  "del_inv (rp\<lparr>rp_stopped := st\<rparr>) = del_inv rp"
  "del_inv (rp\<lparr>rp_nextElement := ne\<rparr>) = del_inv rp"
  by (simp_all add: del_inv_def)

lemma semaphoreAcquire_inv [keeps_inv]:
  "semaphoreAcquire rp = Some rp' \<Longrightarrow> pool_inv inspector pending rp \<Longrightarrow>
   pool_inv inspector (Suc pending) rp'"
  by (cases "rp_semaphore rp < po_QueueSize (rp_options rp)")
    (auto simp: semaphoreAcquire_def pool_inv_def)

definition released :: "Pool \<Rightarrow> Pool" where
  "released rp = rp\<lparr>rp_semaphore := rp_semaphore rp - 1\<rparr>"

lemma pool_inv_held: "pool_inv inspector pending rp \<Longrightarrow> x \<in> set (rp_fifo rp) \<Longrightarrow> 0 < rp_semaphore rp"
  using length_pos_if_in_set [of x "rp_fifo rp"] unfolding pool_inv_def by linarith

lemma semaphoreRelease_held: "0 < rp_semaphore rp \<Longrightarrow> semaphoreRelease rp = Inr (released rp)"
  by (simp add: semaphoreRelease_def released_def)

lemma semaphoreRelease_inv:
  assumes "pool_inv inspector (Suc pending) rp"
  shows "semaphoreRelease rp = Inr (released rp)" "pool_inv inspector pending (released rp)"
  using assms by (simp_all add: semaphoreRelease_held released_def pool_inv_def)

lemma ChangeOptions_inv [keeps_inv]:
  "pool_inv inspector pending rp \<Longrightarrow> pool_inv inspector pending (ChangeOptions rp options)"
  by (simp add: ChangeOptions_def pool_inv_def)

subsection \<open>Insertion\<close>

lemma submitLocked_fresh:
  assumes "index_inv inspector rp" "inspector request \<notin> fst ` set (rp_existMap rp)"
    "inspector request \<notin> set (rp_delMap rp)"
  shows "submitLocked inspector rp request =
    Inr (rp\<lparr>rp_nextElement := rp_nextElement rp + 1,
            rp_fifo := rp_fifo rp @ [(rp_nextElement rp,
              \<lparr>ri_request = request, ri_timeout = (if rp_stopped rp then TimerStopped else ForwardTimer)\<rparr>)],
            rp_existMap := rp_existMap rp @ [(inspector request, rp_nextElement rp)],
            rp_submittedChan := True,
            rp_sizeBytes := rp_sizeBytes rp + of_nat (length request)\<rparr>, None)"
  using assms index_inv_length [OF assms(1)]
  by (simp add: submitLocked_def Let_def alist_update_fresh)

lemma index_inv_insert:
  assumes "index_inv inspector rp" "inspector request \<notin> fst ` set (rp_existMap rp)"
  shows "index_inv inspector
    (rp\<lparr>rp_nextElement := rp_nextElement rp + 1,
        rp_fifo := rp_fifo rp @ [(rp_nextElement rp, \<lparr>ri_request = request, ri_timeout = t\<rparr>)],
        rp_existMap := rp_existMap rp @ [(inspector request, rp_nextElement rp)],
        rp_submittedChan := sc, rp_sizeBytes := sb\<rparr>)"
proof -
  have "fst ` set (rp_existMap rp) = set (map fst (entries inspector (rp_fifo rp)))"
    using assms(1) by (simp add: index_inv_def)
  then have fresh: "inspector request \<notin> set (map fst (entries inspector (rp_fifo rp)))"
    using assms(2) by simp
  have new: "rp_nextElement rp \<notin> fst ` set (rp_fifo rp)"
    using assms(1) by (auto simp: index_inv_def)
  have ent: "entries inspector (rp_fifo rp @ [(rp_nextElement rp, \<lparr>ri_request = request, ri_timeout = t\<rparr>)])
      = entries inspector (rp_fifo rp) @ [(inspector request, rp_nextElement rp)]"
    by (simp add: entries_def)
  show ?thesis
    using assms fresh new unfolding index_inv_def by (simp add: ent ball_Un less_Suc_eq)
qed

lemma submitLocked_inv:
  assumes "pool_inv inspector (Suc pending) rp"
  obtains rp' err where "submitLocked inspector rp request = Inr (rp', err)"
    "pool_inv inspector pending rp'"
proof (cases "inspector request \<in> fst ` set (rp_existMap rp) \<or> inspector request \<in> set (rp_delMap rp)")
  case True
  then have "\<exists>err. submitLocked inspector rp request = Inr (released rp, err)"
    by (auto simp: submitLocked_def Let_def semaphoreRelease_inv [OF assms])
  then show ?thesis using that semaphoreRelease_inv [OF assms] by blast
next
  case False
  have ii: "index_inv inspector rp" using assms by (simp add: pool_inv_def)
  let ?rp' = "rp\<lparr>rp_nextElement := rp_nextElement rp + 1,
            rp_fifo := rp_fifo rp @ [(rp_nextElement rp,
              \<lparr>ri_request = request, ri_timeout = (if rp_stopped rp then TimerStopped else ForwardTimer)\<rparr>)],
            rp_existMap := rp_existMap rp @ [(inspector request, rp_nextElement rp)],
            rp_submittedChan := True,
            rp_sizeBytes := rp_sizeBytes rp + of_nat (length request)\<rparr>"
  have di': "del_inv ?rp'" using assms False by (auto simp: pool_inv_def del_inv_def)
  have "pool_inv inspector pending ?rp'"
    using index_inv_insert [OF ii] di' assms False
    by (simp add: pool_inv_def totalBytes_def)
  moreover have "submitLocked inspector rp request = Inr (?rp', None)"
    using submitLocked_fresh [OF ii] False by blast
  ultimately show ?thesis using that by blast
qed

subsection \<open>Removal\<close>

lemma filter_element_eq:
  assumes "index_inv inspector rp" "map_of (rp_existMap rp) info = Some e"
  shows "filter (\<lambda>(e', _). e' \<noteq> e) (rp_fifo rp)
    = filter (\<lambda>(_, item). inspector (ri_request item) \<noteq> info) (rp_fifo rp)"
proof (rule filter_cong [OF refl])
  fix x assume x: "x \<in> set (rp_fifo rp)"
  obtain item where item: "(e, item) \<in> set (rp_fifo rp)" "inspector (ri_request item) = info"
    using index_inv_lookup [OF assms] by blast
  have inj: "inj_on fst (set (rp_fifo rp))"
    "inj_on (\<lambda>x. inspector (ri_request (snd x))) (set (rp_fifo rp))"
    using assms(1) by (simp_all add: index_inv_def fst_entries distinct_map case_prod_unfold)
  have "x = (e, item) \<longleftrightarrow> fst x = e" "x = (e, item) \<longleftrightarrow> inspector (ri_request (snd x)) = info"
    using inj_on_eq_iff [OF inj(1) x item(1)] inj_on_eq_iff [OF inj(2) x item(1)] item(2) by auto
  then show "(case x of (e', _) \<Rightarrow> e' \<noteq> e) = (case x of (_, item) \<Rightarrow> inspector (ri_request item) \<noteq> info)"
    by (cases x) auto
qed

definition removed :: "(bytes \<Rightarrow> RequestInfo) \<Rightarrow> RequestInfo \<Rightarrow> Pool \<Rightarrow> Pool" where
  "removed inspector info rp =
     rp\<lparr>rp_fifo := filter (\<lambda>(_, item). inspector (ri_request item) \<noteq> info) (rp_fifo rp),
        rp_existMap := filter (\<lambda>(k, _). info \<noteq> k) (rp_existMap rp)\<rparr>"

lemma entries_filter:
  "entries inspector (filter (\<lambda>(_, item). inspector (ri_request item) \<noteq> info) fifo)
   = filter (\<lambda>(k, _). info \<noteq> k) (entries inspector fifo)"
  by (induction fifo) (auto simp: entries_def)

lemma index_inv_removed:
  assumes "index_inv inspector rp" shows "index_inv inspector (removed inspector info rp)"
  using assms by (auto simp: index_inv_def removed_def entries_filter distinct_map_filter)

lemma contents_removed:
  "contents (removed inspector info rp) = filter (\<lambda>r. inspector r \<noteq> info) (contents rp)"
  by (simp add: contents_def removed_def filter_map o_def case_prod_unfold)

lemma del_inv_moveToDelSlice:
  "del_inv rp \<Longrightarrow> info \<notin> fst ` set (rp_existMap rp) \<Longrightarrow> del_inv (moveToDelSlice rp info)"
  by (auto simp: del_inv_def moveToDelSlice_def)

lemma moveToDelSlice_fields [simp]:
  "rp_fifo (moveToDelSlice rp info) = rp_fifo rp"
  "rp_existMap (moveToDelSlice rp info) = rp_existMap rp"
  "rp_semaphore (moveToDelSlice rp info) = rp_semaphore rp"
  "rp_options (moveToDelSlice rp info) = rp_options rp"
  "rp_closed (moveToDelSlice rp info) = rp_closed rp"
  "rp_stopped (moveToDelSlice rp info) = rp_stopped rp"
  "rp_sizeBytes (moveToDelSlice rp info) = rp_sizeBytes rp"
  "rp_nextElement (moveToDelSlice rp info) = rp_nextElement rp"
  "rp_capacity (moveToDelSlice rp info) = rp_capacity rp"
  "set (rp_delMap (moveToDelSlice rp info)) = insert info (set (rp_delMap rp))"
  by (auto simp: moveToDelSlice_def)

lemma index_inv_moveToDelSlice [simp]:
  "index_inv inspector (moveToDelSlice rp info) = index_inv inspector rp"
  by (simp add: moveToDelSlice_def)

lemma removed_fields [simp]:
  "rp_semaphore (removed inspector info rp) = rp_semaphore rp"
  "rp_options (removed inspector info rp) = rp_options rp"
  "rp_capacity (removed inspector info rp) = rp_capacity rp"
  "rp_closed (removed inspector info rp) = rp_closed rp"
  "rp_stopped (removed inspector info rp) = rp_stopped rp"
  "rp_sizeBytes (removed inspector info rp) = rp_sizeBytes rp"
  "rp_delMap (removed inspector info rp) = rp_delMap rp"
  "rp_delSlice (removed inspector info rp) = rp_delSlice rp"
  by (simp_all add: removed_def)

lemma del_inv_removed:
  "del_inv rp \<Longrightarrow> del_inv (moveToDelSlice (removed inspector info rp) info)"
  by (rule del_inv_moveToDelSlice) (auto simp: del_inv_def removed_def)

lemma deleteRequest_removed:
  assumes "index_inv inspector rp" "map_of (rp_existMap rp) info = Some e" "0 < rp_semaphore rp"
  shows "deleteRequest rp e info =
    Inr (released (moveToDelSlice (removed inspector info rp) info))"
proof -
  have "rp\<lparr>rp_fifo := filter (\<lambda>(e', _). e' \<noteq> e) (rp_fifo rp),
           rp_existMap := AList.delete info (rp_existMap rp)\<rparr> = removed inspector info rp"
    using filter_element_eq [OF assms(1,2)] by (simp add: removed_def AList.delete_eq)
  then show ?thesis
    using index_inv_length [OF index_inv_removed [OF assms(1), of info]] assms(3)
    by (simp add: deleteRequest_def semaphoreRelease_held released_def)
qed

lemma single_match:
  assumes "distinct (map f xs)" "x \<in> set xs"
  shows "length xs = Suc (length (filter (\<lambda>y. f y \<noteq> f x) xs))"
    and "sum_list (map g xs) = (g x :: nat) + sum_list (map g (filter (\<lambda>y. f y \<noteq> f x) xs))"
proof -
  from assms have "length xs = Suc (length (filter (\<lambda>y. f y \<noteq> f x) xs)) \<and>
    sum_list (map g xs) = g x + sum_list (map g (filter (\<lambda>y. f y \<noteq> f x) xs))"
  proof (induction xs)
    case (Cons a xs)
    have "\<forall>y\<in>set xs. f y \<noteq> f a" using Cons.prems(1) by (simp add: image_iff) metis
    then have "filter (\<lambda>y. f y \<noteq> f a) xs = xs" by (rule filter_True)
    moreover have "f a \<noteq> f x" if "x \<in> set xs" using Cons.prems that by auto
    ultimately show ?case using Cons by auto
  qed simp
  then show "length xs = Suc (length (filter (\<lambda>y. f y \<noteq> f x) xs))"
    "sum_list (map g xs) = g x + sum_list (map g (filter (\<lambda>y. f y \<noteq> f x) xs))" by auto
qed

lemma removed_measures:
  assumes "index_inv inspector rp" "(e, item) \<in> set (rp_fifo rp)"
    "inspector (ri_request item) = info"
  shows "length (rp_fifo rp) = Suc (length (rp_fifo (removed inspector info rp)))"
    and "totalBytes (rp_fifo rp) =
      length (ri_request item) + totalBytes (rp_fifo (removed inspector info rp))"
proof -
  have d: "distinct (map (\<lambda>(e, item). inspector (ri_request item)) (rp_fifo rp))"
    using assms(1) by (simp add: index_inv_def fst_entries)
  have eq: "filter (\<lambda>(_, item). inspector (ri_request item) \<noteq> info) (rp_fifo rp)
     = filter (\<lambda>y. (case y of (e, item) \<Rightarrow> inspector (ri_request item)) \<noteq>
               (case (e, item) of (e, item) \<Rightarrow> inspector (ri_request item))) (rp_fifo rp)"
    using assms(3) by (intro filter_cong) auto
  show "length (rp_fifo rp) = Suc (length (rp_fifo (removed inspector info rp)))"
    using single_match(1) [OF d assms(2)] eq by (simp add: removed_def)
  show "totalBytes (rp_fifo rp) =
      length (ri_request item) + totalBytes (rp_fifo (removed inspector info rp))"
    using single_match(2) [OF d assms(2), of "\<lambda>(e, item). length (ri_request item)"] eq
    by (simp add: removed_def totalBytes_def)
qed

lemma RemoveRequest_cases:
  assumes "pool_inv inspector pending rp"
  obtains (absent) "info \<notin> inspector ` set (contents rp)"
      "RemoveRequest rp info = Inr (moveToDelSlice rp info, False)"
  | (present) rp' where "info \<in> inspector ` set (contents rp)"
      "RemoveRequest rp info = Inr (rp', True)"
      "pool_inv inspector pending rp'"
      "contents rp' = filter (\<lambda>r. inspector r \<noteq> info) (contents rp)"
      "set (rp_delMap rp') = insert info (set (rp_delMap rp))"
      "rp_options rp' = rp_options rp" "rp_closed rp' = rp_closed rp" "rp_stopped rp' = rp_stopped rp"
proof (cases "map_of (rp_existMap rp) info")
  case None
  have ii: "index_inv inspector rp" using assms by (simp add: pool_inv_def)
  show ?thesis
    using absent index_inv_lookup_None [OF ii None] None by (simp add: RemoveRequest_def)
next
  case (Some e)
  have ii: "index_inv inspector rp" using assms by (simp add: pool_inv_def)
  obtain item where item: "(e, item) \<in> set (rp_fifo rp)" "inspector (ri_request item) = info"
    "map_of (rp_fifo rp) e = Some item" using index_inv_lookup [OF ii Some] by blast
  have held: "0 < rp_semaphore rp" by (rule pool_inv_held [OF assms item(1)])
  let ?rp1 = "released (moveToDelSlice (removed inspector info rp) info)"
  let ?rp' = "?rp1\<lparr>rp_sizeBytes := rp_sizeBytes ?rp1 - of_nat (length (ri_request item))\<rparr>"
  have res: "RemoveRequest rp info = Inr (?rp', True)"
    using Some item(3) deleteRequest_removed [OF ii Some held] by (simp add: RemoveRequest_def Let_def)
  have "index_inv inspector ?rp'" "del_inv ?rp'"
    using assms index_inv_removed [OF ii] del_inv_removed
    by (simp_all add: released_def pool_inv_def)
  moreover have "rp_stopped rp \<longrightarrow> (\<forall>(e, item)\<in>set (rp_fifo ?rp'). ri_timeout item = TimerStopped)"
    using assms by (auto simp: pool_inv_def released_def removed_def)
  ultimately have "pool_inv inspector pending ?rp'"
    using assms removed_measures [OF ii item(1,2)] by (simp add: pool_inv_def released_def)
  moreover have "contents ?rp' = filter (\<lambda>r. inspector r \<noteq> info) (contents rp)"
    using contents_removed [of inspector info rp] by (simp add: contents_def released_def)
  moreover have "info \<in> inspector ` set (contents rp)"
    using item by (force simp: contents_def)
  ultimately show ?thesis using present res by (simp add: released_def)
qed

lemma moveToDelSlice_inv [keeps_inv]:
  "pool_inv inspector pending rp \<Longrightarrow> info \<notin> inspector ` set (contents rp) \<Longrightarrow>
   pool_inv inspector pending (moveToDelSlice rp info)"
  using del_inv_moveToDelSlice [of rp info] index_inv_exist [of inspector rp]
  by (simp add: pool_inv_def)

lemma RemoveRequest_inv:
  assumes "pool_inv inspector pending rp"
  obtains rp' ok where "RemoveRequest rp info = Inr (rp', ok)" "pool_inv inspector pending rp'"
    "contents rp' = filter (\<lambda>r. inspector r \<noteq> info) (contents rp)"
    "info \<in> set (rp_delMap rp')" "ok \<longleftrightarrow> info \<in> inspector ` set (contents rp)"
    "rp_closed rp' = rp_closed rp" "rp_stopped rp' = rp_stopped rp"
  using assms
proof (cases rule: RemoveRequest_cases [where info = info])
  case absent
  moreover have "contents (moveToDelSlice rp info) = filter (\<lambda>r. inspector r \<noteq> info) (contents rp)"
    using absent(1) by (auto simp: contents_def intro!: filter_True [symmetric])
  ultimately show ?thesis using that [of "moveToDelSlice rp info" False] assms moveToDelSlice_inv by simp
next
  case (present rp')
  then show ?thesis using that by simp
qed

lemma pruneLoop_inv:
  "pool_inv inspector pending rp \<Longrightarrow>
   \<exists>rp'. pruneLoop predicate rp xs = Inr rp' \<and> pool_inv inspector pending rp' \<and>
     contents rp' = filter (\<lambda>r. inspector r \<notin> snd ` set (filter (\<lambda>(req, info). \<not> predicate req) xs))
       (contents rp)"
proof (induction predicate rp xs rule: pruneLoop.induct)
  case (2 predicate rp req info rest)
  obtain rp' ok where r: "RemoveRequest rp info = Inr (rp', ok)" "pool_inv inspector pending rp'"
    "contents rp' = filter (\<lambda>r. inspector r \<noteq> info) (contents rp)"
    using RemoveRequest_inv [OF 2(3)] by metis
  show ?case
  proof (cases "predicate req")
    case True
    then show ?thesis using 2 by simp
  next
    case False
    have "\<exists>rp''. pruneLoop predicate rp' rest = Inr rp'' \<and> pool_inv inspector pending rp'' \<and>
       contents rp'' = filter (\<lambda>r. inspector r \<notin> snd ` set (filter (\<lambda>(req, info). \<not> predicate req) rest))
       (contents rp')" using 2(2) [OF False] r(2) by auto
    then show ?thesis using False r(1,3) by (auto simp: conj_commute intro!: filter_cong)
  qed
qed simp

lemma closeLoop_inv:
  "pool_inv inspector pending rp \<Longrightarrow> rp_closed rp \<Longrightarrow> set es \<subseteq> set (rp_existMap rp) \<Longrightarrow>
   distinct (map fst es) \<Longrightarrow>
   \<exists>rp'. closeLoop rp es = Inr rp' \<and> pool_inv inspector pending rp' \<and> rp_closed rp' \<and>
     contents rp' = filter (\<lambda>r. inspector r \<notin> fst ` set es) (contents rp) \<and>
     set (rp_delMap rp') = fst ` set es \<union> set (rp_delMap rp) \<and> rp_options rp' = rp_options rp"
proof (induction rp es rule: closeLoop.induct)
  case (2 rp info e rest)
  have ii: "index_inv inspector rp" using 2 by (simp add: pool_inv_def)
  have look: "map_of (rp_existMap rp) info = Some e"
    using 2(4) ii by (auto simp: index_inv_def)
  obtain item where item: "(e, item) \<in> set (rp_fifo rp)" "inspector (ri_request item) = info"
    using index_inv_lookup [OF ii look] by blast
  have held: "0 < rp_semaphore rp" by (rule pool_inv_held [OF 2(2) item(1)])
  let ?rp = "released (moveToDelSlice (removed inspector info rp) info)"
  have "index_inv inspector ?rp" "del_inv ?rp"
    using 2(2) index_inv_removed [OF ii] del_inv_removed
    by (simp_all add: released_def pool_inv_def)
  moreover have "rp_stopped rp \<longrightarrow> (\<forall>(e, item)\<in>set (rp_fifo ?rp). ri_timeout item = TimerStopped)"
    using 2(2) by (auto simp: pool_inv_def released_def removed_def)
  ultimately have inv: "pool_inv inspector pending ?rp"
    using 2(2,3) removed_measures [OF ii item] by (simp add: pool_inv_def released_def)
  have "set rest \<subseteq> set (rp_existMap ?rp)"
    using 2(4,5) by (force simp: released_def removed_def)
  then obtain rp' where "closeLoop ?rp rest = Inr rp'" "pool_inv inspector pending rp'" "rp_closed rp'"
     "contents rp' = filter (\<lambda>r. inspector r \<notin> fst ` set rest) (contents ?rp)"
     "set (rp_delMap rp') = fst ` set rest \<union> set (rp_delMap ?rp)" "rp_options rp' = rp_options ?rp"
    using 2(1) [OF inv] 2(3,5) by (auto simp: released_def)
  moreover have "contents ?rp = filter (\<lambda>r. inspector r \<noteq> info) (contents rp)"
    using contents_removed [of inspector info rp] by (simp add: contents_def released_def)
  ultimately show ?case
    using deleteRequest_removed [OF ii look held] by (auto simp: conj_commute released_def intro!: filter_cong)
qed simp

lemma Pool_Close_inv:
  assumes "pool_inv inspector pending rp"
  shows "\<exists>rp'. Pool_Close rp = Inr rp' \<and> pool_inv inspector pending rp' \<and> rp_closed rp' \<and> contents rp' = [] \<and>
    set (rp_delMap rp') = inspector ` set (contents rp) \<union> set (rp_delMap rp) \<and> rp_options rp' = rp_options rp"
proof -
  have inv: "pool_inv inspector pending (rp\<lparr>rp_closed := True\<rparr>)" and ii: "index_inv inspector rp"
    using assms by (simp_all add: pool_inv_def)
  have "\<exists>rp'. closeLoop (rp\<lparr>rp_closed := True\<rparr>) (rp_existMap rp) = Inr rp' \<and>
     pool_inv inspector pending rp' \<and> rp_closed rp' \<and>
     contents rp' = filter (\<lambda>r. inspector r \<notin> fst ` set (rp_existMap rp)) (contents (rp\<lparr>rp_closed := True\<rparr>)) \<and>
     set (rp_delMap rp') = fst ` set (rp_existMap rp) \<union> set (rp_delMap (rp\<lparr>rp_closed := True\<rparr>)) \<and>
     rp_options rp' = rp_options (rp\<lparr>rp_closed := True\<rparr>)"
    using ii by (intro closeLoop_inv [OF inv]) (simp_all add: index_inv_def)
  then show ?thesis
    by (auto simp: Pool_Close_def index_inv_exist [OF ii] contents_def)
qed

subsection \<open>Deletion memory and timers\<close>

lemma eraseFromDelSlice_inv [keeps_inv]:
  assumes "pool_inv inspector pending rp"
  shows "pool_inv inspector pending (eraseFromDelSlice rp)"
proof (cases "length (rp_delSlice rp) \<le> defaultSizeOfDelElements")
  case True
  then show ?thesis using assms by (simp add: eraseFromDelSlice_def)
next
  case False
  let ?n = "length (rp_delSlice rp) - defaultSizeOfDelElements"
  have d: "distinct (rp_delSlice rp)" "set (rp_delMap rp) = set (rp_delSlice rp)"
    "fst ` set (rp_existMap rp) \<inter> set (rp_delMap rp) = {}"
    using assms unfolding pool_inv_def del_inv_def by blast+
  have "set (take ?n (rp_delSlice rp)) \<inter> set (drop ?n (rp_delSlice rp)) = {}"
    using d(1) by (metis append_take_drop_id distinct_append)
  moreover have "set (rp_delSlice rp) = set (take ?n (rp_delSlice rp)) \<union> set (drop ?n (rp_delSlice rp))"
    by (metis append_take_drop_id set_append)
  ultimately have
    "{r \<in> set (rp_delMap rp). r \<notin> set (take ?n (rp_delSlice rp))} = set (drop ?n (rp_delSlice rp))"
    using d(2) by blast
  then have "del_inv (eraseFromDelSlice rp)"
    using False d by (auto simp: del_inv_def eraseFromDelSlice_def Let_def)
  then show ?thesis using assms by (simp add: pool_inv_def eraseFromDelSlice_def Let_def)
qed

definition retimed :: "(nat \<times> requestItem) list \<Rightarrow> (nat \<Rightarrow> requestItem \<Rightarrow> timer) \<Rightarrow> (nat \<times> requestItem) list" where
  "retimed fifo t = map (\<lambda>(e, item). (e, item\<lparr>ri_timeout := t e item\<rparr>)) fifo"

lemma retimed_simps [simp]:
  "map fst (retimed fifo t) = map fst fifo"
  "fst ` set (retimed fifo t) = fst ` set fifo"
  "entries inspector (retimed fifo t) = entries inspector fifo"
  "totalBytes (retimed fifo t) = totalBytes fifo"
  "length (retimed fifo t) = length fifo"
  "map (\<lambda>(e, item). ri_request item) (retimed fifo t) = map (\<lambda>(e, item). ri_request item) fifo"
  by (auto simp: retimed_def entries_def totalBytes_def case_prod_unfold o_def image_image)

lemma index_inv_retimed [simp]:
  "index_inv inspector (rp\<lparr>rp_fifo := retimed (rp_fifo rp) t\<rparr>) = index_inv inspector rp"
  "index_inv inspector (rp\<lparr>rp_fifo := retimed (rp_fifo rp) t, rp_stopped := b\<rparr>) = index_inv inspector rp"
  by (simp_all add: index_inv_def)

lemma retimed_inv:
  "pool_inv inspector pending rp \<Longrightarrow> \<not> rp_stopped rp \<Longrightarrow>
   pool_inv inspector pending (rp\<lparr>rp_fifo := retimed (rp_fifo rp) t\<rparr>)"
  by (simp add: pool_inv_def)

lemma timers_retimed:
  "StopTimers rp = rp\<lparr>rp_fifo := retimed (rp_fifo rp) (\<lambda>e item. TimerStopped), rp_stopped := True\<rparr>"
  "RestartTimers rp = rp\<lparr>rp_fifo := retimed (rp_fifo rp) (\<lambda>e item. ForwardTimer), rp_stopped := False\<rparr>"
  "setTimer rp element t =
   rp\<lparr>rp_fifo := retimed (rp_fifo rp) (\<lambda>e item. if e = element then t else ri_timeout item)\<rparr>"
  by (simp_all add: StopTimers_def RestartTimers_def setTimer_def retimed_def case_prod_unfold if_distrib
      cong: if_cong)

lemma retimed_stopped: "\<forall>(e, item)\<in>set (retimed fifo (\<lambda>e item. t)). ri_timeout item = t"
  by (auto simp: retimed_def)

lemma StopTimers_inv [keeps_inv]:
  "pool_inv inspector pending rp \<Longrightarrow> pool_inv inspector pending (StopTimers rp)"
  by (simp add: timers_retimed pool_inv_def retimed_stopped)

lemma RestartTimers_inv [keeps_inv]:
  "pool_inv inspector pending rp \<Longrightarrow> pool_inv inspector pending (RestartTimers rp)"
  by (simp add: timers_retimed pool_inv_def)

lemma onRequestTO_inv [keeps_inv]:
  "pool_inv inspector pending rp \<Longrightarrow> pool_inv inspector pending (fst (onRequestTO rp request info))"
  by (simp add: onRequestTO_def timers_retimed retimed_inv split: option.split)

lemma onLeaderFwdRequestTO_inv [keeps_inv]:
  "pool_inv inspector pending rp \<Longrightarrow> pool_inv inspector pending (fst (onLeaderFwdRequestTO rp request info))"
  by (simp add: onLeaderFwdRequestTO_def timers_retimed retimed_inv split: option.split)

subsection \<open>The pool shared by its goroutines\<close>

text \<open>
  One step is one critical section; the state is the pool and the number of submitters that
  hold a unit of the semaphore and wait for the lock. A submitter whose time was up when it got its unit gives it back.
\<close>

inductive pool_step :: "(bytes \<Rightarrow> RequestInfo) \<Rightarrow> nat \<times> Pool \<Rightarrow> nat \<times> Pool \<Rightarrow> bool"
  for inspector where
    acquire: "semaphoreAcquire rp = Some rp' \<Longrightarrow> pool_step inspector (n, rp) (Suc n, rp')"
  | giveUp: "semaphoreRelease rp = Inr rp' \<Longrightarrow> pool_step inspector (Suc n, rp) (n, rp')"
  | insert: "submitLocked inspector rp request = Inr (rp', err) \<Longrightarrow>
      pool_step inspector (Suc n, rp) (n, rp')"
  | remove: "RemoveRequest rp info = Inr (rp', ok) \<Longrightarrow> pool_step inspector (n, rp) (n, rp')"
  | erase: "pool_step inspector (n, rp) (n, eraseFromDelSlice rp)"
  | close: "Pool_Close rp = Inr rp' \<Longrightarrow> pool_step inspector (n, rp) (n, rp')"
  | stop: "pool_step inspector (n, rp) (n, StopTimers rp)"
  | restart: "pool_step inspector (n, rp) (n, RestartTimers rp)"
  | options: "pool_step inspector (n, rp) (n, ChangeOptions rp options)"
  | forward: "pool_step inspector (n, rp) (n, fst (onRequestTO rp request info))"
  | complain: "pool_step inspector (n, rp) (n, fst (onLeaderFwdRequestTO rp request info))"
  | autoRemove: "onAutoRemoveTO rp info = Inr (rp', call) \<Longrightarrow> pool_step inspector (n, rp) (n, rp')"

lemma onAutoRemoveTO_inv:
  assumes "pool_inv inspector pending rp"
  obtains rp' call where "onAutoRemoveTO rp info = Inr (rp', call)" "pool_inv inspector pending rp'"
proof -
  obtain rp' ok where "RemoveRequest rp info = Inr (rp', ok)" "pool_inv inspector pending rp'"
    using RemoveRequest_inv [OF assms] by metis
  then show ?thesis using that by (simp add: onAutoRemoveTO_def)
qed

lemma pool_step_inv:
  assumes "pool_step inspector x y" "pool_inv inspector (fst x) (snd x)"
  shows "pool_inv inspector (fst y) (snd y)"
  using assms
proof (cases rule: pool_step.cases)
  case (giveUp rp rp' n)
  then show ?thesis using assms(2) semaphoreRelease_inv [of inspector n rp] by auto
next
  case (insert rp request rp' err n)
  then show ?thesis using assms(2) submitLocked_inv [of inspector n rp request] by auto
next
  case (remove rp info rp' ok n)
  then show ?thesis using assms(2) RemoveRequest_inv [of inspector n rp info] by auto
next
  case (close rp rp' n)
  then show ?thesis using assms(2) Pool_Close_inv [of inspector n rp] by auto
next
  case (autoRemove rp info rp' call n)
  then show ?thesis using assms(2) onAutoRemoveTO_inv [of inspector n rp info] by auto
qed (simp_all add: keeps_inv)

lemma pool_reachable_inv:
  assumes "(pool_step inspector)\<^sup>*\<^sup>* (0, NewPool options) (n, rp)" "0 \<le> po_QueueSize options"
  shows "pool_inv inspector n rp"
proof -
  have "pool_inv inspector (fst y) (snd y)" if "(pool_step inspector)\<^sup>*\<^sup>* (0, NewPool options) y" for y
    using that
  proof (induction rule: rtranclp_induct)
    case base
    then show ?case using pool_inv_NewPool assms(2) by simp
  next
    case (step y z)
    then show ?case using pool_step_inv by blast
  qed
  then show ?thesis using assms(1) by fastforce
qed

text \<open>
  C20: whatever the interleaving of submissions, removals, timeouts and control calls, the pool
  never holds more requests than its capacity, even counting the submitters that already hold a
  semaphore unit; no two pending requests have the same info, no pending request is among
  the processed ones, the byte counter of an open pool is the sum of the request sizes, and no call panics:
  not on a map and a list of different lengths, and not by releasing a semaphore unit that nobody holds.
\<close>

theorem pool_interleaving_safe:
  assumes "(pool_step inspector)\<^sup>*\<^sup>* (0, NewPool options) (n, rp)" "0 \<le> po_QueueSize options"
  shows "int (Size rp + n) \<le> Capacity rp \<and>
    distinct (map inspector (contents rp)) \<and>
    inspector ` set (contents rp) \<inter> set (rp_delMap rp) = {} \<and>
    (\<not> rp_closed rp \<longrightarrow> rp_sizeBytes rp = of_nat (sum_list (map length (contents rp)))) \<and>
    (0 < n \<longrightarrow> (\<exists>r. submitLocked inspector rp request = Inr r) \<and> (\<exists>rp'. semaphoreRelease rp = Inr rp')) \<and>
    (\<exists>r. RemoveRequest rp info = Inr r) \<and> (\<exists>r. onAutoRemoveTO rp info = Inr r) \<and> (\<exists>rp'. Prune predicate rp = Inr rp') \<and>
    (\<exists>rp'. Pool_Close rp = Inr rp' \<and> contents rp' = [])"
proof (intro conjI)
  have inv: "pool_inv inspector n rp" by (rule pool_reachable_inv [OF assms])
  then have ii: "index_inv inspector rp" by (simp add: pool_inv_def)
  show "int (Size rp + n) \<le> Capacity rp"
    using inv by (simp add: pool_inv_def Size_def Capacity_def index_inv_length [OF ii])
  show "distinct (map inspector (contents rp))"
    using ii by (simp add: index_inv_def contents_def fst_entries case_prod_unfold o_def)
  show "inspector ` set (contents rp) \<inter> set (rp_delMap rp) = {}"
    using inv index_inv_exist [OF ii] unfolding pool_inv_def del_inv_def by simp
  show "\<not> rp_closed rp \<longrightarrow> rp_sizeBytes rp = of_nat (sum_list (map length (contents rp)))"
    using inv by (simp add: pool_inv_def contents_def totalBytes_def case_prod_unfold o_def)
  show "0 < n \<longrightarrow> (\<exists>r. submitLocked inspector rp request = Inr r) \<and> (\<exists>rp'. semaphoreRelease rp = Inr rp')"
    using submitLocked_inv [of inspector "n - 1" rp request] semaphoreRelease_inv(1) [of inspector "n - 1" rp] inv
    by (metis Suc_diff_1)
  show "\<exists>r. RemoveRequest rp info = Inr r" using RemoveRequest_inv [OF inv] by metis
  show "\<exists>r. onAutoRemoveTO rp info = Inr r" using onAutoRemoveTO_inv [OF inv] by metis
  show "\<exists>rp'. Prune predicate rp = Inr rp'" using pruneLoop_inv [OF inv] unfolding Prune_def by blast
  show "\<exists>rp'. Pool_Close rp = Inr rp' \<and> contents rp' = []" using Pool_Close_inv [OF inv] by blast
qed

definition exampleOptions :: PoolOptions where
  "exampleOptions = \<lparr>po_QueueSize = 2, po_ForwardTimeout = 0, po_ComplainTimeout = 0,
     po_AutoRemoveTimeout = 0, po_RequestMaxBytes = 8, po_SubmitTimeout = 0\<rparr>"

definition exampleInspector :: "bytes \<Rightarrow> RequestInfo" where
  "exampleInspector request = \<lparr>ClientID = ''c'', RequestID = (if request = [] then ''a'' else if request = [3] then ''d'' else ''b'')\<rparr>"

text \<open>
  Two submitters of a pool of two hold a unit at once and submit requests with the same info: one is accepted, the other
  gives its unit back, which a third submitter takes. The first request is removed while a fourth already holds its unit.
\<close>

definition acquired :: "Pool \<Rightarrow> Pool" where
  "acquired rp = (case semaphoreAcquire rp of None \<Rightarrow> rp | Some rp' \<Rightarrow> rp')"

definition inserted :: "bytes \<Rightarrow> Pool \<Rightarrow> Pool" where
  "inserted request rp = (case submitLocked exampleInspector rp request of Inl _ \<Rightarrow> rp | Inr (rp', _) \<Rightarrow> rp')"

definition withdrawn :: "RequestInfo \<Rightarrow> Pool \<Rightarrow> Pool" where
  "withdrawn info rp = (case RemoveRequest rp info of Inl _ \<Rightarrow> rp | Inr (rp', _) \<Rightarrow> rp')"

definition twoPending :: Pool where
  "twoPending = inserted [] (acquired (inserted [2] (inserted [1] (acquired (acquired (NewPool exampleOptions))))))"

definition interleavedPool :: Pool where
  "interleavedPool = acquired (withdrawn (exampleInspector [1]) twoPending)"

lemma acquired_step: "semaphoreAcquire rp \<noteq> None \<Longrightarrow> pool_step exampleInspector (n, rp) (Suc n, acquired rp)"
  by (auto simp: acquired_def intro: pool_step.acquire)

lemma inserted_step:
  "\<not> isl (submitLocked exampleInspector rp request) \<Longrightarrow> pool_step exampleInspector (Suc n, rp) (n, inserted request rp)"
  by (auto simp: inserted_def split: sum.split intro: pool_step.insert)

lemma withdrawn_step: "\<not> isl (RemoveRequest rp info) \<Longrightarrow> pool_step exampleInspector (n, rp) (n, withdrawn info rp)"
  by (auto simp: withdrawn_def split: sum.split intro: pool_step.remove)

lemma twoPending_reached: "(pool_step exampleInspector)\<^sup>*\<^sup>* (0, NewPool exampleOptions) (0, twoPending)"
proof -
  let ?p2 = "acquired (acquired (NewPool exampleOptions))"
  let ?p4 = "inserted [2] (inserted [1] ?p2)"
  have "pool_step exampleInspector (0, NewPool exampleOptions) (1, acquired (NewPool exampleOptions))"
    unfolding One_nat_def by (rule acquired_step) code_simp
  also have "(pool_step exampleInspector)\<^sup>*\<^sup>* \<dots> (2, ?p2)"
    unfolding numeral_2_eq_2 One_nat_def by (rule r_into_rtranclp, rule acquired_step) code_simp
  also have "pool_step exampleInspector (2, ?p2) (1, inserted [1] ?p2)"
    unfolding numeral_2_eq_2 One_nat_def by (rule inserted_step) code_simp
  also have "pool_step exampleInspector \<dots> (0, ?p4)"
    unfolding One_nat_def by (rule inserted_step) code_simp
  also have "pool_step exampleInspector (0, ?p4) (1, acquired ?p4)"
    unfolding One_nat_def by (rule acquired_step) code_simp
  also have "pool_step exampleInspector \<dots> (0, twoPending)"
    unfolding One_nat_def twoPending_def by (rule inserted_step) code_simp
  finally show ?thesis .
qed

theorem pool_interleaving_safe_witness:
  "(pool_step exampleInspector)\<^sup>*\<^sup>* (0, NewPool exampleOptions) (1, interleavedPool) \<and>
   contents interleavedPool = [[]] \<and> set (rp_delMap interleavedPool) = {exampleInspector [1]} \<and>
   int (Size interleavedPool + 1) \<le> Capacity interleavedPool \<and> rp_sizeBytes interleavedPool = 0 \<and>
   (\<exists>r. submitLocked exampleInspector interleavedPool [1] = Inr r) \<and> (\<exists>rp'. semaphoreRelease interleavedPool = Inr rp')"
proof -
  have "pool_step exampleInspector (0, twoPending) (0, withdrawn (exampleInspector [1]) twoPending)"
    by (rule withdrawn_step) code_simp
  moreover have "pool_step exampleInspector (0, withdrawn (exampleInspector [1]) twoPending) (1, interleavedPool)"
    unfolding One_nat_def interleavedPool_def by (rule acquired_step) code_simp
  ultimately have run: "(pool_step exampleInspector)\<^sup>*\<^sup>* (0, NewPool exampleOptions) (1, interleavedPool)"
    using twoPending_reached by (meson rtranclp.rtrancl_into_rtrancl)
  have e: "contents interleavedPool = [[]]" "rp_delMap interleavedPool = [exampleInspector [1]]" "\<not> rp_closed interleavedPool"
    by code_simp+
  show ?thesis
    using pool_interleaving_safe [OF run, of "[1]"] run e by (simp add: exampleOptions_def)
qed

subsection \<open>The pool as a queue\<close>

text \<open>
  The specification: a bounded FIFO queue that refuses repetitions. \<open>q_room\<close> is the number of places that are not held by
  submitters on their way. It does not know elements, maps, semaphores or deletion slices.
\<close>

record requestQueue =
  q_pending :: "bytes list"
  q_processed :: "RequestInfo set"
  q_closed :: bool
  q_maxBytes :: nat
  q_room :: int

definition queueSubmit ::
  "(bytes \<Rightarrow> RequestInfo) \<Rightarrow> requestQueue \<Rightarrow> bytes \<Rightarrow> requestQueue \<times> submitError option" where
  "queueSubmit inspector q request =
     (if q_closed q then (q, Some ErrPoolClosed)
      else if q_maxBytes q < length request then (q, Some ErrRequestMaxBytes)
      else if inspector request \<in> inspector ` set (q_pending q) then (q, Some ErrReqAlreadyExists)
      else if inspector request \<in> q_processed q then (q, Some ErrReqAlreadyProcessed)
      else if q_room q \<le> int (length (q_pending q)) then (q, Some ErrSemaphore)
      else (q\<lparr>q_pending := q_pending q @ [request]\<rparr>, None))"

definition queueRemove :: "(bytes \<Rightarrow> RequestInfo) \<Rightarrow> requestQueue \<Rightarrow> RequestInfo \<Rightarrow> requestQueue \<times> bool" where
  "queueRemove inspector q info =
     (q\<lparr>q_pending := filter (\<lambda>r. inspector r \<noteq> info) (q_pending q), q_processed := insert info (q_processed q)\<rparr>,
      info \<in> inspector ` set (q_pending q))"

definition queueClose :: "(bytes \<Rightarrow> RequestInfo) \<Rightarrow> requestQueue \<Rightarrow> requestQueue" where
  "queueClose inspector q =
     q\<lparr>q_pending := [], q_processed := inspector ` set (q_pending q) \<union> q_processed q, q_closed := True\<rparr>"

text \<open>The queue a pool stands for when \<open>n\<close> submitters hold a unit.\<close>

definition queueOf :: "nat \<Rightarrow> Pool \<Rightarrow> requestQueue" where
  "queueOf n rp = \<lparr>q_pending = contents rp, q_processed = set (rp_delMap rp), q_closed = rp_closed rp,
     q_maxBytes = unat (po_RequestMaxBytes (rp_options rp)), q_room = Capacity rp - int n\<rparr>"

lemma semaphoreAcquire_fields:
  "semaphoreAcquire rp = Some rp' \<Longrightarrow> rp' = rp\<lparr>rp_semaphore := rp_semaphore rp + 1\<rparr>"
  by (simp add: semaphoreAcquire_def split: if_splits)

lemma semaphoreAcquire_room:
  assumes "pool_inv inspector n rp"
  shows "semaphoreAcquire rp = None \<longleftrightarrow> q_room (queueOf n rp) \<le> int (length (contents rp))"
  using assms by (auto simp: semaphoreAcquire_def pool_inv_def queueOf_def Capacity_def contents_def)

lemma submitCheck_queue:
  assumes "index_inv inspector rp" "length request < 2 ^ 64" "submitCheck inspector rp request = Some err"
  shows "queueSubmit inspector (queueOf n rp) request = (queueOf n rp, Some err)"
proof -
  have "of_nat (length request) > po_RequestMaxBytes (rp_options rp) \<longleftrightarrow>
      unat (po_RequestMaxBytes (rp_options rp)) < length request"
    using assms(2) by (simp add: word_less_nat_alt unat_of_nat)
  then show ?thesis
    using assms(3) index_inv_exist [OF assms(1)]
    by (auto simp: submitCheck_def queueSubmit_def queueOf_def Let_def split: if_splits)
qed

lemma submitCheck_passed:
  assumes "index_inv inspector rp" "length request < 2 ^ 64" "submitCheck inspector rp request = None"
  shows "queueSubmit inspector (queueOf n rp) request =
    (if q_room (queueOf n rp) \<le> int (length (contents rp)) then (queueOf n rp, Some ErrSemaphore)
     else ((queueOf n rp)\<lparr>q_pending := contents rp @ [request]\<rparr>, None))"
proof -
  have "of_nat (length request) > po_RequestMaxBytes (rp_options rp) \<longleftrightarrow>
      unat (po_RequestMaxBytes (rp_options rp)) < length request"
    using assms(2) by (simp add: word_less_nat_alt unat_of_nat)
  then show ?thesis
    using assms(3) index_inv_exist [OF assms(1)]
    by (auto simp: submitCheck_def queueSubmit_def queueOf_def Let_def split: if_splits)
qed

lemma Submit_queue:
  assumes "pool_inv inspector n rp" "length request < 2 ^ 64"
  obtains rp' err where "Submit inspector rp request = Inr (rp', err)"
    "queueSubmit inspector (queueOf n rp) request = (queueOf n rp', err)"
proof -
  have ii: "index_inv inspector rp" using assms(1) by (simp add: pool_inv_def)
  show ?thesis
  proof (cases "submitCheck inspector rp request")
    case (Some err)
    then show ?thesis using submitCheck_queue [OF ii assms(2) Some] by (intro that [of rp "Some err"]) (simp_all add: Submit_def)
  next
    case None
    note q = submitCheck_passed [OF ii assms(2) None, of n]
    show ?thesis
    proof (cases "semaphoreAcquire rp")
      case full: None
      then show ?thesis
        using q None semaphoreAcquire_room [OF assms(1)] by (intro that [of rp "Some ErrSemaphore"]) (simp_all add: Submit_def)
    next
      case (Some rp1)
      have eq: "rp1 = rp\<lparr>rp_semaphore := rp_semaphore rp + 1\<rparr>" using semaphoreAcquire_fields [OF Some] .
      have fresh: "inspector request \<notin> fst ` set (rp_existMap rp1)" "inspector request \<notin> set (rp_delMap rp1)"
        using None eq by (auto simp: submitCheck_def Let_def split: if_splits)
      have ii1: "index_inv inspector rp1" using ii eq by simp
      note res = submitLocked_fresh [OF ii1 fresh]
      obtain rp' where r: "submitLocked inspector rp1 request = Inr (rp', None)" "contents rp' = contents rp @ [request]"
        "rp_delMap rp' = rp_delMap rp" "rp_closed rp' = rp_closed rp" "rp_options rp' = rp_options rp" "Capacity rp' = Capacity rp"
        by (rule that [OF res]) (simp_all add: eq contents_def Capacity_def)
      have "Submit inspector rp request = Inr (rp', None)" using None Some r(1) by (simp add: Submit_def)
      moreover have "queueSubmit inspector (queueOf n rp) request = (queueOf n rp', None)"
        using q Some semaphoreAcquire_room [OF assms(1)] r(2-) by (simp add: queueOf_def)
      ultimately show ?thesis by (rule that)
    qed
  qed
qed

lemma RemoveRequest_queue:
  assumes "pool_inv inspector n rp"
  obtains rp' ok where "RemoveRequest rp info = Inr (rp', ok)"
    "queueRemove inspector (queueOf n rp) info = (queueOf n rp', ok)" "info \<in> set (rp_delMap rp')"
  using assms
proof (cases rule: RemoveRequest_cases [where info = info])
  case absent
  then show ?thesis
    by (intro that [of "moveToDelSlice rp info" False])
      (auto simp: queueRemove_def queueOf_def contents_def Capacity_def intro!: filter_True)
next
  case (present rp')
  have "Capacity rp' = Capacity rp" using present(3,6) assms by (simp add: pool_inv_def Capacity_def)
  then show ?thesis using present by (intro that [of rp' True]) (simp_all add: queueRemove_def queueOf_def)
qed

lemma Pool_Close_queue:
  assumes "pool_inv inspector n rp"
  shows "\<exists>rp'. Pool_Close rp = Inr rp' \<and> queueClose inspector (queueOf n rp) = queueOf n rp'"
proof -
  obtain rp' where r: "Pool_Close rp = Inr rp'" "pool_inv inspector n rp'" "rp_closed rp'" "contents rp' = []"
    "set (rp_delMap rp') = inspector ` set (contents rp) \<union> set (rp_delMap rp)" "rp_options rp' = rp_options rp"
    using Pool_Close_inv [OF assms] by blast
  have "Capacity rp' = Capacity rp" using r(2,6) assms by (simp add: pool_inv_def Capacity_def)
  then show ?thesis using r by (simp add: queueClose_def queueOf_def)
qed

lemma Submit_steps:
  assumes "Submit inspector rp request = Inr (rp', err)"
  shows "(pool_step inspector)\<^sup>*\<^sup>* (n, rp) (n, rp')"
proof -
  have "rp' = rp \<or> (\<exists>rp1. semaphoreAcquire rp = Some rp1 \<and> submitLocked inspector rp1 request = Inr (rp', err))"
    using assms by (auto simp: Submit_def split: option.splits)
  then show ?thesis
    by (meson pool_step.acquire pool_step.insert r_into_rtranclp rtranclp.rtrancl_into_rtrancl rtranclp.rtrancl_refl)
qed

text \<open>
  C19: the pool refines a bounded FIFO queue without repetitions. In every state the pool reaches, a submission is
  accepted at the end of the queue or refused, with the error, exactly as the queue does: it is accepted if
  the pool is open, the request is not too big, its info is neither pending nor processed, and there is room. A
  removal takes out exactly the request with that info, keeps the order of the others, reports whether it was
  there, and makes the pool refuse a later submission with the same info; closing empties the queue.
\<close>

theorem pool_refines_queue:
  assumes "(pool_step inspector)\<^sup>*\<^sup>* (0, NewPool options) (n, rp)" "0 \<le> po_QueueSize options" "length request < 2 ^ 64"
  shows "(\<exists>rp' err. Submit inspector rp request = Inr (rp', err) \<and>
           (pool_step inspector)\<^sup>*\<^sup>* (0, NewPool options) (n, rp') \<and>
           queueSubmit inspector (queueOf n rp) request = (queueOf n rp', err)) \<and>
         (\<exists>rp' ok. RemoveRequest rp info = Inr (rp', ok) \<and>
           queueRemove inspector (queueOf n rp) info = (queueOf n rp', ok) \<and>
           (\<forall>req. inspector req = info \<longrightarrow> (\<exists>err. Submit inspector rp' req = Inr (rp', Some err)))) \<and>
         (\<exists>rp'. Pool_Close rp = Inr rp' \<and> queueClose inspector (queueOf n rp) = queueOf n rp')"
proof (intro conjI)
  have inv: "pool_inv inspector n rp" by (rule pool_reachable_inv [OF assms(1,2)])
  obtain rp' err where s: "Submit inspector rp request = Inr (rp', err)"
    "queueSubmit inspector (queueOf n rp) request = (queueOf n rp', err)"
    using Submit_queue [OF inv assms(3)] .
  then show "\<exists>rp' err. Submit inspector rp request = Inr (rp', err) \<and>
           (pool_step inspector)\<^sup>*\<^sup>* (0, NewPool options) (n, rp') \<and>
           queueSubmit inspector (queueOf n rp) request = (queueOf n rp', err)"
    using Submit_steps [OF s(1)] assms(1) rtranclp_trans by metis
  obtain rp' ok where r: "RemoveRequest rp info = Inr (rp', ok)"
    "queueRemove inspector (queueOf n rp) info = (queueOf n rp', ok)" "info \<in> set (rp_delMap rp')"
    using RemoveRequest_queue [OF inv] .
  have "\<exists>err. Submit inspector rp' req = Inr (rp', Some err)" if "inspector req = info" for req
    using r(3) that by (auto simp: Submit_def submitCheck_def Let_def)
  then show "\<exists>rp' ok. RemoveRequest rp info = Inr (rp', ok) \<and>
           queueRemove inspector (queueOf n rp) info = (queueOf n rp', ok) \<and>
           (\<forall>req. inspector req = info \<longrightarrow> (\<exists>err. Submit inspector rp' req = Inr (rp', Some err)))"
    using r by blast
  show "\<exists>rp'. Pool_Close rp = Inr rp' \<and> queueClose inspector (queueOf n rp) = queueOf n rp'"
    using Pool_Close_queue [OF inv] .
qed

text \<open>
  The pool with the requests \<open>[1]\<close> and \<open>[]\<close> is full: a third request is refused for want of room; when \<open>[1]\<close> is removed,
  \<open>[]\<close> remains. A pool with \<open>[1]\<close> alone accepts \<open>[]\<close> behind it.
\<close>

definition onePending :: Pool where
  "onePending = inserted [1] (acquired (NewPool exampleOptions))"

lemma onePending_reached: "(pool_step exampleInspector)\<^sup>*\<^sup>* (0, NewPool exampleOptions) (0, onePending)"
proof -
  have "pool_step exampleInspector (0, NewPool exampleOptions) (1, acquired (NewPool exampleOptions))"
    unfolding One_nat_def by (rule acquired_step) code_simp
  moreover have "pool_step exampleInspector (1, acquired (NewPool exampleOptions)) (0, onePending)"
    unfolding One_nat_def onePending_def by (rule inserted_step) code_simp
  ultimately show ?thesis by (meson converse_rtranclp_into_rtranclp rtranclp.rtrancl_refl)
qed

lemma examplePool_queues:
  "queueOf 0 onePending = \<lparr>q_pending = [[1]], q_processed = {}, q_closed = False, q_maxBytes = 8, q_room = 2\<rparr>"
  "queueOf 0 twoPending = \<lparr>q_pending = [[1], []], q_processed = {}, q_closed = False, q_maxBytes = 8, q_room = 2\<rparr>"
proof -
  have "contents onePending = [[1]]" "rp_delMap onePending = []" "\<not> rp_closed onePending"
    "unat (po_RequestMaxBytes (rp_options onePending)) = 8" "Capacity onePending = 2"
    by code_simp+
  then show "queueOf 0 onePending = \<lparr>q_pending = [[1]], q_processed = {}, q_closed = False, q_maxBytes = 8, q_room = 2\<rparr>"
    by (simp add: queueOf_def)
  have "contents twoPending = [[1], []]" "rp_delMap twoPending = []" "\<not> rp_closed twoPending"
    "unat (po_RequestMaxBytes (rp_options twoPending)) = 8" "Capacity twoPending = 2"
    by code_simp+
  then show "queueOf 0 twoPending = \<lparr>q_pending = [[1], []], q_processed = {}, q_closed = False, q_maxBytes = 8, q_room = 2\<rparr>"
    by (simp add: queueOf_def)
qed

theorem pool_refines_queue_witness:
  "(\<exists>rp'. Submit exampleInspector onePending [] = Inr (rp', None) \<and> contents rp' = [[1], []]) \<and>
   (\<exists>rp'. Submit exampleInspector twoPending [3] = Inr (rp', Some ErrSemaphore) \<and> contents rp' = [[1], []]) \<and>
   (\<exists>rp'. RemoveRequest twoPending (exampleInspector [1]) = Inr (rp', True) \<and> contents rp' = [[]] \<and>
     (\<exists>err. Submit exampleInspector rp' [2] = Inr (rp', Some err)))"
proof (intro conjI)
  have size: "0 \<le> po_QueueSize exampleOptions" by (simp add: exampleOptions_def)
  note one = pool_refines_queue [OF onePending_reached size, of "[]" "exampleInspector []"]
  note two = pool_refines_queue [OF twoPending_reached size, of "[3]" "exampleInspector [1]"]
  show "\<exists>rp'. Submit exampleInspector onePending [] = Inr (rp', None) \<and> contents rp' = [[1], []]"
    using one unfolding examplePool_queues by (auto simp: queueSubmit_def queueOf_def exampleInspector_def)
  show "\<exists>rp'. Submit exampleInspector twoPending [3] = Inr (rp', Some ErrSemaphore) \<and> contents rp' = [[1], []]"
    using two unfolding examplePool_queues by (auto simp: queueSubmit_def queueOf_def exampleInspector_def)
  show "\<exists>rp'. RemoveRequest twoPending (exampleInspector [1]) = Inr (rp', True) \<and> contents rp' = [[]] \<and>
     (\<exists>err. Submit exampleInspector rp' [2] = Inr (rp', Some err))"
    using two unfolding examplePool_queues by (auto simp: queueRemove_def queueOf_def exampleInspector_def)
qed

subsection \<open>Batches\<close>

lemma takeBatch_spec:
  fixes max :: u64
  assumes "takeBatch n max tot items batch = (out, tot', stop)"
    and "unat tot + sum_list (map (length \<circ> ri_request) items) < 2 ^ 64"
  shows "\<exists>k \<le> min n (length items). out = batch @ take k (map ri_request items) \<and>
    unat tot' = unat tot + sum_list (map length (take k (map ri_request items))) \<and>
    (tot \<le> max \<longrightarrow> tot' \<le> max) \<and>
    (stop \<longrightarrow> k < length items \<and> unat max < unat tot' + length (ri_request (items ! k))) \<and>
    (\<not> stop \<longrightarrow> k = min n (length items))"
  using assms
proof (induction n max tot items batch arbitrary: out tot' stop rule: takeBatch.induct)
  case (1 n max tot item items batch)
  let ?l = "length (ri_request item)"
  have small: "unat tot + ?l < 2 ^ 64" using 1(3) by simp
  then have add: "unat (tot + of_nat ?l) = unat tot + ?l"
    by (simp add: unat_word_ariths unat_of_nat)
  show ?case
  proof (cases "tot + of_nat ?l > max")
    case True
    then have "out = batch" "tot' = tot" "stop" using 1(2) by (simp_all add: Let_def)
    moreover have "unat max < unat tot + ?l" using True add by (simp add: word_less_nat_alt)
    ultimately show ?thesis by (intro exI [of _ 0]) auto
  next
    case False
    have "\<exists>k \<le> min n (length items). out = (batch @ [ri_request item]) @ take k (map ri_request items) \<and>
      unat tot' = unat (tot + of_nat ?l) + sum_list (map length (take k (map ri_request items))) \<and>
      (tot + of_nat ?l \<le> max \<longrightarrow> tot' \<le> max) \<and>
      (stop \<longrightarrow> k < length items \<and> unat max < unat tot' + length (ri_request (items ! k))) \<and>
      (\<not> stop \<longrightarrow> k = min n (length items))"
      using 1(2,3) False add by (intro 1(1) [OF refl refl]) (auto simp: Let_def)
    then obtain k where "k \<le> min n (length items) \<and>
      out = (batch @ [ri_request item]) @ take k (map ri_request items) \<and>
      unat tot' = unat (tot + of_nat ?l) + sum_list (map length (take k (map ri_request items))) \<and>
      (tot + of_nat ?l \<le> max \<longrightarrow> tot' \<le> max) \<and>
      (stop \<longrightarrow> k < length items \<and> unat max < unat tot' + length (ri_request (items ! k))) \<and>
      (\<not> stop \<longrightarrow> k = min n (length items))" by blast
    then show ?thesis using False add by (intro exI [of _ "Suc k"]) auto
  qed
qed auto

lemma NextRequests_batch:
  assumes "0 \<le> maxCount" "totalBytes (rp_fifo rp) < 2 ^ 64"
    and "\<not> (check \<and> int (length (rp_existMap rp)) < maxCount \<and> rp_sizeBytes rp < maxSizeBytes)"
  obtains k full where "NextRequests rp maxCount maxSizeBytes check = Inr (take k (contents rp), full)"
    "k \<le> length (contents rp)" "int k \<le> maxCount"
    "sum_list (map length (take k (contents rp))) \<le> unat maxSizeBytes"
    "\<not> full \<Longrightarrow> k = length (contents rp)"
    "full \<Longrightarrow> int k = maxCount \<or> sum_list (map length (take k (contents rp))) = unat maxSizeBytes \<or>
      (k < length (contents rp) \<and> unat maxSizeBytes < sum_list (map length (take (Suc k) (contents rp))))"
proof -
  let ?n = "nat (min (int (length (rp_fifo rp))) maxCount)"
  let ?items = "map snd (rp_fifo rp)"
  have c: "map ri_request ?items = contents rp" by (simp add: contents_def case_prod_unfold)
  then have len: "length (contents rp) = length (rp_fifo rp)" by (simp add: contents_def)
  have bytes: "sum_list (map (length \<circ> ri_request) ?items) < 2 ^ 64"
    using assms(2) by (simp add: totalBytes_def case_prod_unfold o_def)
  obtain out tot stop where t: "takeBatch ?n maxSizeBytes 0 ?items [] = (out, tot, stop)"
    by (metis prod_cases3)
  obtain k where k: "k \<le> min ?n (length (rp_fifo rp))" "out = take k (contents rp)"
    "unat tot = sum_list (map length (take k (contents rp)))" "tot \<le> maxSizeBytes"
    "stop \<longrightarrow> k < length (rp_fifo rp) \<and> unat maxSizeBytes < unat tot + length (ri_request (?items ! k))"
    "\<not> stop \<longrightarrow> k = min ?n (length (rp_fifo rp))"
    using takeBatch_spec [OF t] bytes unfolding c by (simp, metis)
  have res: "NextRequests rp maxCount maxSizeBytes check =
      Inr (out, stop \<or> tot \<ge> maxSizeBytes \<or> int (length out) = maxCount)"
    using assms(1,3) t by (auto simp: NextRequests_def Let_def split: bool.split)
  have nth: "contents rp ! k = ri_request (?items ! k)" if "k < length (rp_fifo rp)"
    using c that by (metis length_map nth_map)
  show ?thesis
  proof (rule that [of k "stop \<or> tot \<ge> maxSizeBytes \<or> int (length out) = maxCount"])
    show "int k = maxCount \<or> sum_list (map length (take k (contents rp))) = unat maxSizeBytes \<or>
        (k < length (contents rp) \<and> unat maxSizeBytes < sum_list (map length (take (Suc k) (contents rp))))"
      if "stop \<or> tot \<ge> maxSizeBytes \<or> int (length out) = maxCount"
      using that k len nth by (auto simp: take_Suc_conv_app_nth)
  qed (use res k len assms(1) in \<open>auto simp: word_le_nat_alt\<close>)
qed

text \<open>
  A batch is a prefix of the queue of at most \<open>maxCount\<close> requests and at most \<open>maxSizeBytes\<close>
  bytes, \<open>full\<close> is false only when it holds every pending request, and \<open>full\<close> is true
  only when it cannot grow: the count or the size is reached, or the next request would exceed the size.
  A pending first request that fits is always part of the batch. The byte count must not wrap around.
\<close>

theorem NextRequests_batch_spec:
  assumes "0 < maxCount" "sum_list (map length (contents rp)) < 2 ^ 64"
  shows "\<exists>k full. NextRequests rp maxCount maxSizeBytes False = Inr (take k (contents rp), full) \<and>
    int k \<le> maxCount \<and> k \<le> length (contents rp) \<and>
    sum_list (map length (take k (contents rp))) \<le> unat maxSizeBytes \<and>
    (\<not> full \<longrightarrow> take k (contents rp) = contents rp) \<and>
    (full \<longrightarrow> int k = maxCount \<or> sum_list (map length (take k (contents rp))) = unat maxSizeBytes \<or>
       (k < length (contents rp) \<and> unat maxSizeBytes < sum_list (map length (take (Suc k) (contents rp))))) \<and>
    (contents rp \<noteq> [] \<longrightarrow> length (hd (contents rp)) \<le> unat maxSizeBytes \<longrightarrow> 0 < unat maxSizeBytes \<longrightarrow> 0 < k)"
proof -
  have tb: "totalBytes (rp_fifo rp) < 2 ^ 64"
    using assms(2) by (simp add: totalBytes_def contents_def case_prod_unfold o_def)
  obtain k full where k: "NextRequests rp maxCount maxSizeBytes False = Inr (take k (contents rp), full)"
    "k \<le> length (contents rp)" "int k \<le> maxCount"
    "sum_list (map length (take k (contents rp))) \<le> unat maxSizeBytes"
    "\<not> full \<Longrightarrow> k = length (contents rp)"
    "full \<Longrightarrow> int k = maxCount \<or> sum_list (map length (take k (contents rp))) = unat maxSizeBytes \<or>
      (k < length (contents rp) \<and> unat maxSizeBytes < sum_list (map length (take (Suc k) (contents rp))))"
    by (rule NextRequests_batch [OF order_less_imp_le [OF assms(1)] tb, of False maxSizeBytes]) (simp, rule that)
  have "0 < k" if "contents rp \<noteq> []" "length (hd (contents rp)) \<le> unat maxSizeBytes" "0 < unat maxSizeBytes"
  proof (rule ccontr)
    assume "\<not> 0 < k"
    then show False using that k(5,6) assms(1) by (cases "contents rp"; cases full) auto
  qed
  then show ?thesis using k by (intro exI [of _ k] exI [of _ full]) auto
qed

theorem NextRequests_batch_spec_witness:
  "\<exists>k full. NextRequests (NewPool exampleOptions) 1 5 False =
     Inr (take k (contents (NewPool exampleOptions)), full)"
  using NextRequests_batch_spec [of 1 "NewPool exampleOptions" 5]
  by (auto simp: contents_def NewPool_def)

end
