(* ===== verification/Batching.thy ===== *)
theory Batching
  imports RequestPool Config
begin

text \<open>
  The batch builder of internal/bft/batcher.go.

  \<open>NextBatch\<close> waits on three channels. The model takes the sequence of events its \<open>select\<close>
  observes; a timeout or a submission carries the pool as it is when the event is handled,
  because other goroutines change the pool in between. The pool is reached through the function
  \<open>NextRequests\<close> of its interface, so the results are proved from the contract \<open>batch_source\<close>.
\<close>

record BatchBuilder =
  bb_maxMsgCount :: int
  bb_maxSizeBytes :: u64
  bb_batchTimeout :: int
  bb_closed :: bool

definition NewBatchBuilder :: "u64 \<Rightarrow> u64 \<Rightarrow> int \<Rightarrow> BatchBuilder" where
  "NewBatchBuilder maxMsgCount maxSizeBytes batchTimeout =
     \<lparr>bb_maxMsgCount = sint maxMsgCount, bb_maxSizeBytes = maxSizeBytes,
      bb_batchTimeout = batchTimeout, bb_closed = False\<rparr>"

datatype 'p batchEvent = CloseSignal | BatchTimeout 'p | Submitted 'p

type_synonym 'p nextRequests = "'p \<Rightarrow> int \<Rightarrow> u64 \<Rightarrow> bool \<Rightarrow> (bytes list \<times> bool) outcome"

fun batchLoop :: "'p nextRequests \<Rightarrow> BatchBuilder \<Rightarrow> 'p batchEvent list \<Rightarrow> bytes list outcome" where
  "batchLoop nextReqs b [] = Inl (Blocked ''NextBatch'')"
| "batchLoop nextReqs b (CloseSignal # events) = Inr []"
| "batchLoop nextReqs b (BatchTimeout pool # events) =
     andThen (nextReqs pool (bb_maxMsgCount b) (bb_maxSizeBytes b) False) (\<lambda>(currBatch, _). Inr currBatch)"
| "batchLoop nextReqs b (Submitted pool # events) =
     andThen (nextReqs pool (bb_maxMsgCount b) (bb_maxSizeBytes b) True)
       (\<lambda>(currBatch, full). if full then Inr currBatch else batchLoop nextReqs b events)"

definition NextBatch :: "'p nextRequests \<Rightarrow> BatchBuilder \<Rightarrow> 'p \<Rightarrow> 'p batchEvent list \<Rightarrow> bytes list outcome" where
  "NextBatch nextReqs b pool events =
     andThen (nextReqs pool (bb_maxMsgCount b) (bb_maxSizeBytes b) True)
       (\<lambda>(currBatch, full). if full then Inr currBatch else batchLoop nextReqs b events)"

text \<open>Closing a closed builder does nothing (closing a closed channel would panic).\<close>

definition BatchBuilder_Close :: "BatchBuilder \<Rightarrow> BatchBuilder" where
  "BatchBuilder_Close b = (if bb_closed b then b else b\<lparr>bb_closed := True\<rparr>)"

definition BatchBuilder_Closed :: "BatchBuilder \<Rightarrow> bool" where
  "BatchBuilder_Closed b = bb_closed b"

definition BatchBuilder_Reset :: "BatchBuilder \<Rightarrow> BatchBuilder" where
  "BatchBuilder_Reset b = b\<lparr>bb_closed := False\<rparr>"

fun observed :: "'p batchEvent list \<Rightarrow> 'p list" where
  "observed [] = []"
| "observed (CloseSignal # events) = observed events"
| "observed (BatchTimeout p # events) = p # observed events"
| "observed (Submitted p # events) = p # observed events"

fun submissions :: "'p batchEvent list \<Rightarrow> bool" where
  "submissions [] = True"
| "submissions (Submitted p # events) = submissions events"
| "submissions (e # events) = False"

subsection \<open>The contract of a source of batches\<close>

definition batchBytes :: "bytes list \<Rightarrow> nat" where
  "batchBytes batch = sum_list (map length batch)"

locale batch_source =
  fixes pending :: "'p \<Rightarrow> bytes list"
    and nextReqs :: "'p nextRequests"
    and invar :: "'p \<Rightarrow> bool"
  assumes next_total: "invar p \<Longrightarrow> 0 \<le> c \<Longrightarrow> \<exists>batch full. nextReqs p c m chk = Inr (batch, full)"
    and next_bounded: "invar p \<Longrightarrow> 0 \<le> c \<Longrightarrow> nextReqs p c m chk = Inr (batch, full) \<Longrightarrow>
      prefix batch (pending p) \<and> int (length batch) \<le> c \<and> batchBytes batch \<le> unat m"
    and full_nonempty: "invar p \<Longrightarrow> 0 < c \<Longrightarrow> 0 < m \<Longrightarrow> (\<forall>r\<in>set (pending p). length r \<le> unat m) \<Longrightarrow>
      nextReqs p c m chk = Inr (batch, True) \<Longrightarrow> batch \<noteq> []"
    and unchecked_all: "invar p \<Longrightarrow> 0 \<le> c \<Longrightarrow> nextReqs p c m False = Inr (batch, False) \<Longrightarrow>
      batch = pending p"
begin

lemma batchLoop_bounded:
  assumes "\<forall>p\<in>set (observed events). invar p" "0 \<le> bb_maxMsgCount b"
    and "batchLoop nextReqs b events = Inr batch"
  shows "(batch = [] \<or> (\<exists>p\<in>set (observed events). prefix batch (pending p))) \<and>
    int (length batch) \<le> bb_maxMsgCount b \<and> batchBytes batch \<le> unat (bb_maxSizeBytes b)"
  using assms
proof (induction events rule: observed.induct)
  case (3 p events)
  obtain cb full where r: "nextReqs p (bb_maxMsgCount b) (bb_maxSizeBytes b) False = Inr (cb, full)"
    using next_total 3(2,3) by fastforce
  then show ?case using 3(2-4) next_bounded [OF _ _ r] by auto
next
  case (4 p events)
  obtain cb full where r: "nextReqs p (bb_maxMsgCount b) (bb_maxSizeBytes b) True = Inr (cb, full)"
    using next_total 4(2,3) by fastforce
  show ?case
  proof (cases full)
    case True
    then show ?thesis using 4(2-4) r next_bounded [OF _ _ r] by auto
  next
    case False
    then show ?thesis using 4 r by auto
  qed
qed (auto simp: batchBytes_def)

lemma batchLoop_returns:
  assumes "\<forall>p\<in>set (observed events). invar p" "0 \<le> bb_maxMsgCount b" "\<not> submissions events"
  shows "\<exists>batch. batchLoop nextReqs b events = Inr batch"
  using assms
proof (induction events rule: observed.induct)
  case (3 p events)
  then show ?case using next_total [of p "bb_maxMsgCount b" "bb_maxSizeBytes b" False] by auto
next
  case (4 p events)
  then show ?case using next_total [of p "bb_maxMsgCount b" "bb_maxSizeBytes b" True] by auto
qed auto

lemma batchLoop_nonempty:
  assumes "\<forall>p\<in>set (observed (events @ [BatchTimeout q])). invar p \<and>
      (\<forall>r\<in>set (pending p). length r \<le> unat (bb_maxSizeBytes b))"
    and "0 < bb_maxMsgCount b" "0 < bb_maxSizeBytes b" "submissions events" "pending q \<noteq> []"
  shows "\<exists>batch. batchLoop nextReqs b (events @ BatchTimeout q # rest) = Inr batch \<and> batch \<noteq> []"
  using assms
proof (induction events rule: submissions.induct)
  case 1
  obtain cb full where r: "nextReqs q (bb_maxMsgCount b) (bb_maxSizeBytes b) False = Inr (cb, full)"
    using next_total 1(1,2) by fastforce
  have "cb \<noteq> []"
  proof (cases full)
    case True
    then show ?thesis using full_nonempty [of q "bb_maxMsgCount b" "bb_maxSizeBytes b" False cb] 1 r by simp
  next
    case False
    then show ?thesis using unchecked_all [of q "bb_maxMsgCount b" "bb_maxSizeBytes b" cb] 1 r by simp
  qed
  then show ?case using r by simp
next
  case (2 p events)
  obtain cb full where r: "nextReqs p (bb_maxMsgCount b) (bb_maxSizeBytes b) True = Inr (cb, full)"
    using next_total 2(2,3) by fastforce
  show ?case
  proof (cases full)
    case True
    then show ?thesis
      using full_nonempty [of p "bb_maxMsgCount b" "bb_maxSizeBytes b" True cb] 2(2-4) r by simp
  next
    case False
    then show ?thesis using 2 r by simp
  qed
qed auto

text \<open>The first call of \<open>NextBatch\<close> is one more submission event.\<close>

lemma NextBatch_batchLoop: "NextBatch nextReqs b p events = batchLoop nextReqs b (Submitted p # events)"
  by (simp add: NextBatch_def)

end

subsection \<open>The request pool is a source of batches\<close>

definition bytesFit :: "Pool \<Rightarrow> bool" where
  "bytesFit rp \<longleftrightarrow> totalBytes (rp_fifo rp) < 2 ^ 64"

lemma NextRequests_checked:
  "check \<and> int (length (rp_existMap rp)) < maxCount \<and> rp_sizeBytes rp < maxSizeBytes \<Longrightarrow>
   NextRequests rp maxCount maxSizeBytes check = Inr ([], False)"
  by (simp add: NextRequests_def)

lemma NextRequests_total:
  assumes "bytesFit rp" "0 \<le> c"
  shows "\<exists>batch full. NextRequests rp c m check = Inr (batch, full)"
proof (cases "check \<and> int (length (rp_existMap rp)) < c \<and> rp_sizeBytes rp < m")
  case True
  then show ?thesis using NextRequests_checked by blast
next
  case False
  show ?thesis by (rule NextRequests_batch [OF assms(2) _ False]) (use assms(1) in \<open>auto simp: bytesFit_def\<close>)
qed

lemma NextRequests_bounded:
  assumes "bytesFit rp" "0 \<le> c" "NextRequests rp c m check = Inr (batch, full)"
  shows "prefix batch (contents rp) \<and> int (length batch) \<le> c \<and> batchBytes batch \<le> unat m"
proof (cases "check \<and> int (length (rp_existMap rp)) < c \<and> rp_sizeBytes rp < m")
  case True
  then show ?thesis using NextRequests_checked [OF True] assms(2,3) by (simp add: batchBytes_def)
next
  case False
  show ?thesis
    by (rule NextRequests_batch [OF assms(2) _ False])
      (use assms(1,3) in \<open>auto simp: bytesFit_def batchBytes_def take_is_prefix\<close>)
qed

lemma NextRequests_full_nonempty:
  assumes "bytesFit rp" "0 < c" "0 < m" "\<forall>r\<in>set (contents rp). length r \<le> unat m"
    and "NextRequests rp c m check = Inr (batch, True)"
  shows "batch \<noteq> []"
proof
  assume e: "batch = []"
  have nc: "\<not> (check \<and> int (length (rp_existMap rp)) < c \<and> rp_sizeBytes rp < m)"
    using NextRequests_checked [of check rp c m] assms(5) by auto
  have m: "0 < unat m" using assms(3) by (simp add: word_less_nat_alt)
  have c: "0 \<le> c" using assms(2) by simp
  show False
  proof (rule NextRequests_batch [OF c _ nc])
    show "totalBytes (rp_fifo rp) < 2 ^ 64" using assms(1) by (simp add: bytesFit_def)
    fix k full
    assume k: "NextRequests rp c m check = Inr (take k (contents rp), full)" "k \<le> length (contents rp)"
      and f: "full \<Longrightarrow> int k = c \<or> sum_list (map length (take k (contents rp))) = unat m \<or>
         k < length (contents rp) \<and> unat m < sum_list (map length (take (Suc k) (contents rp)))"
    have "take k (contents rp) = []" full using k(1) assms(5) e by auto
    then show False using f k(2) m assms(2,4) by (cases "contents rp") auto
  qed
qed

lemma NextRequests_unchecked_all:
  assumes "bytesFit rp" "0 \<le> c" "NextRequests rp c m False = Inr (batch, False)"
  shows "batch = contents rp"
  by (rule NextRequests_batch [OF assms(2), of rp False m])
    (use assms(1,3) in \<open>auto simp: bytesFit_def\<close>)

interpretation pool: batch_source contents NextRequests bytesFit
  by unfold_locales (fact NextRequests_total NextRequests_bounded NextRequests_full_nonempty
      NextRequests_unchecked_all)+

text \<open>
  C28: \<open>NextBatch\<close> returns as soon as it sees the timeout or the close signal, whatever
  submissions come before, and the batch it returns is empty or a prefix of the pool at one
  of the moments it looked, with at most the configured number of requests and bytes.
\<close>

theorem NextBatch_bounded_prefix:
  assumes "\<forall>q\<in>set (p # observed events). bytesFit q" "0 \<le> bb_maxMsgCount b" "\<not> submissions events"
  shows "\<exists>batch. NextBatch NextRequests b p events = Inr batch \<and>
    (batch = [] \<or> (\<exists>q\<in>set (p # observed events). prefix batch (contents q))) \<and>
    int (length batch) \<le> bb_maxMsgCount b \<and> batchBytes batch \<le> unat (bb_maxSizeBytes b)"
proof -
  obtain batch where r: "batchLoop NextRequests b (Submitted p # events) = Inr batch"
    using pool.batchLoop_returns [of "Submitted p # events" b] assms by auto
  then show ?thesis
    using pool.batchLoop_bounded [of "Submitted p # events" b batch] assms(1,2)
    unfolding pool.NextBatch_batchLoop by simp
qed

definition examplePool :: Pool where
  "examplePool = (NewPool exampleOptions)\<lparr>rp_fifo := [(0, \<lparr>ri_request = [1, 2], ri_timeout = ForwardTimer\<rparr>)],
     rp_existMap := [(exampleInspector [1, 2], 0)], rp_sizeBytes := 2, rp_semaphore := 1,
     rp_nextElement := 1\<rparr>"

theorem NextBatch_bounded_prefix_witness:
  "\<exists>batch. NextBatch NextRequests (NewBatchBuilder 2 8 50) examplePool
      [Submitted examplePool, BatchTimeout examplePool] = Inr batch \<and>
    int (length batch) \<le> 2 \<and> batchBytes batch \<le> 8"
  using NextBatch_bounded_prefix [of examplePool "[Submitted examplePool, BatchTimeout examplePool]"
      "NewBatchBuilder 2 8 50"]
  by (auto simp: NewBatchBuilder_def bytesFit_def totalBytes_def examplePool_def)

text \<open>
  C27: with a configuration \<open>Validate\<close> accepts, a leader whose pool holds a request when the
  batch timeout fires gets a non-empty batch: no pending request of an admissible size can hold up the
  queue. (The request count limit must fit an \<open>int\<close>.)
\<close>

theorem NextBatch_progress:
  assumes "Validate c = None" "RequestBatchMaxCount c < 2 ^ 63"
    and "b = NewBatchBuilder (RequestBatchMaxCount c) (RequestBatchMaxBytes c) (RequestBatchMaxInterval c)"
    and "\<forall>q\<in>set (p # observed events @ [q0]). bytesFit q \<and>
      (\<forall>r\<in>set (contents q). length r \<le> unat (RequestMaxBytes c))"
    and "submissions events" "contents q0 \<noteq> []"
  shows "\<exists>batch. NextBatch NextRequests b p (events @ BatchTimeout q0 # rest) = Inr batch \<and> batch \<noteq> []"
proof -
  note v = Validate_None [OF assms(1)]
  have lim: "unat (RequestMaxBytes c) \<le> unat (bb_maxSizeBytes b)" "0 < bb_maxSizeBytes b"
    using v(1,3) assms(3) by (auto simp: NewBatchBuilder_def word_le_nat_alt word_less_nat_alt)
  have "sint (RequestBatchMaxCount c) = int (unat (RequestBatchMaxCount c))"
    using assms(2) sint_of_nat_small [of "unat (RequestBatchMaxCount c)"] by (simp add: word_less_nat_alt)
  then have cnt: "0 < bb_maxMsgCount b"
    using v(2) assms(3) by (simp add: NewBatchBuilder_def word_less_def)
  have obs: "observed (events @ [BatchTimeout q0]) = observed events @ [q0]"
    by (induction events rule: observed.induct) auto
  have "\<forall>q\<in>set (observed ((Submitted p # events) @ [BatchTimeout q0])). bytesFit q \<and>
      (\<forall>r\<in>set (contents q). length r \<le> unat (bb_maxSizeBytes b))"
    using assms(4) obs by (fastforce intro: order_trans [OF _ lim(1)])
  then show ?thesis
    using pool.batchLoop_nonempty [of "Submitted p # events" q0 b rest] assms(5,6) cnt lim(2)
    unfolding pool.NextBatch_batchLoop by simp
qed

theorem NextBatch_progress_witness:
  "\<exists>batch. NextBatch NextRequests (NewBatchBuilder 100 (10 * 1024 * 1024) (50 * 1000000)) examplePool
      [Submitted examplePool, BatchTimeout examplePool] = Inr batch \<and> batch \<noteq> []"
  using NextBatch_progress [of "DefaultConfig\<lparr>SelfID := 2\<rparr>" _ examplePool "[Submitted examplePool]" examplePool "[]"]
  by (simp add: Validate_def DefaultConfig_def bytesFit_def totalBytes_def examplePool_def contents_def)

text \<open>
  A request at the head of the queue that is larger than the batch limit yields an empty
  full batch as long as it stays there, however many other requests wait behind it. The limit can
  become smaller than a pending request when a reconfiguration replaces the batch builder.
\<close>

theorem oversized_head_blocks_batches:
  assumes "contents rp = r # rs" "length r < 2 ^ 64" "unat (bb_maxSizeBytes b) < length r"
    and "int (length (rp_existMap rp)) \<ge> bb_maxMsgCount b \<or> rp_sizeBytes rp \<ge> bb_maxSizeBytes b"
    and "0 < bb_maxMsgCount b"
  shows "NextBatch NextRequests b rp events = Inr []"
proof -
  obtain e item rest where f: "rp_fifo rp = (e, item) # rest" "ri_request item = r"
    using assms(1) by (cases "rp_fifo rp") (auto simp: contents_def)
  have "unat (of_nat (length r) :: u64) = length r" using assms(2) by (rule unat_of_nat_small)
  then have big: "of_nat (length r) > bb_maxSizeBytes b" using assms(3) by (simp add: word_less_nat_alt)
  obtain n where n: "nat (min (int (length (rp_fifo rp))) (bb_maxMsgCount b)) = Suc n"
    using f(1) assms(5) by (cases "nat (min (int (length (rp_fifo rp))) (bb_maxMsgCount b))") auto
  have "NextRequests rp (bb_maxMsgCount b) (bb_maxSizeBytes b) True = Inr ([], True)"
    using assms(4,5) n f big by (auto simp: NextRequests_def Let_def)
  then show ?thesis by (simp add: NextBatch_def)
qed

theorem oversized_head_blocks_batches_witness:
  "NextBatch NextRequests (NewBatchBuilder 2 1 50) examplePool [BatchTimeout examplePool] = Inr []"
  using oversized_head_blocks_batches [of examplePool "[1, 2]" "[]" "NewBatchBuilder 2 1 50"
      "[BatchTimeout examplePool]"]
  by (simp add: examplePool_def contents_def NewBatchBuilder_def)

end
