(* ===== verification/StateCollection.thy ===== *)
theory StateCollection
  imports Quorums VoteSets
begin

text \<open>
  The state collector of internal/bft/statecollector.go, which gathers the answers to a state
  transfer request until more than \<open>f\<close> nodes report the same view and sequence.

  The loop of \<open>CollectStateResponses\<close> waits on channels: its runs are given by the list of
  the events that happen, in their order. An event whose channel is not ready does not happen.
\<close>

record StateCollector =
  sc_SelfID :: u64
  sc_N :: u64
  sc_f :: int
  sc_quorum :: int
  sc_incMsgs :: "(u64 \<times> Message) list"
  sc_responses :: voteSet
  sc_stopped :: bool

fun acceptResponse :: "u64 \<Rightarrow> Message \<Rightarrow> bool" where
  "acceptResponse _ (StateTransferResponseMsg _ _) = True"
| "acceptResponse _ _ = False"

definition StateCollector_Start :: "StateCollector \<Rightarrow> StateCollector" where
  "StateCollector_Start s =
     s\<lparr>sc_incMsgs := [], sc_quorum := fst (computeQuorum (sc_N s)),
       sc_f := snd (computeQuorum (sc_N s)), sc_stopped := False,
       sc_responses := voteSet_clear (sc_N s)\<rparr>"

text \<open>
  When the collector is stopped and the buffer has room, both cases of the \<open>select\<close> are ready
  and the runtime picks one: \<open>enqueue\<close> is its choice. A message that is not a state transfer
  response panics.
\<close>

definition StateCollector_HandleMessage ::
  "bool \<Rightarrow> StateCollector \<Rightarrow> u64 \<Rightarrow> Message \<Rightarrow> StateCollector outcome" where
  "StateCollector_HandleMessage enqueue s sender m =
     (if \<not> acceptResponse sender m then Inl (Panic ''handling a message which is not a response'')
      else if sc_stopped s \<and> \<not> enqueue then Inr s
      else if length (sc_incMsgs s) < unat (sc_N s)
      then Inr (s\<lparr>sc_incMsgs := sc_incMsgs s @ [(sender, m)]\<rparr>)
      else Inr s)"

definition ClearCollected :: "StateCollector \<Rightarrow> StateCollector" where
  "ClearCollected s = s\<lparr>sc_incMsgs := []\<rparr>"

fun responseOf :: "Message \<Rightarrow> ViewAndSeq option" where
  "responseOf (StateTransferResponseMsg view seq) = Some \<lparr>vs_View = view, vs_Seq = seq\<rparr>"
| "responseOf _ = None"

text \<open>
  The histogram of the collected answers. The map is searched in the order of the first
  occurrence of its keys; the result does not depend on that order as long as at most one key
  exceeds \<open>f\<close>, which the loop guarantees by checking after every vote.
\<close>

definition votesFor :: "voteSet \<Rightarrow> ViewAndSeq \<Rightarrow> nat" where
  "votesFor vs x = length (filter (\<lambda>(_, m). responseOf m = Some x) (ballots vs))"

definition collectedEnoughEqualVotes :: "StateCollector \<Rightarrow> ViewAndSeq option" where
  "collectedEnoughEqualVotes s =
     (if int (length (voted (sc_responses s))) \<le> sc_f s then None
      else find (\<lambda>x. int (votesFor (sc_responses s) x) > sc_f s)
             (List.map_filter (\<lambda>(_, m). responseOf m) (ballots (sc_responses s))))"

datatype collectEvent =
    Arrive bool u64 Message   \<comment> \<open>\<open>HandleMessage\<close> runs on another goroutine\<close>
  | Receive                   \<comment> \<open>the loop receives from \<open>incMsgs\<close>\<close>
  | CollectTimeout            \<comment> \<open>the timer fires\<close>
  | StopSignal                \<comment> \<open>the stop channel is closed\<close>

datatype collectResult =
    Waiting StateCollector
  | Returned "ViewAndSeq option" StateCollector

definition receiveResponse :: "StateCollector \<Rightarrow> collectResult outcome" where
  "receiveResponse s =
     (case sc_incMsgs s of
        [] \<Rightarrow> Inr (Waiting s)
      | (sender, m) # rest \<Rightarrow>
          andThen (registerVote acceptResponse (sc_responses s) sender m)
            (\<lambda>responses.
               let s' = s\<lparr>sc_incMsgs := rest, sc_responses := responses\<rparr>
               in case collectedEnoughEqualVotes s' of
                    None \<Rightarrow> Inr (Waiting s')
                  | Some x \<Rightarrow> Inr (Returned (Some x) s')))"

fun collectLoop :: "StateCollector \<Rightarrow> collectEvent list \<Rightarrow> collectResult outcome" where
  "collectLoop s [] = Inr (Waiting s)"
| "collectLoop s (Arrive choice sender m # evs) =
     andThen (StateCollector_HandleMessage choice s sender m) (\<lambda>s'. collectLoop s' evs)"
| "collectLoop s (Receive # evs) =
     andThen (receiveResponse s)
       (\<lambda>r. case r of Waiting s' \<Rightarrow> collectLoop s' evs | Returned x s' \<Rightarrow> Inr (Returned x s'))"
| "collectLoop s (CollectTimeout # evs) = Inr (Returned None s)"
| "collectLoop s (StopSignal # evs) =
     (if sc_stopped s then Inr (Returned None s) else collectLoop s evs)"

definition CollectStateResponses ::
  "StateCollector \<Rightarrow> collectEvent list \<Rightarrow> collectResult outcome" where
  "CollectStateResponses s evs = collectLoop (s\<lparr>sc_responses := voteSet_clear (sc_N s)\<rparr>) evs"

definition StateCollector_Stop :: "StateCollector \<Rightarrow> StateCollector" where
  "StateCollector_Stop s = s\<lparr>sc_stopped := True\<rparr>"

text \<open>The messages a run can have received: those buffered at its start and those that arrive.\<close>

fun arrivals :: "collectEvent list \<Rightarrow> (u64 \<times> Message) set" where
  "arrivals [] = {}"
| "arrivals (Arrive choice sender m # evs) = insert (sender, m) (arrivals evs)"
| "arrivals (_ # evs) = arrivals evs"

definition collector_inv :: "(u64 \<times> Message) set \<Rightarrow> StateCollector \<Rightarrow> bool" where
  "collector_inv received s \<longleftrightarrow>
     voteSet_inv acceptResponse (sc_responses s) \<and>
     set (sc_incMsgs s) \<subseteq> received \<and> set (ballots (sc_responses s)) \<subseteq> received"

lemma collectedEnough_Some:
  assumes "collectedEnoughEqualVotes s = Some x" "voteSet_inv acceptResponse (sc_responses s)"
  shows "sc_f s < int (card {v. \<exists>m. (v, m) \<in> set (ballots (sc_responses s)) \<and> responseOf m = Some x})"
proof -
  have "sc_f s < int (votesFor (sc_responses s) x)"
    using assms(1) by (auto simp: collectedEnoughEqualVotes_def find_Some_iff split: if_splits)
  then show ?thesis
    unfolding votesFor_def
    using box.count_ballots_voters [OF assms(2), of "\<lambda>m. responseOf m = Some x"] by simp
qed

lemma receiveResponse_inv:
  assumes "collector_inv received s" "receiveResponse s = Inr r"
  shows "(case r of Waiting s' \<Rightarrow> collector_inv received s' \<and> sc_f s' = sc_f s
     | Returned x s' \<Rightarrow> collector_inv received s' \<and> sc_f s' = sc_f s \<and> x = collectedEnoughEqualVotes s')"
proof (cases "sc_incMsgs s")
  case Nil
  with assms show ?thesis by (auto simp: receiveResponse_def)
next
  case (Cons msg rest)
  then obtain sender m where msg: "sc_incMsgs s = (sender, m) # rest" by (cases msg) auto
  then obtain responses where
    reg: "registerVote acceptResponse (sc_responses s) sender m = Inr responses" and
    r: "r = (let s' = s\<lparr>sc_incMsgs := rest, sc_responses := responses\<rparr>
             in case collectedEnoughEqualVotes s' of None \<Rightarrow> Waiting s' | Some x \<Rightarrow> Returned (Some x) s')"
    using assms(2) by (auto simp: receiveResponse_def andThen_eq_Inr_iff Let_def split: option.splits)
  have "collector_inv received (s\<lparr>sc_incMsgs := rest, sc_responses := responses\<rparr>)"
    using assms(1) msg registerVote_inv [OF reg] box.cast_appends [OF reg]
    by (auto simp: collector_inv_def)
  then show ?thesis using r by (auto simp: Let_def split: option.splits)
qed

lemma collectLoop_returned:
  assumes "collectLoop s evs = Inr (Returned (Some x) s')" "collector_inv received s"
    and "arrivals evs \<subseteq> received"
  shows "collector_inv received s' \<and> sc_f s' = sc_f s \<and> collectedEnoughEqualVotes s' = Some x"
  using assms
proof (induction s evs rule: collectLoop.induct)
  case (2 s choice sender m evs)
  then obtain s1 where s1: "StateCollector_HandleMessage choice s sender m = Inr s1"
    "collectLoop s1 evs = Inr (Returned (Some x) s')"
    by (auto simp: andThen_eq_Inr_iff)
  then have "collector_inv received s1" "sc_f s1 = sc_f s"
    using 2(3,4) by (auto simp: StateCollector_HandleMessage_def collector_inv_def split: if_splits)
  with 2 s1 show ?case by auto
next
  case (3 s evs)
  then obtain r where r: "receiveResponse s = Inr r"
    and rest: "(case r of Waiting s1 \<Rightarrow> collectLoop s1 evs | Returned y s1 \<Rightarrow> Inr (Returned y s1)) =
      Inr (Returned (Some x) s')"
    by (auto simp: andThen_eq_Inr_iff)
  show ?case
    using receiveResponse_inv [OF 3(3) r] rest 3 r by (cases r) auto
qed (auto split: if_splits)

text \<open>No step of the loop blocks or panics while the answers come from nodes of the cluster.\<close>

definition collector_live :: "u64 list \<Rightarrow> StateCollector \<Rightarrow> bool" where
  "collector_live nodes s \<longleftrightarrow>
     voteSet_inv acceptResponse (sc_responses s) \<and>
     set (voted (sc_responses s)) \<subseteq> set nodes \<and> length nodes \<le> votesCap (sc_responses s) \<and>
     fst ` set (sc_incMsgs s) \<subseteq> set nodes"

lemma receiveResponse_live:
  assumes "collector_live nodes s"
  shows "\<exists>r. receiveResponse s = Inr r \<and>
    (case r of Waiting s' \<Rightarrow> collector_live nodes s' | Returned _ _ \<Rightarrow> True)"
proof (cases "sc_incMsgs s")
  case Nil
  with assms show ?thesis by (simp add: receiveResponse_def)
next
  case (Cons msg rest)
  obtain sender m where msg: "msg = (sender, m)" by fastforce
  then have "sender \<in> set nodes" using assms Cons by (auto simp: collector_live_def)
  then obtain responses where reg: "registerVote acceptResponse (sc_responses s) sender m = Inr responses"
    "set (voted responses) \<subseteq> set nodes"
    using registerVote_not_blocked assms by (metis collector_live_def)
  then have "collector_live nodes (s\<lparr>sc_incMsgs := rest, sc_responses := responses\<rparr>)"
    using assms Cons msg registerVote_inv [OF reg(1)] registerVote_votesCap [OF reg(1)]
    by (auto simp: collector_live_def)
  with reg(1) Cons msg show ?thesis
    by (cases "collectedEnoughEqualVotes (s\<lparr>sc_incMsgs := rest, sc_responses := responses\<rparr>)")
       (auto simp: receiveResponse_def)
qed

lemma collectLoop_live:
  assumes "collector_live nodes s"
    and "\<forall>(sender, m)\<in>arrivals evs. sender \<in> set nodes \<and> acceptResponse sender m"
  shows "\<exists>r. collectLoop s evs = Inr r"
  using assms
proof (induction s evs rule: collectLoop.induct)
  case (2 s choice sender m evs)
  then obtain s1 where "StateCollector_HandleMessage choice s sender m = Inr s1"
    "collector_live nodes s1"
    by (fastforce simp: StateCollector_HandleMessage_def collector_live_def split: if_splits)
  with 2 show ?case by auto
next
  case (3 s evs)
  obtain r where r: "receiveResponse s = Inr r"
    and live: "case r of Waiting s' \<Rightarrow> collector_live nodes s' | Returned _ _ \<Rightarrow> True"
    using receiveResponse_live [OF 3(2)] by blast
  then show ?case using 3 by (cases r) auto
qed auto

text \<open>More than \<open>f\<close> distinct nodes reported what the collector returns.\<close>

lemma collected_from_correct:
  assumes v: "validNodes nodes" and "sc_f s = snd (computeQuorum (of_nat (length nodes)))"
    and "F \<subseteq> set nodes" "int (card F) \<le> sc_f s" "CollectStateResponses s evs = Inr (Returned (Some x) s')"
  shows "\<exists>sender m. sender \<notin> F \<and> (sender, m) \<in> set (sc_incMsgs s) \<union> arrivals evs \<and> responseOf m = Some x"
proof -
  let ?received = "set (sc_incMsgs s) \<union> arrivals evs"
  have "collector_inv ?received (s\<lparr>sc_responses := voteSet_clear (sc_N s)\<rparr>)"
    by (auto simp: collector_inv_def ballots_def)
  then have end_state: "collector_inv ?received s'" "sc_f s' = sc_f s"
    "collectedEnoughEqualVotes s' = Some x"
    using collectLoop_returned [OF assms(5) [unfolded CollectStateResponses_def]] by auto
  let ?backers = "{v. \<exists>m. (v, m) \<in> set (ballots (sc_responses s')) \<and> responseOf m = Some x}"
  have "sc_f s < int (card ?backers)"
    using collectedEnough_Some [OF end_state(3)] end_state by (simp add: collector_inv_def)
  moreover have "sc_f s = int (maxFaulty nodes)"
    using assms(2,4) by (simp add: maxFaulty_def)
  ultimately obtain sender where "sender \<in> ?backers" "sender \<notin> F"
    using cluster.enough_has_correct [OF v assms(3), of ?backers] assms(4) by auto
  then show ?thesis using end_state(1) by (auto simp: collector_inv_def)
qed

subsection \<open>Properties\<close>

text \<open>
  C32: a state that the collector returns was reported by a correct node. More than \<open>f\<close>
  distinct nodes reported it, so however \<open>f\<close> faulty nodes answer, at least one of the
  reports received comes from a node outside the faulty set.
\<close>

theorem collector_result_from_correct_node:
  assumes "nodes \<noteq> []" "distinct nodes" "length nodes < 2 ^ 52"
    and "sc_f s = snd (computeQuorum (of_nat (length nodes)))"
    and "F \<subseteq> set nodes" "int (card F) \<le> sc_f s"
    and "CollectStateResponses s evs = Inr (Returned (Some x) s')"
  shows "\<exists>sender m. sender \<notin> F \<and> (sender, m) \<in> set (sc_incMsgs s) \<union> arrivals evs \<and>
    responseOf m = Some x"
  by (rule collected_from_correct [OF _ assms(4-7)]) (use assms(1-3) in \<open>simp add: validNodes_def\<close>)

definition exampleCollector :: StateCollector where
  "exampleCollector = StateCollector_Start
     \<lparr>sc_SelfID = 1, sc_N = 4, sc_f = 0, sc_quorum = 0, sc_incMsgs = [],
      sc_responses = voteSet_clear 0, sc_stopped = False\<rparr>"

definition exampleRun :: "collectEvent list" where
  "exampleRun = [Arrive True 2 (StateTransferResponseMsg 7 9), Arrive True 3 (StateTransferResponseMsg 1 1),
     Receive, Receive, Arrive True 4 (StateTransferResponseMsg 7 9), Receive]"

lemma exampleRun_returns:
  "\<exists>s'. CollectStateResponses exampleCollector exampleRun =
     Inr (Returned (Some \<lparr>vs_View = 7, vs_Seq = 9\<rparr>) s')"
  by (simp add: CollectStateResponses_def exampleCollector_def exampleRun_def
      StateCollector_Start_def StateCollector_HandleMessage_def receiveResponse_def
      registerVote_def collectedEnoughEqualVotes_def votesFor_def ballots_def
      List.map_filter_def computeQuorum_def signed_divide_int_def Let_def)

theorem collector_result_from_correct_node_witness:
  "\<exists>sender m. sender \<notin> {3} \<and> (sender, m) \<in> set (sc_incMsgs exampleCollector) \<union> arrivals exampleRun \<and>
    responseOf m = Some \<lparr>vs_View = 7, vs_Seq = 9\<rparr>"
proof -
  obtain s' where run: "CollectStateResponses exampleCollector exampleRun =
     Inr (Returned (Some \<lparr>vs_View = 7, vs_Seq = 9\<rparr>) s')"
    using exampleRun_returns by blast
  have "sc_f exampleCollector = snd (computeQuorum (of_nat (length [1, 2, 3, 4 :: u64])))"
    and "int (card {3 :: u64}) \<le> sc_f exampleCollector"
    by (simp_all add: exampleCollector_def StateCollector_Start_def computeQuorum_def
        signed_divide_int_def)
  then show ?thesis
    by (intro collector_result_from_correct_node [of "[1, 2, 3, 4]", OF _ _ _ _ _ _ run]) simp_all
qed

text \<open>
  Collecting never panics and never blocks on the vote channel as long as the answers are
  state transfer responses sent by nodes of the cluster, whatever the order of the events.
\<close>

theorem collector_never_blocks:
  assumes "length nodes \<le> unat (sc_N s)" "fst ` set (sc_incMsgs s) \<subseteq> set nodes"
    and "\<forall>(sender, m)\<in>arrivals evs. sender \<in> set nodes \<and> acceptResponse sender m"
  shows "\<exists>r. CollectStateResponses s evs = Inr r"
  unfolding CollectStateResponses_def
  using assms by (intro collectLoop_live [of nodes]) (auto simp: collector_live_def)

theorem collector_never_blocks_witness: "\<exists>r. CollectStateResponses exampleCollector exampleRun = Inr r"
  by (rule collector_never_blocks [of "[1, 2, 3, 4]"])
     (auto simp: exampleCollector_def StateCollector_Start_def exampleRun_def)

end
