(* ===== verification/ClientRequests.thy ===== *)
theory ClientRequests
  imports Protos
begin

text \<open>
  The queue of client requests at the leader: \<open>PartitionedProcessor\<close> of internal/bft/util.go. Every node has a
  channel of its own. The goroutine of \<open>Start\<close> waits for the signal that something was added, then launches one
  goroutine per channel, which hands at most one request to the handler, and waits for all of them.

  The channel \<open>activitySignal\<close> has no buffer: the signal of \<open>Add\<close> is taken only while the poller waits for
  it, and is lost otherwise. The goroutines of a round run in any order, one at a time.
\<close>

record RequestData =
  rd_Payload :: bytes
  rd_Sender :: u64

datatype pollerPc =
    PollNotStarted
  | PollWaiting
  | PollRound "nat list"    \<comment> \<open>the channels whose goroutine did not finish yet\<close>
  | PollEnded

record PartitionedProcessor =
  pr_channels :: "bytes list list"
  pr_capacity :: int
  pr_nodesList :: "u64 list"
  pr_poller :: pollerPc

subsection \<open>Operations\<close>

definition newProcessor :: "u64 \<Rightarrow> u64 list \<Rightarrow> int \<Rightarrow> PartitionedProcessor outcome" where
  "newProcessor n nodes capacity =
     (if n > 0 \<and> capacity < 0 then Inl (Panic ''makechan: size out of range'')
      else Inr \<lparr>pr_channels = replicate (unat n) [], pr_capacity = capacity, pr_nodesList = nodes,
                pr_poller = PollNotStarted\<rparr>)"

text \<open>The loop of \<open>Add\<close> over the nodes: the last index of the sender.\<close>

definition senderIndex :: "u64 list \<Rightarrow> u64 \<Rightarrow> nat option" where
  "senderIndex nodes sender =
     fold (\<lambda>(i, node) index. if node = sender then Some i else index) (enumerate 0 nodes) None"

definition signalActivity :: "PartitionedProcessor \<Rightarrow> PartitionedProcessor" where
  "signalActivity p =
     (if pr_poller p = PollWaiting then p\<lparr>pr_poller := PollRound [0..<length (pr_channels p)]\<rparr> else p)"

text \<open>The boolean is \<open>err == nil\<close>.\<close>

definition Processor_Add :: "u64 \<Rightarrow> bytes \<Rightarrow> PartitionedProcessor \<Rightarrow> (bool \<times> PartitionedProcessor) outcome" where
  "Processor_Add sender payload p =
     (case senderIndex (pr_nodesList p) sender of
        None \<Rightarrow> Inr (False, p)
      | Some i \<Rightarrow>
          if i \<ge> length (pr_channels p) then Inl (Panic ''index out of range'')
          else if int (length (pr_channels p ! i)) < pr_capacity p
          then Inr (True, signalActivity
                 (p\<lparr>pr_channels := (pr_channels p)[i := pr_channels p ! i @ [payload]]\<rparr>))
          else Inr (False, p))"

definition roundDone :: "nat \<Rightarrow> PartitionedProcessor \<Rightarrow> PartitionedProcessor" where
  "roundDone i p =
     (case pr_poller p of
        PollRound is \<Rightarrow>
          (let is' = remove1 i is in p\<lparr>pr_poller := (if is' = [] then PollWaiting else PollRound is')\<rparr>)
      | _ \<Rightarrow> p)"

text \<open>The goroutine of channel \<open>i\<close>: the request it hands to the handler, if there is one.\<close>

definition processRequest :: "nat \<Rightarrow> PartitionedProcessor \<Rightarrow> (RequestData option \<times> PartitionedProcessor) outcome" where
  "processRequest i p =
     (if i \<ge> length (pr_channels p) then Inl (Panic ''index out of range'')
      else case pr_channels p ! i of
        [] \<Rightarrow> Inr (None, roundDone i p)
      | payload # rest \<Rightarrow>
          if i \<ge> length (pr_nodesList p) then Inl (Panic ''index out of range'')
          else Inr (Some \<lparr>rd_Payload = payload, rd_Sender = pr_nodesList p ! i\<rparr>,
                    roundDone i (p\<lparr>pr_channels := (pr_channels p)[i := rest]\<rparr>)))"

definition Processor_Start :: "PartitionedProcessor \<Rightarrow> PartitionedProcessor" where
  "Processor_Start p = p\<lparr>pr_poller := (if pr_channels p = [] then PollEnded else PollWaiting)\<rparr>"

definition inRound :: "nat \<Rightarrow> PartitionedProcessor \<Rightarrow> bool" where
  "inRound i p = (case pr_poller p of PollRound is \<Rightarrow> i \<in> set is | _ \<Rightarrow> False)"

subsection \<open>Runs\<close>

datatype processorEvent =
    AddCall u64 bytes      \<comment> \<open>\<open>Add\<close> of the goroutine that received the request\<close>
  | ProcessCall nat        \<comment> \<open>the goroutine of a channel runs\<close>

text \<open>The requests accepted by \<open>Add\<close> and those handed to the handler, in order.\<close>

record processorRun =
  run_p :: PartitionedProcessor
  run_accepted :: "RequestData list"
  run_handled :: "RequestData list"

fun processorStep :: "processorEvent \<Rightarrow> processorRun \<Rightarrow> processorRun outcome" where
  "processorStep (AddCall sender payload) r =
     andThen (Processor_Add sender payload (run_p r)) (\<lambda>(ok, p).
       Inr (r\<lparr>run_p := p, run_accepted := run_accepted r @
              (if ok then [\<lparr>rd_Payload = payload, rd_Sender = sender\<rparr>] else [])\<rparr>))"
| "processorStep (ProcessCall i) r =
     (if \<not> inRound i (run_p r) then Inr r
      else andThen (processRequest i (run_p r)) (\<lambda>(req, p).
        Inr (r\<lparr>run_p := p, run_handled := run_handled r @ (case req of None \<Rightarrow> [] | Some q \<Rightarrow> [q])\<rparr>)))"

fun processorSteps :: "processorEvent list \<Rightarrow> processorRun \<Rightarrow> processorRun outcome" where
  "processorSteps [] r = Inr r"
| "processorSteps (e # es) r = andThen (processorStep e r) (processorSteps es)"

definition startedRun :: "PartitionedProcessor \<Rightarrow> processorRun" where
  "startedRun p = \<lparr>run_p = Processor_Start p, run_accepted = [], run_handled = []\<rparr>"

subsection \<open>Invariant\<close>

text \<open>A channel never holds more than its capacity, and holds what was accepted and not yet handled.\<close>

definition ofSender :: "u64 \<Rightarrow> RequestData list \<Rightarrow> bytes list" where
  "ofSender n rs = map rd_Payload (filter (\<lambda>r. rd_Sender r = n) rs)"

definition processor_ok :: "PartitionedProcessor \<Rightarrow> bool" where
  "processor_ok p \<longleftrightarrow> length (pr_channels p) = length (pr_nodesList p) \<and> distinct (pr_nodesList p) \<and>
     (\<forall>ch\<in>set (pr_channels p). int (length ch) \<le> pr_capacity p) \<and>
     (\<forall>i. inRound i p \<longrightarrow> i < length (pr_nodesList p))"

definition run_ok :: "processorRun \<Rightarrow> bool" where
  "run_ok r \<longleftrightarrow> processor_ok (run_p r) \<and> (\<forall>i<length (pr_nodesList (run_p r)).
     ofSender (pr_nodesList (run_p r) ! i) (run_accepted r) =
     ofSender (pr_nodesList (run_p r) ! i) (run_handled r) @ pr_channels (run_p r) ! i)"

lemma ofSender_append [simp]: "ofSender n (xs @ ys) = ofSender n xs @ ofSender n ys"
  by (simp add: ofSender_def)

lemma ofSender_single [simp]: "ofSender n [r] = (if rd_Sender r = n then [rd_Payload r] else [])" "ofSender n [] = []"
  by (simp_all add: ofSender_def)

lemma senderIndex_fold:
  "fold (\<lambda>(i, node) index. if node = sender then Some i else index) (enumerate k nodes) acc = Some i \<Longrightarrow>
   acc = Some i \<or> k \<le> i \<and> i < k + length nodes \<and> nodes ! (i - k) = sender"
proof (induction nodes arbitrary: k acc)
  case (Cons n nodes)
  then show ?case using Cons.IH [of "Suc k"] by (fastforce simp: nth_Cons' split: if_splits)
qed simp

lemma senderIndex_Some:
  "senderIndex nodes sender = Some i \<Longrightarrow> i < length nodes \<and> nodes ! i = sender"
  unfolding senderIndex_def using senderIndex_fold [of sender 0 nodes None i] by simp

lemma senderIndex_member:
  "sender \<in> set nodes \<Longrightarrow> senderIndex nodes sender \<noteq> None"
proof -
  have "sender \<in> set nodes \<or> acc \<noteq> None \<Longrightarrow>
    fold (\<lambda>(i, node) index. if node = sender then Some i else index) (enumerate k nodes) acc \<noteq> None" for k acc
    by (induction nodes arbitrary: k acc) auto
  then show "sender \<in> set nodes \<Longrightarrow> senderIndex nodes sender \<noteq> None" unfolding senderIndex_def by blast
qed

lemma signalActivity_fields [simp]:
  "pr_channels (signalActivity p) = pr_channels p" "pr_capacity (signalActivity p) = pr_capacity p"
  "pr_nodesList (signalActivity p) = pr_nodesList p"
  by (simp_all add: signalActivity_def)

lemma roundDone_fields [simp]:
  "pr_channels (roundDone i p) = pr_channels p" "pr_capacity (roundDone i p) = pr_capacity p"
  "pr_nodesList (roundDone i p) = pr_nodesList p"
  by (auto simp: roundDone_def Let_def split: pollerPc.splits)

lemma inRound_signal: "inRound i (signalActivity p) \<Longrightarrow> inRound i p \<or> i < length (pr_channels p)"
  by (auto simp: inRound_def signalActivity_def split: if_splits)

lemma inRound_done: "inRound i (roundDone j p) \<Longrightarrow> inRound i p"
  by (auto simp: inRound_def roundDone_def Let_def split: pollerPc.splits if_splits
      dest: set_mp [OF set_remove1_subset])

lemma inRound_channels [simp]: "inRound i (p\<lparr>pr_channels := chs\<rparr>) = inRound i p"
  by (simp add: inRound_def)

lemma channel_update_bound:
  assumes "\<forall>ch\<in>set chs. int (length ch) \<le> c" "int (length x) \<le> c"
  shows "\<forall>ch\<in>set (chs[i := x]). int (length ch) \<le> c"
  using assms set_update_subset_insert [of chs i x] by auto

lemma Add_total:
  assumes "processor_ok p"
  shows "\<exists>ok p'. Processor_Add sender payload p = Inr (ok, p')"
proof (cases "senderIndex (pr_nodesList p) sender")
  case (Some i)
  then have "i < length (pr_channels p)" using senderIndex_Some assms by (auto simp: processor_ok_def)
  then show ?thesis using Some by (auto simp: Processor_Add_def)
qed (auto simp: Processor_Add_def)

lemma run_ok_add:
  assumes "run_ok r" "processorStep (AddCall sender payload) r = Inr r'"
  shows "run_ok r'"
proof (cases "senderIndex (pr_nodesList (run_p r)) sender")
  case None
  then show ?thesis using assms by (auto simp: Processor_Add_def run_ok_def)
next
  case (Some i)
  note i = senderIndex_Some [OF Some]
  have ok: "processor_ok (run_p r)" using assms(1) by (simp add: run_ok_def)
  show ?thesis
  proof (cases "int (length (pr_channels (run_p r) ! i)) < pr_capacity (run_p r)")
    case True
    have "int (length (pr_channels (run_p r) ! i @ [payload])) \<le> pr_capacity (run_p r)" using True by simp
    then have "\<forall>ch\<in>set ((pr_channels (run_p r))[i := pr_channels (run_p r) ! i @ [payload]]).
        int (length ch) \<le> pr_capacity (run_p r)"
      using ok by (intro channel_update_bound) (auto simp: processor_ok_def)
    then have "processor_ok (run_p r')"
      using assms(2) Some True ok i by (auto simp: Processor_Add_def processor_ok_def dest!: inRound_signal)
    then show ?thesis
      using assms Some True ok i
      by (auto simp: Processor_Add_def run_ok_def processor_ok_def nth_list_update nth_eq_iff_index_eq)
  next
    case False
    then show ?thesis using assms Some i ok by (auto simp: Processor_Add_def run_ok_def processor_ok_def)
  qed
qed

lemma run_ok_process:
  assumes "run_ok r" "processorStep (ProcessCall i) r = Inr r'"
  shows "run_ok r'"
proof (cases "inRound i (run_p r) \<and> i < length (pr_channels (run_p r)) \<and> pr_channels (run_p r) ! i \<noteq> []")
  case True
  then obtain payload rest where ch: "pr_channels (run_p r) ! i = payload # rest" by (cases "pr_channels (run_p r) ! i") auto
  have ok: "processor_ok (run_p r)" using assms(1) by (simp add: run_ok_def)
  then have "int (length rest) \<le> pr_capacity (run_p r)"
    using True ch nth_mem [of i "pr_channels (run_p r)"] by (fastforce simp: processor_ok_def)
  then have "\<forall>c\<in>set ((pr_channels (run_p r))[i := rest]). int (length c) \<le> pr_capacity (run_p r)"
    using ok by (intro channel_update_bound) (auto simp: processor_ok_def)
  then have "processor_ok (run_p r')"
    using assms(2) True ch ok by (auto simp: processRequest_def processor_ok_def dest!: inRound_done)
  then show ?thesis
    using assms True ch ok
    by (auto simp: processRequest_def run_ok_def processor_ok_def nth_list_update nth_eq_iff_index_eq)
next
  case False
  then show ?thesis
    using assms by (auto simp: processRequest_def run_ok_def processor_ok_def split: if_splits dest!: inRound_done)
qed

lemma run_ok_steps: "run_ok r \<Longrightarrow> processorSteps es r = Inr r' \<Longrightarrow> run_ok r'"
proof (induction es arbitrary: r)
  case (Cons e es)
  obtain r1 where r1: "processorStep e r = Inr r1" "processorSteps es r1 = Inr r'"
    using Cons.prems(2) by (auto simp: andThen_eq_Inr_iff)
  have "run_ok r1" by (cases e) (use r1(1) Cons.prems(1) run_ok_add run_ok_process in blast)+
  then show ?case using Cons.IH r1(2) by blast
qed simp

lemma processorStep_total:
  assumes "run_ok r"
  shows "\<exists>r'. processorStep e r = Inr r'"
proof (cases e)
  case (AddCall sender payload)
  then show ?thesis using Add_total [of "run_p r" sender payload] assms by (fastforce simp: run_ok_def)
next
  case (ProcessCall i)
  show ?thesis
  proof (cases "inRound i (run_p r)")
    case True
    then show ?thesis
      using assms ProcessCall
      by (auto simp: run_ok_def processor_ok_def processRequest_def andThen_def split: list.splits)
  qed (simp add: ProcessCall)
qed

lemma processorSteps_total: "run_ok r \<Longrightarrow> \<exists>r'. processorSteps es r = Inr r' \<and> run_ok r'"
proof (induction es arbitrary: r)
  case (Cons e es)
  obtain r1 where r1: "processorStep e r = Inr r1" using processorStep_total [OF Cons.prems] by blast
  then have "run_ok r1" using run_ok_steps [OF Cons.prems, of "[e]" r1] by simp
  then show ?case using Cons.IH r1 by simp
qed simp

lemma processorStep_nodes: "processorStep e r = Inr r' \<Longrightarrow> pr_nodesList (run_p r') = pr_nodesList (run_p r) \<and>
    pr_capacity (run_p r') = pr_capacity (run_p r)"
  by (cases e) (auto simp: Processor_Add_def processRequest_def andThen_eq_Inr_iff
      split: if_splits option.splits list.splits)

lemma processorSteps_nodes: "processorSteps es r = Inr r' \<Longrightarrow> pr_nodesList (run_p r') = pr_nodesList (run_p r) \<and>
    pr_capacity (run_p r') = pr_capacity (run_p r)"
proof (induction es arbitrary: r)
  case (Cons e es)
  then show ?case using processorStep_nodes by (fastforce simp: andThen_eq_Inr_iff)
qed simp

lemma startedRun_ok:
  assumes "newProcessor n nodes capacity = Inr p" "unat n = length nodes" "distinct nodes"
  shows "run_ok (startedRun p)"
  using assms
  by (auto simp: newProcessor_def startedRun_def run_ok_def processor_ok_def Processor_Start_def inRound_def
      word_gt_0 ofSender_def split: if_splits)

subsection \<open>Properties\<close>

text \<open>
  C36: the requests of a node reach the handler in the order it sent them, each at most once and
  none that was not accepted, whatever the goroutines of the channels and the arrivals interleave; what is not yet handled
  waits in the channel of its sender, which never grows beyond the capacity of the pool, and nothing panics.
\<close>

theorem client_requests_in_order:
  assumes "newProcessor n nodes capacity = Inr p" "unat n = length nodes" "distinct nodes"
  shows "\<exists>r. processorSteps es (startedRun p) = Inr r \<and> (\<forall>i<length nodes.
    ofSender (nodes ! i) (run_accepted r) = ofSender (nodes ! i) (run_handled r) @ pr_channels (run_p r) ! i \<and>
    int (length (pr_channels (run_p r) ! i)) \<le> capacity)"
proof -
  obtain r where r: "processorSteps es (startedRun p) = Inr r" "run_ok r"
    using processorSteps_total [OF startedRun_ok [OF assms]] by blast
  have "pr_nodesList (run_p r) = nodes" "pr_capacity (run_p r) = capacity"
    using processorSteps_nodes [OF r(1)] assms(1)
    by (auto simp: startedRun_def Processor_Start_def newProcessor_def split: if_splits)
  then show ?thesis using r by (fastforce simp: run_ok_def processor_ok_def)
qed

definition exampleProcessor :: PartitionedProcessor where
  "exampleProcessor = \<lparr>pr_channels = [[], []], pr_capacity = 5, pr_nodesList = [7, 8], pr_poller = PollNotStarted\<rparr>"

definition exampleArrivals :: "processorEvent list" where
  "exampleArrivals = [AddCall 7 [1], AddCall 7 [2], AddCall 8 [3], ProcessCall 1, ProcessCall 0]"

theorem client_requests_in_order_witness:
  "\<exists>r. processorSteps exampleArrivals (startedRun exampleProcessor) = Inr r \<and> run_handled r \<noteq> [] \<and>
     ofSender 7 (run_accepted r) = ofSender 7 (run_handled r) @ pr_channels (run_p r) ! 0"
proof -
  have p: "newProcessor 2 [7, 8] 5 = Inr exampleProcessor" by code_simp
  have h: "case processorSteps exampleArrivals (startedRun exampleProcessor) of
      Inl _ \<Rightarrow> False | Inr r \<Rightarrow> run_handled r \<noteq> []" by code_simp
  obtain r where "processorSteps exampleArrivals (startedRun exampleProcessor) = Inr r"
    "\<forall>i<length [7, 8 :: u64]. ofSender ([7, 8] ! i) (run_accepted r) =
       ofSender ([7, 8] ! i) (run_handled r) @ pr_channels (run_p r) ! i"
    using client_requests_in_order [OF p, of exampleArrivals] by auto
  then show ?thesis using h by (fastforce split: sum.splits)
qed

text \<open>
  A signal that comes while a round runs is lost: a second request of the same node stays in its channel
  although the poller waits again, until some later request arrives.
\<close>

lemma request_left_behind:
  "\<exists>r. processorSteps exampleArrivals (startedRun exampleProcessor) = Inr r \<and>
     pr_poller (run_p r) = PollWaiting \<and> pr_channels (run_p r) = [[[2]], []]"
proof -
  have "case processorSteps exampleArrivals (startedRun exampleProcessor) of
      Inl _ \<Rightarrow> False | Inr r \<Rightarrow> pr_poller (run_p r) = PollWaiting \<and> pr_channels (run_p r) = [[[2]], []]"
    by code_simp
  then show ?thesis by (auto split: sum.splits)
qed

end
