(* ===== verification/Controller.thy ===== *)
theory Controller
  imports ViewChange Batching StateCollection ClientRequests
begin

text \<open>
  The controller (internal/bft/controller.go), which ties the components of a node together: it starts and aborts
  views, proposes batches while the node leads, delivers decisions, rotates the leader, synchronizes, and hands
  messages and timeouts to the component they concern.

  The record \<open>Controller\<close> holds the components it calls: the pool, the batcher, the persisted state
  with the in-flight data, the builder of views with the published view sequence, the state collector, the client
  requests, the channels of the view changer, the current view, and the application with the checkpoint (\<open>world\<close>).
  Calls to the communication layer and to the leader monitor are recorded as effects. Fields that are channels
  of capacity one are booleans or options; \<open>ct_decision\<close> is the decision with which the goroutine of the view waits in
  \<open>Decide\<close>.

  A method of the controller is one function. Where it waits for another goroutine, what that goroutine does meanwhile
  is an argument: the choices of the view while \<open>Abort\<close> waits for its end, the events of the state collector, the
  events of the batcher. \<open>Blocked\<close> is a wait that these do not end. The theory \<open>ControllerRuns\<close> interleaves the methods.
  Logging and metrics are left out.
\<close>

subsection \<open>State\<close>

record viewInfo =
  vi_viewNumber :: u64
  vi_proposalSeq :: u64

record decision =
  dc_proposal :: Proposal
  dc_signatures :: "Signature list"
  dc_requests :: "RequestInfo list"

datatype ctlEffect =
    CtTransaction u64 bytes                \<comment> \<open>\<open>Comm.SendTransaction\<close>\<close>
  | CtSend u64 Message                     \<comment> \<open>\<open>Comm.SendConsensus\<close>\<close>
  | CtStopLeaderSendMsg
  | CtChangeRole bool u64 u64              \<comment> \<open>whether the role is \<open>Follower\<close>, the view and the leader\<close>
  | CtInjectArtificialHeartbeat u64 Message
  | CtMonitorMsg u64 Message
  | CtHeartbeatWasSent
  | CtMonitorClose
  | CtSaved SavedMessage
  | CtDelivered Proposal "Signature list"
  | CtReconfig Reconfig

record ('a, 'w) Controller =
  ct_ID :: u64
  ct_N :: u64
  ct_NodesList :: "u64 list"
  ct_LeaderRotation :: bool
  ct_DecisionsPerLeader :: u64
  ct_RequestPool :: Pool
  ct_Batcher :: BatchBuilder
  ct_world :: "'a world"
  ct_State :: "'w PersistedState"
  ct_ProposerBuilder :: ProposalMaker
  ct_ViewChanger :: ViewChanger
  ct_Collector :: StateCollector
  ct_quorum :: int
  ct_CurrView :: View
  ct_currViewNumber :: u64
  ct_currDecisionsInView :: u64
  ct_viewChange :: "viewInfo list"
  ct_abortViewChan :: "u64 list"
  ct_stopped :: bool                       \<comment> \<open>\<open>stopChan\<close> is closed\<close>
  ct_syncChan :: bool
  ct_decision :: "decision option"
  ct_leaderToken :: bool
  ct_verificationSequence :: u64
  ct_client_requests :: PartitionedProcessor
  ct_running :: bool                       \<comment> \<open>the goroutine of \<open>run\<close> did not return\<close>
  ct_effects :: "ctlEffect list"

text \<open>
  The services of the application, the codec, the log and the file system; \<open>ce_locked\<close>: a reconfiguration holds
  \<open>consensusLock\<close>.
\<close>

record ('a, 'w, 'e) ctlEnv =
  ce_codec :: codec
  ce_services :: "'a services"
  ce_application :: "'a application"
  ce_RequestID :: "bytes \<Rightarrow> RequestInfo"
  ce_VerifyRequest :: "'a \<Rightarrow> bytes \<Rightarrow> RequestInfo option"
  ce_AssembleProposal :: "'a \<Rightarrow> bytes \<Rightarrow> bytes list \<Rightarrow> Proposal"
  ce_Append :: "'w \<Rightarrow> bytes \<Rightarrow> bool \<Rightarrow> 'e + 'w"
  ce_metricsFile :: bool
  ce_locked :: bool

definition ctEmit :: "ctlEffect list \<Rightarrow> ('a, 'w) Controller \<Rightarrow> ('a, 'w) Controller" where
  "ctEmit es c = c\<lparr>ct_effects := ct_effects c @ es\<rparr>"

subsection \<open>The leader\<close>

definition ct_blacklist :: "('a, 'w, 'e) ctlEnv \<Rightarrow> ('a, 'w) Controller \<Rightarrow> u64 list outcome" where
  "ct_blacklist E c =
     (case unmarshalMetadata (ce_codec E) (bytes_of (Metadata (fst (Checkpoint_Get (w_Checkpoint (ct_world c)))))) of
        None \<Rightarrow> Inl (Panic ''Failed unmarshalling metadata'')
      | Some md \<Rightarrow> Inr (BlackList md))"

definition ct_leaderAt :: "('a, 'w) Controller \<Rightarrow> u64 \<Rightarrow> u64 list \<Rightarrow> u64 outcome" where
  "ct_leaderAt c decisionsInView blacklist =
     getLeaderID (ct_currViewNumber c) (ct_N c) (ct_NodesList c) (ct_LeaderRotation c) decisionsInView
       (ct_DecisionsPerLeader c) blacklist"

definition ct_leaderID :: "('a, 'w, 'e) ctlEnv \<Rightarrow> ('a, 'w) Controller \<Rightarrow> u64 outcome" where
  "ct_leaderID E c = andThen (ct_blacklist E c) (ct_leaderAt c (ct_currDecisionsInView c))"

definition iAmTheLeader :: "('a, 'w, 'e) ctlEnv \<Rightarrow> ('a, 'w) Controller \<Rightarrow> (bool \<times> u64) outcome" where
  "iAmTheLeader E c = andThen (ct_leaderID E c) (\<lambda>leader. Inr (leader = ct_ID c, leader))"

definition currentViewStopped :: "('a, 'w) Controller \<Rightarrow> bool" where
  "currentViewStopped c = Stopped (ct_CurrView c)"

definition currentViewLeader :: "('a, 'w) Controller \<Rightarrow> u64" where
  "currentViewLeader c = v_LeaderID (ct_CurrView c)"

definition GetCurrentSequence :: "('a, 'w) Controller \<Rightarrow> u64 outcome" where
  "GetCurrentSequence c =
     (case pm_ViewSequences (ct_ProposerBuilder c) of
        None \<Rightarrow> Inl (Panic ''ViewSequences is nil'')
      | Some vs \<Rightarrow> Inr (ProposalSeq vs))"

definition setCurrentViewNumber :: "u64 \<Rightarrow> ('a, 'w) Controller \<Rightarrow> ('a, 'w) Controller" where
  "setCurrentViewNumber view c = c\<lparr>ct_currViewNumber := view\<rparr>"

definition incrementCurrentDecisionsInView :: "('a, 'w) Controller \<Rightarrow> ('a, 'w) Controller" where
  "incrementCurrentDecisionsInView c = c\<lparr>ct_currDecisionsInView := ct_currDecisionsInView c + 1\<rparr>"

definition setCurrentDecisionsInView :: "u64 \<Rightarrow> ('a, 'w) Controller \<Rightarrow> ('a, 'w) Controller" where
  "setCurrentDecisionsInView decisions c = c\<lparr>ct_currDecisionsInView := decisions\<rparr>"

definition acquireLeaderToken :: "('a, 'w) Controller \<Rightarrow> ('a, 'w) Controller" where
  "acquireLeaderToken c = c\<lparr>ct_leaderToken := True\<rparr>"

definition relinquishLeaderToken :: "('a, 'w) Controller \<Rightarrow> ('a, 'w) Controller" where
  "relinquishLeaderToken c = c\<lparr>ct_leaderToken := False\<rparr>"

definition grabSyncToken :: "('a, 'w) Controller \<Rightarrow> ('a, 'w) Controller" where
  "grabSyncToken c = c\<lparr>ct_syncChan := True\<rparr>"

definition relinquishSyncToken :: "('a, 'w) Controller \<Rightarrow> ('a, 'w) Controller" where
  "relinquishSyncToken c = c\<lparr>ct_syncChan := False\<rparr>"

definition ct_close :: "('a, 'w) Controller \<Rightarrow> ('a, 'w) Controller" where
  "ct_close c = c\<lparr>ct_stopped := True\<rparr>"

definition closeBatcher :: "('a, 'w) Controller \<Rightarrow> ('a, 'w) Controller" where
  "closeBatcher c = c\<lparr>ct_Batcher := BatchBuilder_Close (ct_Batcher c)\<rparr>"

text \<open>
  The failure detector is \<open>Consensus\<close>, which starts a view change. It first takes the lock that a
  reconfiguration holds until it is done.
\<close>

definition ct_Complain ::
  "('a, 'w, 'e) ctlEnv \<Rightarrow> u64 \<Rightarrow> bool \<Rightarrow> ('a, 'w) Controller \<Rightarrow> ('a, 'w) Controller outcome" where
  "ct_Complain E viewNum stopView c =
     (if ce_locked E then Inl (Blocked ''consensusLock'')
      else Inr (c\<lparr>ct_ViewChanger := StartViewChange viewNum stopView (ct_ViewChanger c)\<rparr>))"

subsection \<open>Requests and timeouts\<close>

definition HandleRequest :: "('a, 'w, 'e) ctlEnv \<Rightarrow> u64 \<Rightarrow> bytes \<Rightarrow> ('a, 'w) Controller \<Rightarrow> ('a, 'w) Controller outcome" where
  "HandleRequest E sender req c =
     andThen (iAmTheLeader E c) (\<lambda>(iAm, _).
       if \<not> iAm then Inr c
       else andThen (Processor_Add sender req (ct_client_requests c)) (\<lambda>(ok, p). Inr (c\<lparr>ct_client_requests := p\<rparr>)))"

text \<open>The result is the error of \<open>Submit\<close>.\<close>

definition addRequest ::
  "('a, 'w, 'e) ctlEnv \<Rightarrow> bytes \<Rightarrow> ('a, 'w) Controller \<Rightarrow> (submitError option \<times> ('a, 'w) Controller) outcome" where
  "addRequest E request c =
     andThen (Submit (ce_RequestID E) (ct_RequestPool c) request) (\<lambda>(rp, err). Inr (err, c\<lparr>ct_RequestPool := rp\<rparr>))"

definition SubmitRequest ::
  "('a, 'w, 'e) ctlEnv \<Rightarrow> bytes \<Rightarrow> ('a, 'w) Controller \<Rightarrow> (submitError option \<times> ('a, 'w) Controller) outcome" where
  "SubmitRequest E request c = addRequest E request c"

definition ProcessRequest ::
  "('a, 'w, 'e) ctlEnv \<Rightarrow> RequestData \<Rightarrow> ('a, 'w) Controller \<Rightarrow> ('a, 'w) Controller outcome" where
  "ProcessRequest E requestData c =
     andThen (iAmTheLeader E c) (\<lambda>(iAm, leaderID).
       if \<not> iAm then Inr c
       else case ce_VerifyRequest E (w_app (ct_world c)) (rd_Payload requestData) of
         None \<Rightarrow> Inr c
       | Some reqInfo \<Rightarrow> andThen (addRequest E (rd_Payload requestData) c) (\<lambda>(err, c'). Inr c'))"

definition ct_OnRequestTimeout ::
  "('a, 'w, 'e) ctlEnv \<Rightarrow> bytes \<Rightarrow> ('a, 'w) Controller \<Rightarrow> ('a, 'w) Controller outcome" where
  "ct_OnRequestTimeout E request c =
     andThen (iAmTheLeader E c) (\<lambda>(iAm, leaderID).
       Inr (if iAm then c else ctEmit [CtTransaction leaderID request] c))"

definition ct_OnLeaderFwdRequestTimeout ::
  "('a, 'w, 'e) ctlEnv \<Rightarrow> ('a, 'w) Controller \<Rightarrow> ('a, 'w) Controller outcome" where
  "ct_OnLeaderFwdRequestTimeout E c =
     andThen (iAmTheLeader E c) (\<lambda>(iAm, leaderID).
       if iAm then Inr (ctEmit [CtStopLeaderSendMsg] c) else ct_Complain E (ct_currViewNumber c) True c)"

definition OnHeartbeatTimeout ::
  "('a, 'w, 'e) ctlEnv \<Rightarrow> u64 \<Rightarrow> u64 \<Rightarrow> ('a, 'w) Controller \<Rightarrow> ('a, 'w) Controller outcome" where
  "OnHeartbeatTimeout E view leaderID c =
     andThen (iAmTheLeader E c) (\<lambda>(iAm, currentLeaderID).
       if iAm then Inr c
       else if leaderID \<noteq> currentLeaderID then Inr c
       else ct_Complain E (ct_currViewNumber c) True c)"

subsection \<open>Messages\<close>

definition BroadcastConsensus ::
  "('a, 'w, 'e) ctlEnv \<Rightarrow> Message \<Rightarrow> ('a, 'w) Controller \<Rightarrow> ('a, 'w) Controller outcome" where
  "BroadcastConsensus E m c =
     (let c1 = ctEmit (map (\<lambda>node. CtSend node m) (filter (\<lambda>node. ct_ID c \<noteq> node) (ct_NodesList c))) c in
      if GetPrePrepare m \<noteq> None \<or> GetPrepare m \<noteq> None \<or> GetCommit m \<noteq> None
      then andThen (iAmTheLeader E c1) (\<lambda>(leader, _). Inr (if leader then ctEmit [CtHeartbeatWasSent] c1 else c1))
      else Inr c1)"

definition respondToStateTransferRequest :: "u64 \<Rightarrow> ('a, 'w) Controller \<Rightarrow> ('a, 'w) Controller outcome" where
  "respondToStateTransferRequest sender c =
     andThen (GetCurrentSequence c) (\<lambda>seq.
       Inr (ctEmit [CtSend sender (StateTransferResponseMsg (ct_currViewNumber c) seq)] c))"

definition convertViewMessageToHeartbeat :: "Message \<Rightarrow> Message" where
  "convertViewMessageToHeartbeat m = HeartBeatMsg (viewNumber m) (proposalSequence m)"

definition orBlocked :: "string \<Rightarrow> 'b option \<Rightarrow> 'b outcome" where
  "orBlocked what r = (case r of None \<Rightarrow> Inl (Blocked what) | Some x \<Rightarrow> Inr x)"

definition handleViewMessages ::
  "('a, 'w, 'e) ctlEnv \<Rightarrow> u64 \<Rightarrow> Message \<Rightarrow> ('a, 'w) Controller \<Rightarrow> ('a, 'w) Controller outcome" where
  "handleViewMessages E sender m c =
     andThen (orBlocked ''incMsgs'' (View_HandleMessage (ct_CurrView c) sender m)) (\<lambda>view.
     andThen (orBlocked ''HandleViewMessage'' (HandleViewMessage sender m (ct_ViewChanger c))) (\<lambda>vc.
       let c1 = c\<lparr>ct_CurrView := view, ct_ViewChanger := vc\<rparr> in
       andThen (ct_leaderID E c1) (\<lambda>leader.
         Inr (if sender = leader
              then ctEmit [CtInjectArtificialHeartbeat sender (convertViewMessageToHeartbeat m)] c1 else c1))))"

text \<open>\<open>enqueue\<close> is the choice of the collector when it is stopped and its buffer has room.\<close>

fun ProcessMessages ::
  "('a, 'w, 'e) ctlEnv \<Rightarrow> bool \<Rightarrow> u64 \<Rightarrow> Message \<Rightarrow> ('a, 'w) Controller \<Rightarrow> ('a, 'w) Controller outcome" where
  "ProcessMessages E enqueue sender (PrePrepareMsg pp) c = handleViewMessages E sender (PrePrepareMsg pp) c"
| "ProcessMessages E enqueue sender (PrepareMsg prp) c = handleViewMessages E sender (PrepareMsg prp) c"
| "ProcessMessages E enqueue sender (CommitMsg cmt) c = handleViewMessages E sender (CommitMsg cmt) c"
| "ProcessMessages E enqueue sender (HeartBeatMsg view seq) c =
     Inr (ctEmit [CtMonitorMsg sender (HeartBeatMsg view seq)] c)"
| "ProcessMessages E enqueue sender (HeartBeatResponseMsg view) c =
     Inr (ctEmit [CtMonitorMsg sender (HeartBeatResponseMsg view)] c)"
| "ProcessMessages E enqueue sender StateTransferRequestMsg c = respondToStateTransferRequest sender c"
| "ProcessMessages E enqueue sender (StateTransferResponseMsg view seq) c =
     andThen (StateCollector_HandleMessage enqueue (ct_Collector c) sender (StateTransferResponseMsg view seq))
       (\<lambda>s. Inr (c\<lparr>ct_Collector := s\<rparr>))"
| "ProcessMessages E enqueue sender NoContent c = Inr c"
| "ProcessMessages E enqueue sender m c =
     andThen (orBlocked ''incMsgs'' (vc_HandleMessage sender m (ct_ViewChanger c)))
       (\<lambda>vc. Inr (c\<lparr>ct_ViewChanger := vc\<rparr>))"

subsection \<open>The goroutine of the current view\<close>

definition ct_Sync :: "('a, 'w, 'e) ctlEnv \<Rightarrow> ('a, 'w) Controller \<Rightarrow> ('a, 'w) Controller outcome" where
  "ct_Sync E c =
     andThen (iAmTheLeader E c) (\<lambda>(iAmLeader, _).
       Inr (grabSyncToken (if iAmLeader then closeBatcher c else c)))"

definition ct_save :: "('a, 'w, 'e) ctlEnv \<Rightarrow> SavedMessage \<Rightarrow> ('a, 'w) Controller \<Rightarrow> ('a, 'w) Controller outcome" where
  "ct_save E m c =
     andThen (PersistedState_Save (ce_codec E) (ce_Append E) (ct_State c) m) (\<lambda>(ps, ok).
       if ok then Inr (ctEmit [CtSaved m] (c\<lparr>ct_State := ps\<rparr>))
       else Inl (Panic ''Failed to save message to state''))"

text \<open>
  What the view calls: its communication layer, decider and synchronizer are the controller. In \<open>Decide\<close> the
  goroutine of the view waits until the decision is delivered, or until the controller stops.
\<close>

definition viewCall :: "('a, 'w, 'e) ctlEnv \<Rightarrow> viewEffect \<Rightarrow> ('a, 'w) Controller \<Rightarrow> ('a, 'w) Controller outcome" where
  "viewCall E e c =
     (case e of
        Broadcast m \<Rightarrow> BroadcastConsensus E m c
      | SendConsensus n m \<Rightarrow> Inr (ctEmit [CtSend n m] c)
      | SaveState m \<Rightarrow> ct_save E m c
      | Complain view stopView \<Rightarrow> ct_Complain E view stopView c
      | SyncCall \<Rightarrow> ct_Sync E c
      | Decide proposal signatures requests \<Rightarrow>
          Inr (c\<lparr>ct_decision := Some \<lparr>dc_proposal = proposal, dc_signatures = signatures, dc_requests = requests\<rparr>\<rparr>)
      | StoreViewSequence s \<Rightarrow>
          Inr (c\<lparr>ct_ProposerBuilder := (ct_ProposerBuilder c)\<lparr>pm_ViewSequences := Some s\<rparr>\<rparr>))"

fun viewCalls :: "('a, 'w, 'e) ctlEnv \<Rightarrow> viewEffect list \<Rightarrow> ('a, 'w) Controller \<Rightarrow> ('a, 'w) Controller outcome" where
  "viewCalls E [] c = Inr c"
| "viewCalls E (e # es) c = andThen (viewCall E e c) (viewCalls E es)"

definition saveOK :: "('a, 'w, 'e) ctlEnv \<Rightarrow> ('a, 'w) Controller \<Rightarrow> SavedMessage \<Rightarrow> bool" where
  "saveOK E c m = (case ct_save E m c of Inl _ \<Rightarrow> False | Inr _ \<Rightarrow> True)"

definition ct_viewEnv :: "('a, 'w, 'e) ctlEnv \<Rightarrow> ('a, 'w) Controller \<Rightarrow> 'a viewEnv" where
  "ct_viewEnv E c = \<lparr>env_codec = ce_codec E, env_services = ce_services E, env_app = w_app (ct_world c),
     env_checkpoint = w_Checkpoint (ct_world c), env_saveOK = saveOK E c\<rparr>"

definition viewMove :: "('a, 'w, 'e) ctlEnv \<Rightarrow> viewChoice \<Rightarrow> ('a, 'w) Controller \<Rightarrow> ('a, 'w) Controller outcome" where
  "viewMove E ch c =
     (if ct_decision c \<noteq> None \<and> \<not> ct_stopped c then Inr c
      else andThen (viewStep (ct_viewEnv E c) (ct_CurrView c) ch) (\<lambda>(view, effs).
             viewCalls E effs (c\<lparr>ct_CurrView := view, ct_decision := None\<rparr>)))"

fun viewMoves :: "('a, 'w, 'e) ctlEnv \<Rightarrow> viewChoice list \<Rightarrow> ('a, 'w) Controller \<Rightarrow> ('a, 'w) Controller outcome" where
  "viewMoves E [] c = Inr c"
| "viewMoves E (ch # chs) c = andThen (viewMove E ch c) (viewMoves E chs)"

text \<open>\<open>CurrView.Abort()\<close>: the view is told to stop and moves on until its goroutine ends.\<close>

definition abortCurrView ::
  "('a, 'w, 'e) ctlEnv \<Rightarrow> viewChoice list \<Rightarrow> ('a, 'w) Controller \<Rightarrow> ('a, 'w) Controller outcome" where
  "abortCurrView E waits c =
     andThen (viewMoves E waits (c\<lparr>ct_CurrView := view_stop (ct_CurrView c)\<rparr>)) (\<lambda>c1.
     andThen (View_Abort (ct_CurrView c1)) (\<lambda>view. Inr (c1\<lparr>ct_CurrView := view\<rparr>)))"

subsection \<open>Starting and changing views\<close>

definition startView :: "('a, 'w, 'e) ctlEnv \<Rightarrow> u64 \<Rightarrow> ('a, 'w) Controller \<Rightarrow> ('a, 'w) Controller outcome" where
  "startView E propSeq c =
     andThen (ct_leaderID E c) (\<lambda>leaderID.
     andThen (NewProposer (ce_codec E) (ct_State c) (ct_ProposerBuilder c) leaderID propSeq
                (ct_currViewNumber c) (ct_currDecisionsInView c) (ct_quorum c)) (\<lambda>(view, ps, pm).
       let initPhase = v_Phase view;
           c1 = c\<lparr>ct_State := ps, ct_ProposerBuilder := pm, ct_CurrView := View_Start (ce_metricsFile E) view\<rparr>
       in andThen (iAmTheLeader E c1) (\<lambda>(leader, _).
            let c2 = (if leader \<and> (initPhase = COMMITTED \<or> initPhase = ABORT) then acquireLeaderToken c1 else c1)
            in andThen (ct_leaderID E c2) (\<lambda>leaderID.
                 Inr (ctEmit [CtChangeRole (\<not> leader) (ct_currViewNumber c2) leaderID] c2)))))"

text \<open>The boolean is the result of the method.\<close>

definition abortView ::
  "('a, 'w, 'e) ctlEnv \<Rightarrow> viewChoice list \<Rightarrow> u64 \<Rightarrow> ('a, 'w) Controller \<Rightarrow> (bool \<times> ('a, 'w) Controller) outcome" where
  "abortView E waits view c =
     (if view < ct_currViewNumber c then Inr (False, c)
      else andThen (abortCurrView E waits (relinquishLeaderToken c)) (\<lambda>c1. Inr (True, c1)))"

definition changeView ::
  "('a, 'w, 'e) ctlEnv \<Rightarrow> viewChoice list \<Rightarrow> u64 \<Rightarrow> u64 \<Rightarrow> u64 \<Rightarrow> ('a, 'w) Controller \<Rightarrow> ('a, 'w) Controller outcome" where
  "changeView E waits newViewNumber newProposalSequence newDecisionsInView c =
     (let latestView = ct_currViewNumber c in
      if latestView > newViewNumber then Inr c
      else
        let leader = currentViewLeader c; stopped = currentViewStopped c in
        andThen (if \<not> stopped \<and> latestView = newViewNumber
                 then andThen (ct_leaderID E c) (\<lambda>leaderID.
                        Inr (leaderID = leader \<and> ct_currDecisionsInView c = newDecisionsInView))
                 else Inr False) (\<lambda>alreadyRunning.
          if alreadyRunning then Inr c
          else andThen (abortView E waits latestView c) (\<lambda>(aborted, c1).
            if \<not> aborted then Inr c1
            else andThen (startView E newProposalSequence
                     (setCurrentDecisionsInView newDecisionsInView (setCurrentViewNumber newViewNumber c1))) (\<lambda>c2.
                   andThen (iAmTheLeader E c2) (\<lambda>(iAm, _).
                     Inr (if iAm then c2\<lparr>ct_Batcher := BatchBuilder_Reset (ct_Batcher c2)\<rparr> else c2))))))"

text \<open>\<open>None\<close>: the channel is full, the caller waits.\<close>

definition ct_AbortView :: "u64 \<Rightarrow> ('a, 'w) Controller \<Rightarrow> ('a, 'w) Controller option" where
  "ct_AbortView view c =
     (if ct_abortViewChan c = [] then Some ((closeBatcher c)\<lparr>ct_abortViewChan := [view]\<rparr>) else None)"

definition ViewChanged ::
  "('a, 'w, 'e) ctlEnv \<Rightarrow> u64 \<Rightarrow> u64 \<Rightarrow> ('a, 'w) Controller \<Rightarrow> ('a, 'w) Controller outcome" where
  "ViewChanged E newViewNumber newProposalSequence c =
     andThen (iAmTheLeader E c) (\<lambda>(amILeader, _).
       let c1 = (if amILeader then closeBatcher c else c) in
       if ct_viewChange c1 = []
       then Inr (c1\<lparr>ct_viewChange := [\<lparr>vi_viewNumber = newViewNumber, vi_proposalSeq = newProposalSequence\<rparr>]\<rparr>)
       else Inl (Blocked ''viewChange''))"

definition propose ::
  "('a, 'w, 'e) ctlEnv \<Rightarrow> Pool batchEvent list \<Rightarrow> ('a, 'w) Controller \<Rightarrow> ('a, 'w) Controller outcome" where
  "propose E events c =
     (if ct_stopped c \<or> BatchBuilder_Closed (ct_Batcher c) then Inr c
      else andThen (NextBatch NextRequests (ct_Batcher c) (ct_RequestPool c) events) (\<lambda>nextBatch.
        if nextBatch = [] then Inr (acquireLeaderToken c)
        else andThen (GetMetadata (ct_viewEnv E c) (ct_CurrView c)) (\<lambda>metadata.
          let proposal = ce_AssembleProposal E (w_app (ct_world c)) metadata nextBatch in
          andThen (orBlocked ''incMsgs'' (Propose (ct_viewEnv E c) (ct_CurrView c) proposal)) (\<lambda>view.
            Inr (c\<lparr>ct_CurrView := view\<rparr>)))))"

subsection \<open>Deciding\<close>

definition MaybePruneRevokedRequests ::
  "('a, 'w, 'e) ctlEnv \<Rightarrow> ('a, 'w) Controller \<Rightarrow> ('a, 'w) Controller outcome" where
  "MaybePruneRevokedRequests E c =
     (let newVerSqn = api_VerificationSequence (ce_services E) (w_app (ct_world c)) in
      if newVerSqn = ct_verificationSequence c then Inr c
      else andThen (Prune (\<lambda>req. ce_VerifyRequest E (w_app (ct_world c)) req \<noteq> None) (ct_RequestPool c)) (\<lambda>rp.
             Inr (c\<lparr>ct_verificationSequence := newVerSqn, ct_RequestPool := rp\<rparr>)))"

definition checkIfRotate :: "u64 list \<Rightarrow> ('a, 'w) Controller \<Rightarrow> bool outcome" where
  "checkIfRotate blacklist c =
     andThen (ct_leaderAt c (ct_currDecisionsInView c - 1) blacklist) (\<lambda>currLeader.
     andThen (ct_leaderAt c (ct_currDecisionsInView c) blacklist) (\<lambda>nextLeader.
       Inr (currLeader \<noteq> nextLeader)))"

fun removeDelivered :: "RequestInfo list \<Rightarrow> Pool \<Rightarrow> Pool outcome" where
  "removeDelivered [] rp = Inr rp"
| "removeDelivered (reqInfo # infos) rp = andThen (RemoveRequest rp reqInfo) (\<lambda>(rp', ok). removeDelivered infos rp')"

definition removeDeliveredFromPool :: "decision \<Rightarrow> ('a, 'w) Controller \<Rightarrow> ('a, 'w) Controller outcome" where
  "removeDeliveredFromPool d c =
     andThen (removeDelivered (dc_requests d) (ct_RequestPool c)) (\<lambda>rp. Inr (c\<lparr>ct_RequestPool := rp\<rparr>))"

definition ct_deliver :: "('a, 'w, 'e) ctlEnv \<Rightarrow> decision \<Rightarrow> ('a, 'w) Controller \<Rightarrow> ('a, 'w) Controller outcome" where
  "ct_deliver E d c =
     andThen (MutuallyExclusiveDeliver (ce_codec E) (ce_application E) (ct_world c) (dc_proposal d) (dc_signatures d))
       (\<lambda>(w, r).
          let c1 = ctEmit ((if dr_delivered r then [CtDelivered (dc_proposal d) (dc_signatures d)] else []) @
                           map CtReconfig (dr_toReconfigChan r)) (c\<lparr>ct_world := w\<rparr>)
          in Inr (if InLatestDecision (dr_reconfig r) then ct_close c1 else c1))"

definition rotateLeader ::
  "('a, 'w, 'e) ctlEnv \<Rightarrow> viewChoice list \<Rightarrow> ViewMetadata \<Rightarrow> ('a, 'w) Controller \<Rightarrow> ('a, 'w) Controller outcome" where
  "rotateLeader E waits md c =
     andThen (checkIfRotate (BlackList md) c) (\<lambda>rotate.
       if rotate
       then andThen (changeView E waits (ct_currViewNumber c) (LatestSequence md + 1) (ct_currDecisionsInView c) c)
              (\<lambda>c1. Inr (c1\<lparr>ct_RequestPool := RestartTimers (ct_RequestPool c1)\<rparr>))
       else Inr c)"

definition continueLeading :: "('a, 'w, 'e) ctlEnv \<Rightarrow> ('a, 'w) Controller \<Rightarrow> ('a, 'w) Controller outcome" where
  "continueLeading E c =
     andThen (iAmTheLeader E c) (\<lambda>(iAm, _). Inr (if iAm then acquireLeaderToken c else c))"

definition afterDelivery ::
  "('a, 'w, 'e) ctlEnv \<Rightarrow> viewChoice list \<Rightarrow> decision \<Rightarrow> ('a, 'w) Controller \<Rightarrow> ('a, 'w) Controller outcome" where
  "afterDelivery E waits d c =
     (case unmarshalMetadata (ce_codec E) (bytes_of (Metadata (dc_proposal d))) of
        None \<Rightarrow> Inl (Panic ''Failed to unmarshal proposal metadata'')
      | Some md \<Rightarrow>
          andThen (rotateLeader E waits md (incrementCurrentDecisionsInView c)) (\<lambda>c1.
          andThen (MaybePruneRevokedRequests E c1) (continueLeading E)))"

text \<open>
  \<open>stopSeen\<close>: the \<open>select\<close> after the delivery takes \<open>stopChan\<close>, which it can only if the controller is stopped. Either
  way the goroutine of the view returns from \<open>Decide\<close>.
\<close>

definition ct_decide ::
  "('a, 'w, 'e) ctlEnv \<Rightarrow> bool \<Rightarrow> viewChoice list \<Rightarrow> decision \<Rightarrow> ('a, 'w) Controller \<Rightarrow> ('a, 'w) Controller outcome" where
  "ct_decide E stopSeen waits d c =
     andThen (ct_deliver E d c) (\<lambda>c1.
     andThen (removeDeliveredFromPool d c1) (\<lambda>c2.
       let c3 = c2\<lparr>ct_decision := None\<rparr> in
       if ct_stopped c3 \<and> stopSeen then Inr c3 else afterDelivery E waits d c3))"

subsection \<open>Synchronizing\<close>

definition maybePruneInFlight ::
  "('a, 'w, 'e) ctlEnv \<Rightarrow> ViewMetadata \<Rightarrow> ('a, 'w) Controller \<Rightarrow> ('a, 'w) Controller outcome" where
  "maybePruneInFlight E syncResultViewMD c =
     (case InFlightProposal (ps_InFlightProposal (ct_State c)) of
        None \<Rightarrow> Inr c
      | Some inFlight \<Rightarrow>
          (case unmarshalMetadata (ce_codec E) (bytes_of (Metadata inFlight)) of
             None \<Rightarrow> Inl (Panic ''In-flight proposal was malformed'')
           | Some inFlightMD \<Rightarrow>
               if LatestSequence syncResultViewMD < LatestSequence inFlightMD then Inr c
               else Inr (c\<lparr>ct_State := (ct_State c)\<lparr>ps_InFlightProposal :=
                              InFlight_clear (ps_InFlightProposal (ct_State c))\<rparr>\<rparr>)))"

definition fetchState ::
  "('a, 'w, 'e) ctlEnv \<Rightarrow> collectEvent list \<Rightarrow> ('a, 'w) Controller \<Rightarrow> (ViewAndSeq option \<times> ('a, 'w) Controller) outcome" where
  "fetchState E events c =
     andThen (BroadcastConsensus E StateTransferRequestMsg (c\<lparr>ct_Collector := ClearCollected (ct_Collector c)\<rparr>)) (\<lambda>c1.
     andThen (CollectStateResponses (ct_Collector c1) events) (\<lambda>r.
       case r of
         Waiting s \<Rightarrow> Inl (Blocked ''CollectStateResponses'')
       | Returned response s \<Rightarrow> Inr (response, c1\<lparr>ct_Collector := s\<rparr>)))"

text \<open>The metadata of the latest decision of the synchronizer: \<open>None\<close> when it is empty.\<close>

definition decisionMetadata :: "('a, 'w, 'e) ctlEnv \<Rightarrow> Proposal \<Rightarrow> ViewMetadata option outcome" where
  "decisionMetadata E p =
     (if bytes_of (Metadata p) = [] then Inr None
      else case unmarshalMetadata (ce_codec E) (bytes_of (Metadata p)) of
        None \<Rightarrow> Inl (Panic ''Controller was unable to unmarshal the proposal metadata returned by the Synchronizer'')
      | Some md \<Rightarrow> Inr (Some md))"

definition callSynchronizer ::
  "('a, 'w, 'e) ctlEnv \<Rightarrow> ('a, 'w) Controller \<Rightarrow> SyncResponse \<times> ('a, 'w) Controller" where
  "callSynchronizer E c =
     (let (app', syncResponse, toChan) = Consensus_Sync (ce_application E) (w_app (ct_world c));
          c1 = ctEmit (map CtReconfig toChan) (c\<lparr>ct_world := (ct_world c)\<lparr>w_app := app'\<rparr>\<rparr>)
      in (syncResponse,
          if InReplicatedDecisions (sr_Reconfig syncResponse)
          then (ct_close c1)\<lparr>ct_ViewChanger := vc_close (ct_ViewChanger c1)\<rparr> else c1))"

text \<open>
  What the synchronizer's answer gives: the numbers of its latest decision (zero without metadata), and the
  proposal sequence, decisions and view to go on with.
\<close>

record syncNumbers =
  sn_metadata :: "ViewMetadata option"
  sn_decisionSeq :: u64
  sn_decisionView :: u64
  sn_newSeq :: u64
  sn_newDecisions :: u64
  sn_newView :: u64

definition adoptDecision ::
  "('a, 'w, 'e) ctlEnv \<Rightarrow> Decision \<Rightarrow> ('a, 'w) Controller \<Rightarrow> (syncNumbers \<times> ('a, 'w) Controller) outcome" where
  "adoptDecision E latestDecision c =
     andThen (decisionMetadata E (dec_Proposal latestDecision)) (\<lambda>latestDecisionMetadata.
     andThen (latestSeq (ce_codec E) (w_Checkpoint (ct_world c))) (\<lambda>controllerSequence.
       let md = (case latestDecisionMetadata of None \<Rightarrow> emptyViewMetadata | Some md \<Rightarrow> md);
           newer = (LatestSequence md > controllerSequence);
           controllerViewNum = ct_currViewNumber c
       in Inr (\<lparr>sn_metadata = latestDecisionMetadata, sn_decisionSeq = LatestSequence md, sn_decisionView = ViewId md,
                sn_newSeq = (if newer then LatestSequence md + 1 else controllerSequence + 1),
                sn_newDecisions = (if newer then DecisionsInView md + 1 else 0),
                sn_newView = (if ViewId md > controllerViewNum then ViewId md else controllerViewNum)\<rparr>,
               if newer
               then c\<lparr>ct_world := (ct_world c)\<lparr>w_Checkpoint := Checkpoint_Set (w_Checkpoint (ct_world c))
                                     (dec_Proposal latestDecision) (dec_Signatures latestDecision)\<rparr>,
                      ct_verificationSequence := VerificationSequence (dec_Proposal latestDecision)\<rparr>
               else c)))"

definition newViewToSave :: "u64 \<Rightarrow> u64 \<Rightarrow> SavedMessage" where
  "newViewToSave view seq = SavedNewView (emptyViewMetadata\<lparr>ViewId := view, LatestSequence := seq\<rparr>)"

text \<open>\<open>None\<close>: there is nothing to report.\<close>

definition adoptState ::
  "('a, 'w, 'e) ctlEnv \<Rightarrow> ViewAndSeq option \<Rightarrow> syncNumbers \<Rightarrow> ('a, 'w) Controller \<Rightarrow>
   (syncNumbers option \<times> ('a, 'w) Controller) outcome" where
  "adoptState E response sn c =
     (let controllerViewNum = ct_currViewNumber c in
      case response of
        None \<Rightarrow>
          Inr (if sn_metadata sn = None \<or> sn_decisionView sn < controllerViewNum then None else Some sn, c)
      | Some r \<Rightarrow>
          if vs_View r \<le> controllerViewNum \<and> sn_decisionView sn < controllerViewNum then Inr (None, c)
          else if vs_View r > sn_newView sn \<and> vs_Seq r = sn_decisionSeq sn + 1
          then andThen (ct_save E (newViewToSave (vs_View r) (sn_decisionSeq sn)) c) (\<lambda>c1.
                 Inr (Some (sn\<lparr>sn_newView := vs_View r, sn_newDecisions := 0\<rparr>), c1))
          else Inr (Some sn, c))"

definition informViewChanger :: "u64 \<Rightarrow> ('a, 'w) Controller \<Rightarrow> ('a, 'w) Controller outcome" where
  "informViewChanger newViewNum c =
     (if newViewNum > ct_currViewNumber c
      then andThen (orBlocked ''informChan'' (InformNewView newViewNum (ct_ViewChanger c)))
             (\<lambda>vc. Inr (c\<lparr>ct_ViewChanger := vc\<rparr>))
      else Inr c)"

text \<open>The results are the view, the sequence and the decisions in view.\<close>

definition ct_sync ::
  "('a, 'w, 'e) ctlEnv \<Rightarrow> collectEvent list \<Rightarrow> ('a, 'w) Controller \<Rightarrow> ((u64 \<times> u64 \<times> u64) \<times> ('a, 'w) Controller) outcome" where
  "ct_sync E events c0 =
     (let (syncResponse, c) = callSynchronizer E (grabSyncToken c0) in
      andThen (adoptDecision E (Latest syncResponse) c) (\<lambda>(sn, c1).
      andThen (fetchState E events c1) (\<lambda>(response, c2).
      andThen (adoptState E response sn c2) (\<lambda>(res, c3).
        case res of
          None \<Rightarrow> Inr ((0, 0, 0), relinquishSyncToken c3)
        | Some sn' \<Rightarrow>
            andThen (case sn_metadata sn' of None \<Rightarrow> Inr c3 | Some md \<Rightarrow> maybePruneInFlight E md c3) (\<lambda>c4.
            andThen (informViewChanger (sn_newView sn') c4) (\<lambda>c5.
              Inr ((sn_newView sn', sn_newSeq sn', sn_newDecisions sn'), relinquishSyncToken c5)))))))"

text \<open>The branch of \<open>run\<close> for a synchronization.\<close>

definition runSync ::
  "('a, 'w, 'e) ctlEnv \<Rightarrow> collectEvent list \<Rightarrow> viewChoice list \<Rightarrow> ('a, 'w) Controller \<Rightarrow> ('a, 'w) Controller outcome" where
  "runSync E events waits c =
     andThen (ct_sync E events c) (\<lambda>((view, seq, dec), c1).
     andThen (MaybePruneRevokedRequests E c1) (\<lambda>c2.
       if view > 0 \<or> seq > 0 then changeView E waits view seq dec c2
       else andThen (GetCurrentSequence c2) (\<lambda>proposalSeq.
              changeView E waits (ct_currViewNumber c2) proposalSeq (ct_currDecisionsInView c2) c2)))"

subsection \<open>Starting and stopping\<close>

definition syncOnStart ::
  "('a, 'w, 'e) ctlEnv \<Rightarrow> collectEvent list \<Rightarrow> u64 \<Rightarrow> u64 \<Rightarrow> u64 \<Rightarrow> ('a, 'w) Controller \<Rightarrow>
   ((u64 \<times> u64 \<times> u64) \<times> ('a, 'w) Controller) outcome" where
  "syncOnStart E events startViewNumber startProposalSequence startDecisionsInView c =
     andThen (ct_sync E events c) (\<lambda>((syncView, syncSeq, syncDecisions), c1).
     andThen (MaybePruneRevokedRequests E c1) (\<lambda>c2.
       let (viewNum, decisions) = (if syncView > startViewNumber then (syncView, syncDecisions)
                                   else (startViewNumber, startDecisionsInView));
           (seq, decisions') = (if syncSeq > startProposalSequence then (syncSeq, syncDecisions)
                                else (startProposalSequence, decisions))
       in Inr ((viewNum, seq, decisions'), c2)))"

text \<open>The channels of a controller that starts, and the goroutine of the client requests that \<open>run\<close> starts.\<close>

definition ct_Start ::
  "('a, 'w, 'e) ctlEnv \<Rightarrow> collectEvent list \<Rightarrow> u64 \<Rightarrow> u64 \<Rightarrow> u64 \<Rightarrow> bool \<Rightarrow> ('a, 'w) Controller \<Rightarrow>
   ('a, 'w) Controller outcome" where
  "ct_Start E events startViewNumber startProposalSequence startDecisionsInView doSync c =
     andThen (newProcessor (ct_N c) (ct_NodesList c) (Capacity (ct_RequestPool c))) (\<lambda>client_requests.
       let c1 = c\<lparr>ct_syncChan := False, ct_stopped := False, ct_leaderToken := False, ct_decision := None,
                  ct_viewChange := [], ct_abortViewChan := [], ct_client_requests := client_requests,
                  ct_quorum := fst (computeQuorum (ct_N c)),
                  ct_verificationSequence := api_VerificationSequence (ce_services E) (w_app (ct_world c))\<rparr>
       in andThen (if doSync
                   then syncOnStart E events startViewNumber startProposalSequence startDecisionsInView c1
                   else Inr ((startViewNumber, startProposalSequence, startDecisionsInView), c1))
            (\<lambda>((view, seq, decisions), c2).
               andThen (startView E seq (c2\<lparr>ct_currViewNumber := view, ct_currDecisionsInView := decisions\<rparr>)) (\<lambda>c3.
                 Inr (c3\<lparr>ct_client_requests := Processor_Start (ct_client_requests c3), ct_running := True\<rparr>))))"

text \<open>\<open>run\<close> takes \<open>stopChan\<close> and returns: the deferred \<open>Abort\<close> of the current view.\<close>

definition runExit ::
  "('a, 'w, 'e) ctlEnv \<Rightarrow> viewChoice list \<Rightarrow> ('a, 'w) Controller \<Rightarrow> ('a, 'w) Controller outcome" where
  "runExit E waits c = andThen (abortCurrView E waits c) (\<lambda>c1. Inr (c1\<lparr>ct_running := False\<rparr>))"

definition stopComponents :: "('a, 'w) Controller \<Rightarrow> ('a, 'w) Controller" where
  "stopComponents c = relinquishLeaderToken (ctEmit [CtMonitorClose] (closeBatcher (ct_close c)))"

text \<open>\<open>Stop\<close> waits until the goroutine of \<open>run\<close> has returned.\<close>

definition awaitRun ::
  "('a, 'w, 'e) ctlEnv \<Rightarrow> viewChoice list \<Rightarrow> ('a, 'w) Controller \<Rightarrow> ('a, 'w) Controller outcome" where
  "awaitRun E waits c = (if ct_running c then runExit E waits c else Inr c)"

definition ct_Stop ::
  "('a, 'w, 'e) ctlEnv \<Rightarrow> viewChoice list \<Rightarrow> ('a, 'w) Controller \<Rightarrow> ('a, 'w) Controller outcome" where
  "ct_Stop E waits c =
     andThen (Pool_Close (ct_RequestPool c)) (\<lambda>rp. awaitRun E waits (stopComponents (c\<lparr>ct_RequestPool := rp\<rparr>)))"

definition StopWithPoolPause ::
  "('a, 'w, 'e) ctlEnv \<Rightarrow> viewChoice list \<Rightarrow> ('a, 'w) Controller \<Rightarrow> ('a, 'w) Controller outcome" where
  "StopWithPoolPause E waits c =
     awaitRun E waits (stopComponents (c\<lparr>ct_RequestPool := StopTimers (ct_RequestPool c)\<rparr>))"

end
