(* ===== verification/ControllerRuns.thy ===== *)
theory ControllerRuns
  imports Controller Recovery
begin

text \<open>
  Runs of the controller: its methods, called by any goroutine in any order, and the cases of its own goroutine
  \<open>run\<close>, as a step relation, with the invariants of every run. Each method is shown to \<open>advance\<close> the controller: it keeps
  what identifies the node, never lowers the number of the current view, and keeps the invariant \<open>ctl_inv\<close>:
  the current view meets the invariant of theory \<open>ViewSafety\<close>, and whatever is decided or delivered has a certificate.
\<close>

subsection \<open>Steps\<close>

text \<open>A goroutine of the client requests: it hands the request it takes to \<open>ProcessRequest\<close>.\<close>

definition clientStep :: "('a, 'w, 'e) ctlEnv \<Rightarrow> nat \<Rightarrow> ('a, 'w) Controller \<Rightarrow> ('a, 'w) Controller outcome" where
  "clientStep E i c =
     andThen (processRequest i (ct_client_requests c)) (\<lambda>(req, p).
       let c1 = c\<lparr>ct_client_requests := p\<rparr> in
       case req of None \<Rightarrow> Inr c1 | Some requestData \<Rightarrow> ProcessRequest E requestData c1)"

inductive ctl_step :: "('a, 'w, 'e) ctlEnv \<Rightarrow> ('a, 'w) Controller \<Rightarrow> ('a, 'w) Controller \<Rightarrow> bool" for E where
  ctl_view: "viewMove E ch c = Inr c' \<Longrightarrow> ctl_step E c c'"
| ctl_message: "ProcessMessages E enqueue sender m c = Inr c' \<Longrightarrow> ctl_step E c c'"
| ctl_request: "HandleRequest E sender req c = Inr c' \<Longrightarrow> ctl_step E c c'"
| ctl_client: "inRound i (ct_client_requests c) \<Longrightarrow> clientStep E i c = Inr c' \<Longrightarrow> ctl_step E c c'"
| ctl_submit: "SubmitRequest E req c = Inr (err, c') \<Longrightarrow> ctl_step E c c'"
| ctl_forward: "ct_OnRequestTimeout E req c = Inr c' \<Longrightarrow> ctl_step E c c'"
| ctl_complain: "ct_OnLeaderFwdRequestTimeout E c = Inr c' \<Longrightarrow> ctl_step E c c'"
| ctl_heartbeat: "OnHeartbeatTimeout E view leader c = Inr c' \<Longrightarrow> ctl_step E c c'"
| ctl_syncCall: "ct_Sync E c = Inr c' \<Longrightarrow> ctl_step E c c'"
| ctl_abortCall: "ct_AbortView view c = Some c' \<Longrightarrow> ctl_step E c c'"
| ctl_changedCall: "ViewChanged E view seq c = Inr c' \<Longrightarrow> ctl_step E c c'"
| ctl_pruneCall: "MaybePruneRevokedRequests E c = Inr c' \<Longrightarrow> ctl_step E c c'"
| ctl_broadcastCall: "BroadcastConsensus E m c = Inr c' \<Longrightarrow> ctl_step E c c'"
| ctl_closeCall: "ctl_step E c (stopComponents c)"
| ctl_decision: "ct_running c \<Longrightarrow> ct_decision c = Some d \<Longrightarrow> ct_decide E stopSeen waits d c = Inr c' \<Longrightarrow> ctl_step E c c'"
| ctl_viewChange: "ct_running c \<Longrightarrow> ct_viewChange c = [vi] \<Longrightarrow>
    changeView E waits (vi_viewNumber vi) (vi_proposalSeq vi) 0 (c\<lparr>ct_viewChange := []\<rparr>) = Inr c' \<Longrightarrow> ctl_step E c c'"
| ctl_abort: "ct_running c \<Longrightarrow> ct_abortViewChan c = [view] \<Longrightarrow>
    abortView E waits view (c\<lparr>ct_abortViewChan := []\<rparr>) = Inr (aborted, c') \<Longrightarrow> ctl_step E c c'"
| ctl_stop: "ct_running c \<Longrightarrow> ct_stopped c \<Longrightarrow> runExit E waits c = Inr c' \<Longrightarrow> ctl_step E c c'"
| ctl_propose: "ct_running c \<Longrightarrow> ct_leaderToken c \<Longrightarrow>
    propose E batchEvents (c\<lparr>ct_leaderToken := False\<rparr>) = Inr c' \<Longrightarrow> ctl_step E c c'"
| ctl_sync: "ct_running c \<Longrightarrow> ct_syncChan c \<Longrightarrow>
    runSync E events waits (c\<lparr>ct_syncChan := False\<rparr>) = Inr c' \<Longrightarrow> ctl_step E c c'"
\<comment> \<open>the other goroutines on the state they share with the controller: the timers of the pool, the view changer,
  which also delivers, and persists its records\<close>
| ctl_pool: "ctl_step E c (c\<lparr>ct_RequestPool := rp\<rparr>)"
| ctl_viewChanger: "ctl_step E c (c\<lparr>ct_ViewChanger := vc\<rparr>)"
| ctl_vcDeliver: "MutuallyExclusiveDeliver (ce_codec E) (ce_application E) (ct_world c) p sigs = Inr (w, r) \<Longrightarrow>
    ctl_step E c (c\<lparr>ct_world := w\<rparr>)"
| ctl_vcSave: "ct_save E m c = Inr c' \<Longrightarrow> ctl_step E c c'"
| ctl_vcInFlight: "ctl_step E c (c\<lparr>ct_State := (ct_State c)\<lparr>ps_InFlightProposal := ifp\<rparr>\<rparr>)"

abbreviation ctl_steps :: "('a, 'w, 'e) ctlEnv \<Rightarrow> ('a, 'w) Controller \<Rightarrow> ('a, 'w) Controller \<Rightarrow> bool" where
  "ctl_steps E \<equiv> (ctl_step E)\<^sup>*\<^sup>*"

subsection \<open>The invariant\<close>

text \<open>Signatures the verifier accepts for a proposal, and those of the node itself: made now or read from the log.\<close>

definition acceptedSig :: "('a, 'w, 'e) ctlEnv \<Rightarrow> Signature \<Rightarrow> Proposal \<Rightarrow> bool" where
  "acceptedSig E sig p \<longleftrightarrow> (\<exists>app aux. api_VerifyConsenterSig (ce_services E) app sig p = Some aux)"

definition loggedSig :: "('a, 'w, 'e) ctlEnv \<Rightarrow> bytes list \<Rightarrow> Signature \<Rightarrow> bool" where
  "loggedSig E logged sig \<longleftrightarrow> (\<exists>e\<in>set logged. \<exists>cmt.
     unmarshalSaved (ce_codec E) e = Some (SavedCommit (CommitMsg cmt)) \<and> cmt_Signature cmt = Some sig)"

definition ownSig :: "('a, 'w, 'e) ctlEnv \<Rightarrow> bytes list \<Rightarrow> Signature \<Rightarrow> Proposal \<Rightarrow> bool" where
  "ownSig E logged sig p \<longleftrightarrow> (\<exists>app raw. sig = api_SignProposal (ce_services E) app p raw) \<or> loggedSig E logged sig"

definition certified ::
  "('a, 'w, 'e) ctlEnv \<Rightarrow> bytes list \<Rightarrow> u64 \<Rightarrow> int \<Rightarrow> Proposal \<Rightarrow> Signature list \<Rightarrow> bool" where
  "certified E logged self quorum p sigs \<longleftrightarrow> (\<exists>others own. sigs = others @ [own] \<and> quorum \<le> int (length sigs) \<and>
     distinct (map Signer others) \<and> self \<notin> Signer ` set others \<and> (\<forall>sig\<in>set others. acceptedSig E sig p) \<and>
     ownSig E logged own p)"

fun deliveredBy :: "ctlEffect list \<Rightarrow> (Proposal \<times> Signature list) list" where
  "deliveredBy [] = []"
| "deliveredBy (CtDelivered p sigs # es) = (p, sigs) # deliveredBy es"
| "deliveredBy (_ # es) = deliveredBy es"

lemma deliveredBy_append [simp]: "deliveredBy (xs @ ys) = deliveredBy xs @ deliveredBy ys"
  by (induction xs rule: deliveredBy.induct) auto

lemma deliveredBy_maps [simp]:
  "deliveredBy (map (\<lambda>node. CtSend node m) nodes) = []" "deliveredBy (map CtReconfig rs) = []"
  by (induction nodes) (auto, induction rs, auto)

type_synonym nodeIdentity = "u64 \<times> u64 \<times> u64 list \<times> int \<times> u64 \<times> bytes list"

definition ctIdentity :: "('a, 'w) Controller \<Rightarrow> nodeIdentity" where
  "ctIdentity c = (ct_ID c, ct_N c, ct_NodesList c, ct_quorum c, pm_SelfID (ct_ProposerBuilder c), ps_Entries (ct_State c))"

definition ctl_inv :: "('a, 'w, 'e) ctlEnv \<Rightarrow> ('a, 'w) Controller \<Rightarrow> bool" where
  "ctl_inv E c \<longleftrightarrow>
     view_inv (ce_codec E) (acceptedSig E) (ownSig E (ps_Entries (ct_State c))) UNIV (ct_CurrView c) \<and>
     pm_SelfID (ct_ProposerBuilder c) = ct_ID c \<and> v_SelfID (ct_CurrView c) = ct_ID c \<and>
     v_Quorum (ct_CurrView c) = ct_quorum c \<and>
     (\<forall>(p, sigs)\<in>set (deliveredBy (ct_effects c)). certified E (ps_Entries (ct_State c)) (ct_ID c) (ct_quorum c) p sigs) \<and>
     (\<forall>d. ct_decision c = Some d \<longrightarrow>
        certified E (ps_Entries (ct_State c)) (ct_ID c) (ct_quorum c) (dc_proposal d) (dc_signatures d))"

definition advances :: "('a, 'w, 'e) ctlEnv \<Rightarrow> ('a, 'w) Controller \<Rightarrow> ('a, 'w) Controller \<Rightarrow> bool" where
  "advances E c c' \<longleftrightarrow> ctIdentity c' = ctIdentity c \<and> ct_currViewNumber c \<le> ct_currViewNumber c' \<and>
     (ctl_inv E c \<longrightarrow> ctl_inv E c')"

named_theorems advance \<open>operations of the controller advance it\<close>

lemma advances_refl [simp]: "advances E c c"
  by (simp add: advances_def)

lemma advances_trans [trans]: "advances E a b \<Longrightarrow> advances E b c \<Longrightarrow> advances E a c"
  by (auto simp: advances_def)

text \<open>Operations that touch neither the identity, the view number, the view, the pending decision nor the deliveries.\<close>

definition coreEq :: "('a, 'w) Controller \<Rightarrow> ('a, 'w) Controller \<Rightarrow> bool" where
  "coreEq c c' \<longleftrightarrow> ctIdentity c' = ctIdentity c \<and> ct_currViewNumber c' = ct_currViewNumber c \<and>
     ct_CurrView c' = ct_CurrView c \<and> ct_decision c' = ct_decision c \<and>
     deliveredBy (ct_effects c') = deliveredBy (ct_effects c)"

named_theorems core \<open>operations that keep the core of the controller\<close>

lemma coreEq_refl [simp]: "coreEq c c"
  by (simp add: coreEq_def)

lemma coreEq_trans [trans]: "coreEq a b \<Longrightarrow> coreEq b c \<Longrightarrow> coreEq a c"
  by (simp add: coreEq_def)

lemma coreEq_advances: "coreEq c c' \<Longrightarrow> advances E c c'"
  by (auto simp: coreEq_def advances_def ctl_inv_def ctIdentity_def)

lemmas core_defs = coreEq_def ctIdentity_def ctEmit_def

subsection \<open>Methods that keep the core\<close>

lemma core_updates [simp]:
  "coreEq c (c\<lparr>ct_RequestPool := rp\<rparr>)" "coreEq c (c\<lparr>ct_Batcher := b\<rparr>)" "coreEq c (c\<lparr>ct_world := w\<rparr>)"
  "coreEq c (c\<lparr>ct_ViewChanger := vc\<rparr>)" "coreEq c (c\<lparr>ct_Collector := s\<rparr>)" "coreEq c (c\<lparr>ct_viewChange := x\<rparr>)"
  "coreEq c (c\<lparr>ct_abortViewChan := y\<rparr>)" "coreEq c (c\<lparr>ct_stopped := z\<rparr>)" "coreEq c (c\<lparr>ct_syncChan := z\<rparr>)"
  "coreEq c (c\<lparr>ct_leaderToken := z\<rparr>)" "coreEq c (c\<lparr>ct_verificationSequence := n\<rparr>)"
  "coreEq c (c\<lparr>ct_client_requests := p\<rparr>)" "coreEq c (c\<lparr>ct_running := z\<rparr>)"
  "coreEq c (c\<lparr>ct_currDecisionsInView := n\<rparr>)" "deliveredBy es = [] \<Longrightarrow> coreEq c (ctEmit es c)"
  "coreEq c (c\<lparr>ct_State := (ct_State c)\<lparr>ps_InFlightProposal := ifp\<rparr>\<rparr>)"
  "coreEq c (c\<lparr>ct_ProposerBuilder := (ct_ProposerBuilder c)\<lparr>pm_ViewSequences := vs\<rparr>\<rparr>)"
  by (simp_all add: core_defs)

lemma core_small [simp]:
  "coreEq c (acquireLeaderToken c)" "coreEq c (relinquishLeaderToken c)" "coreEq c (grabSyncToken c)"
  "coreEq c (relinquishSyncToken c)" "coreEq c (ct_close c)" "coreEq c (closeBatcher c)"
  "coreEq c (incrementCurrentDecisionsInView c)" "coreEq c (setCurrentDecisionsInView n c)"
  by (simp_all add: acquireLeaderToken_def relinquishLeaderToken_def grabSyncToken_def relinquishSyncToken_def
      ct_close_def closeBatcher_def incrementCurrentDecisionsInView_def setCurrentDecisionsInView_def)

lemma recordInFlight_entries: "recordInFlight ps m = Inr ps' \<Longrightarrow> ps_Entries ps' = ps_Entries ps"
  by (cases m)
    (auto simp: recordInFlight_def storeProposal_def storePrepared_def andThen_eq_Inr_iff split: option.splits)

lemma PersistedState_Save_entries:
  assumes "PersistedState_Save C app ps m = Inr (ps', ok)"
  shows "ps_Entries ps' = ps_Entries ps"
proof -
  obtain ps1 where r: "recordInFlight ps m = Inr ps1"
    "(case app (ps_WAL ps1) (marshalSaved C m) (isProposedRecord m) of
        Inl err \<Rightarrow> Inr (ps1, False) | Inr wal \<Rightarrow> Inr (ps1\<lparr>ps_WAL := wal\<rparr>, True)) = (Inr (ps', ok) :: _ outcome)"
    using assms unfolding PersistedState_Save_def by (rule andThenE)
  have "ps_Entries ps' = ps_Entries ps1" using r(2) by (auto split: sum.splits)
  then show ?thesis using recordInFlight_entries [OF r(1)] by simp
qed

lemma ct_save_core [core]: "ct_save E m c = Inr c' \<Longrightarrow> coreEq c c'"
  by (auto simp: ct_save_def andThen_eq_Inr_iff core_defs dest: PersistedState_Save_entries split: if_splits)

lemma BroadcastConsensus_core [core]: "BroadcastConsensus E m c = Inr c' \<Longrightarrow> coreEq c c'"
  by (auto simp: BroadcastConsensus_def Let_def andThen_eq_Inr_iff core_defs split: if_splits)

lemma addRequest_core [core]: "addRequest E req c = Inr (err, c') \<Longrightarrow> coreEq c c'"
  by (auto simp: addRequest_def andThen_eq_Inr_iff)

lemma ProcessRequest_core [core]: "ProcessRequest E rd c = Inr c' \<Longrightarrow> coreEq c c'"
  by (auto simp: ProcessRequest_def andThen_eq_Inr_iff split: if_splits option.splits dest: addRequest_core)

lemma ct_Complain_core [core]: "ct_Complain E n b c = Inr c' \<Longrightarrow> coreEq c c'"
  by (auto simp: ct_Complain_def split: if_splits)

lemma requests_core [core]:
  "HandleRequest E sender req c = Inr c' \<Longrightarrow> coreEq c c'"
  "ct_OnRequestTimeout E req c = Inr c' \<Longrightarrow> coreEq c c'"
  "ct_OnLeaderFwdRequestTimeout E c = Inr c' \<Longrightarrow> coreEq c c'"
  "OnHeartbeatTimeout E view leader c = Inr c' \<Longrightarrow> coreEq c c'"
  by (auto simp: HandleRequest_def ct_OnRequestTimeout_def ct_OnLeaderFwdRequestTimeout_def OnHeartbeatTimeout_def
      andThen_eq_Inr_iff split: if_splits dest: ct_Complain_core)

lemma calls_core [core]:
  "ct_Sync E c = Inr c' \<Longrightarrow> coreEq c c'"
  "ct_AbortView view c = Some c' \<Longrightarrow> coreEq c c'"
  "ViewChanged E view seq c = Inr c' \<Longrightarrow> coreEq c c'"
  "MaybePruneRevokedRequests E c = Inr c' \<Longrightarrow> coreEq c c'"
  by (auto simp: ct_Sync_def ct_AbortView_def ViewChanged_def MaybePruneRevokedRequests_def Let_def andThen_eq_Inr_iff
      core_defs closeBatcher_def grabSyncToken_def split: if_splits)

lemma clientStep_core [core]: "clientStep E i c = Inr c' \<Longrightarrow> coreEq c c'"
  by (auto simp: clientStep_def Let_def andThen_eq_Inr_iff split: option.splits
      dest!: ProcessRequest_core intro: coreEq_trans core_updates)

lemma maybePruneInFlight_core [core]: "maybePruneInFlight E md c = Inr c' \<Longrightarrow> coreEq c c'"
  by (auto simp: maybePruneInFlight_def split: if_splits option.splits)

lemma adoptDecision_core [core]:
  assumes "adoptDecision E d c = Inr (sn, c')"
  shows "coreEq c c'"
proof -
  obtain newer w n where "c' = (if newer then c\<lparr>ct_world := w, ct_verificationSequence := n\<rparr> else c)"
    using assms unfolding adoptDecision_def Let_def andThen_eq_Inr_iff by blast
  then show ?thesis by (cases newer) (simp_all add: core_defs)
qed

lemma informViewChanger_core [core]: "informViewChanger n c = Inr c' \<Longrightarrow> coreEq c c'"
  by (auto simp: informViewChanger_def andThen_eq_Inr_iff split: if_splits)

lemma callSynchronizer_core [core]: "callSynchronizer E c = (resp, c') \<Longrightarrow> coreEq c c'"
  by (auto simp: callSynchronizer_def Let_def core_defs ct_close_def split: if_splits prod.splits)

lemma fetchState_core [core]:
  assumes "fetchState E evs c = Inr (r, c')"
  shows "coreEq c c'"
proof -
  obtain c1 res where b: "BroadcastConsensus E StateTransferRequestMsg (c\<lparr>ct_Collector := ClearCollected (ct_Collector c)\<rparr>) = Inr c1"
    "(case res of Waiting s \<Rightarrow> Inl (Blocked ''CollectStateResponses'')
      | Returned response s \<Rightarrow> Inr (response, c1\<lparr>ct_Collector := s\<rparr>)) = (Inr (r, c') :: _ outcome)"
    using assms unfolding fetchState_def by (auto simp: andThen_eq_Inr_iff)
  have "coreEq c (c\<lparr>ct_Collector := ClearCollected (ct_Collector c)\<rparr>)" by simp
  also have "coreEq \<dots> c1" using b(1) by (rule BroadcastConsensus_core)
  also have "coreEq \<dots> c'" using b(2) by (auto split: collectResult.splits)
  finally show ?thesis .
qed

lemma adoptState_core [core]: "adoptState E r sn c = Inr (res, c') \<Longrightarrow> coreEq c c'"
  by (auto simp: adoptState_def Let_def andThen_eq_Inr_iff split: option.splits if_splits dest: ct_save_core)

lemma ct_sync_core [core]:
  assumes "ct_sync E evs c = Inr (r, c')"
  shows "coreEq c c'"
proof -
  obtain resp c0 sn c1 response c2 res c3 where
    s: "callSynchronizer E (grabSyncToken c) = (resp, c0)" "adoptDecision E (Latest resp) c0 = Inr (sn, c1)"
      "fetchState E evs c1 = Inr (response, c2)" "adoptState E response sn c2 = Inr (res, c3)"
    and rest: "(case res of None \<Rightarrow> Inr ((0, 0, 0), relinquishSyncToken c3)
        | Some sn' \<Rightarrow>
            andThen (case sn_metadata sn' of None \<Rightarrow> Inr c3 | Some md \<Rightarrow> maybePruneInFlight E md c3) (\<lambda>c4.
            andThen (informViewChanger (sn_newView sn') c4) (\<lambda>c5.
              Inr ((sn_newView sn', sn_newSeq sn', sn_newDecisions sn'), relinquishSyncToken c5)))) = Inr (r, c')"
    using assms by (auto simp: ct_sync_def andThen_eq_Inr_iff split: prod.splits)
  have "coreEq c (grabSyncToken c)" by simp
  also have "coreEq \<dots> c0" using s(1) by (rule callSynchronizer_core)
  also have "coreEq \<dots> c1" using s(2) by (rule adoptDecision_core)
  also have "coreEq \<dots> c2" using s(3) by (rule fetchState_core)
  also have "coreEq \<dots> c3" using s(4) by (rule adoptState_core)
  finally have c3: "coreEq c c3" .
  have after: "coreEq c3 c'"
  proof (cases res)
    case None
    then show ?thesis using rest by auto
  next
    case (Some sn')
    then obtain c4 c5 where
      p: "(case sn_metadata sn' of None \<Rightarrow> Inr c3 | Some md \<Rightarrow> maybePruneInFlight E md c3) = Inr c4"
      "informViewChanger (sn_newView sn') c4 = Inr c5" "c' = relinquishSyncToken c5"
      using rest by (auto simp: andThen_eq_Inr_iff)
    have "coreEq c3 c4" using p(1) by (auto split: option.splits dest: maybePruneInFlight_core)
    also have "coreEq \<dots> c5" using p(2) by (rule informViewChanger_core)
    also have "coreEq \<dots> c'" by (simp add: p(3))
    finally show ?thesis .
  qed
  show ?thesis by (rule coreEq_trans [OF c3 after])
qed

subsection \<open>The current view\<close>

lemma ct_environment: "environment (ce_codec E) (acceptedSig E) (ownSig E logged) (ct_viewEnv E c)"
  by (auto simp: environment_def ct_viewEnv_def acceptedSig_def ownSig_def)

text \<open>A step of the view keeps its part of the invariant.\<close>

lemma viewStep_keeps:
  assumes "viewStep (ct_viewEnv E c) (ct_CurrView c) ch = Inr (v, effs)" "ctl_inv E c"
  shows "view_inv (ce_codec E) (acceptedSig E) (ownSig E (ps_Entries (ct_State c))) UNIV v"
    "list_all (effect_ok (ce_codec E) (acceptedSig E) (ownSig E (ps_Entries (ct_State c))) UNIV (ct_CurrView c)) effs"
    "v_SelfID v = ct_ID c" "v_Quorum v = ct_quorum c"
proof -
  show "view_inv (ce_codec E) (acceptedSig E) (ownSig E (ps_Entries (ct_State c))) UNIV v"
    "list_all (effect_ok (ce_codec E) (acceptedSig E) (ownSig E (ps_Entries (ct_State c))) UNIV (ct_CurrView c)) effs"
    using viewStep_view_inv [OF assms(1) _ ct_environment, of "ps_Entries (ct_State c)" UNIV] assms(2)
    by (simp_all add: ctl_inv_def)
  show "v_SelfID v = ct_ID c" "v_Quorum v = ct_quorum c"
    using viewStep_same [OF assms(1)] assms(2) by (simp_all add: sameView_def viewIdentity_def ctl_inv_def)
qed

lemma setView_advances:
  assumes "viewStep (ct_viewEnv E c) (ct_CurrView c) ch = Inr (v, effs)"
  shows "advances E c (c\<lparr>ct_CurrView := v\<rparr>)"
  using viewStep_keeps [OF assms] by (auto simp: advances_def ctIdentity_def ctl_inv_def)

lemma stopView_advances [advance]: "advances E c (c\<lparr>ct_CurrView := view_stop (ct_CurrView c)\<rparr>)"
  by (rule setView_advances [where ch = ChStop and effs = "[]"]) (simp add: viewStep_def)

lemma handleMessage_advances:
  assumes "View_HandleMessage (ct_CurrView c) sender m = Some v"
  shows "advances E c (c\<lparr>ct_CurrView := v\<rparr>)"
  by (rule setView_advances [where ch = "ChDeliver sender m" and effs = "[]"]) (simp add: viewStep_def assms)

lemma handleViewMessages_advances [advance]:
  assumes "handleViewMessages E sender m c = Inr c'"
  shows "advances E c c'"
proof -
  obtain v vc leader where r: "View_HandleMessage (ct_CurrView c) sender m = Some v"
    "c' = (let c1 = c\<lparr>ct_CurrView := v, ct_ViewChanger := vc\<rparr> in
       if sender = leader then ctEmit [CtInjectArtificialHeartbeat sender (convertViewMessageToHeartbeat m)] c1 else c1)"
    using assms by (auto simp: handleViewMessages_def Let_def andThen_eq_Inr_iff orBlocked_def split: option.splits)
  have "advances E c (c\<lparr>ct_CurrView := v\<rparr>)" using r(1) by (rule handleMessage_advances)
  also have "advances E \<dots> c'" by (rule coreEq_advances) (simp add: r(2) core_defs Let_def)
  finally show ?thesis .
qed

lemma ProcessMessages_advances [advance]:
  "ProcessMessages E enqueue sender m c = Inr c' \<Longrightarrow> advances E c c'"
  by (cases m)
    (auto simp: andThen_eq_Inr_iff respondToStateTransferRequest_def
      intro: coreEq_advances dest: handleViewMessages_advances)

lemma decisionCert_certified:
  "decisionCert C (acceptedSig E) (ownSig E logged) UNIV v p sigs \<Longrightarrow>
   certified E logged (v_SelfID v) (v_Quorum v) p sigs"
  by (auto simp: decisionCert_def certified_def)

lemma viewCall_frame:
  "viewCall E e c = Inr c' \<Longrightarrow> ctIdentity c' = ctIdentity c \<and> ct_currViewNumber c' = ct_currViewNumber c"
proof (cases "\<exists>p sigs reqs. e = Decide p sigs reqs")
  case False
  assume "viewCall E e c = Inr c'"
  then have "coreEq c c'" using False by (cases e) (auto simp: viewCall_def dest: core)
  then show ?thesis by (simp add: coreEq_def)
qed (auto simp: viewCall_def ctIdentity_def)

lemma viewCalls_frame:
  "viewCalls E effs c = Inr c' \<Longrightarrow> ctIdentity c' = ctIdentity c \<and> ct_currViewNumber c' = ct_currViewNumber c"
proof (induction effs arbitrary: c)
  case (Cons e effs)
  then show ?case using viewCall_frame by (fastforce simp: andThen_eq_Inr_iff)
qed simp

abbreviation effects_ok :: "('a, 'w, 'e) ctlEnv \<Rightarrow> ('a, 'w) Controller \<Rightarrow> View \<Rightarrow> viewEffect list \<Rightarrow> bool" where
  "effects_ok E c v effs \<equiv>
     list_all (effect_ok (ce_codec E) (acceptedSig E) (ownSig E (ps_Entries (ct_State c))) UNIV v) effs"

lemma viewCall_inv:
  assumes "viewCall E e c = Inr c'" "ctl_inv E c" "effects_ok E c v [e]" "v_SelfID v = ct_ID c" "v_Quorum v = ct_quorum c"
  shows "ctl_inv E c'"
proof (cases "\<exists>p sigs reqs. e = Decide p sigs reqs")
  case True
  then obtain p sigs reqs where e: "e = Decide p sigs reqs" by blast
  have "certified E (ps_Entries (ct_State c)) (ct_ID c) (ct_quorum c) p sigs"
    using assms(3-5) e decisionCert_certified [of "ce_codec E" E "ps_Entries (ct_State c)" v p sigs]
    by (simp add: effect_ok_def)
  then show ?thesis using assms(1,2) e by (auto simp: viewCall_def ctl_inv_def)
next
  case False
  have "coreEq c c'" using assms(1) False by (cases e) (auto simp: viewCall_def dest: core)
  then show ?thesis using assms(2) coreEq_advances by (auto simp: advances_def)
qed

lemma viewCalls_inv:
  assumes "viewCalls E effs c = Inr c'" "ctl_inv E c" "effects_ok E c v effs" "v_SelfID v = ct_ID c" "v_Quorum v = ct_quorum c"
  shows "ctl_inv E c'"
  using assms
proof (induction effs arbitrary: c)
  case (Cons e effs)
  obtain c1 where c1: "viewCall E e c = Inr c1" "viewCalls E effs c1 = Inr c'"
    using Cons.prems(1) by (auto simp: andThen_eq_Inr_iff)
  have "ctl_inv E c1" by (rule viewCall_inv [OF c1(1)]) (use Cons.prems in auto)
  moreover have "ps_Entries (ct_State c1) = ps_Entries (ct_State c)" "ct_ID c1 = ct_ID c" "ct_quorum c1 = ct_quorum c"
    using viewCall_frame [OF c1(1)] by (simp_all add: ctIdentity_def)
  ultimately show ?case using Cons.prems by (intro Cons.IH [OF c1(2)]) auto
qed simp

lemma viewMove_advances [advance]:
  assumes "viewMove E ch c = Inr c'"
  shows "advances E c c'"
proof (cases "ct_decision c \<noteq> None \<and> \<not> ct_stopped c")
  case False
  obtain v effs where s: "viewStep (ct_viewEnv E c) (ct_CurrView c) ch = Inr (v, effs)"
    "viewCalls E effs (c\<lparr>ct_CurrView := v, ct_decision := None\<rparr>) = Inr c'"
    using assms False by (auto simp: viewMove_def andThen_eq_Inr_iff split: if_splits)
  have "ctl_inv E c'" if i: "ctl_inv E c"
  proof (rule viewCalls_inv [OF s(2), where v = "ct_CurrView c"])
    show "ctl_inv E (c\<lparr>ct_CurrView := v, ct_decision := None\<rparr>)"
      using i viewStep_keeps [OF s(1) i] by (simp add: ctl_inv_def)
  qed (use i viewStep_keeps(2) [OF s(1) i] in \<open>simp_all add: ctl_inv_def\<close>)
  then show ?thesis using viewCalls_frame [OF s(2)] by (simp add: advances_def ctIdentity_def)
qed (use assms in \<open>simp add: viewMove_def\<close>)

lemma viewMoves_advances [advance]: "viewMoves E chs c = Inr c' \<Longrightarrow> advances E c c'"
proof (induction chs arbitrary: c)
  case (Cons ch chs)
  then show ?case using viewMove_advances advances_trans by (fastforce simp: andThen_eq_Inr_iff)
qed simp

lemma abortCurrView_advances [advance]:
  assumes "abortCurrView E waits c = Inr c'"
  shows "advances E c c'"
proof -
  obtain c1 v where r: "viewMoves E waits (c\<lparr>ct_CurrView := view_stop (ct_CurrView c)\<rparr>) = Inr c1"
    "View_Abort (ct_CurrView c1) = Inr v" "c' = c1\<lparr>ct_CurrView := v\<rparr>"
    using assms by (auto simp: abortCurrView_def andThen_eq_Inr_iff)
  have "advances E c (c\<lparr>ct_CurrView := view_stop (ct_CurrView c)\<rparr>)" by (rule stopView_advances)
  also have "advances E \<dots> c1" using r(1) by (rule viewMoves_advances)
  also have "advances E \<dots> c'" using stopView_advances [of E c1] r(2,3) by (auto simp: View_Abort_def Let_def split: if_splits)
  finally show ?thesis .
qed

lemma viewMoves_number: "viewMoves E chs c = Inr c' \<Longrightarrow> ct_currViewNumber c' = ct_currViewNumber c"
proof (induction chs arbitrary: c)
  case (Cons ch chs)
  obtain c1 where c1: "viewMove E ch c = Inr c1" "viewMoves E chs c1 = Inr c'"
    using Cons.prems by (auto simp: andThen_eq_Inr_iff)
  have "ct_currViewNumber c1 = ct_currViewNumber c"
    using c1(1) by (auto simp: viewMove_def andThen_eq_Inr_iff split: if_splits dest!: viewCalls_frame)
  then show ?case using Cons.IH [OF c1(2)] by simp
qed simp

lemma abortView_number: "abortView E waits view c = Inr (b, c') \<Longrightarrow> ct_currViewNumber c' = ct_currViewNumber c"
  by (auto simp: abortView_def abortCurrView_def andThen_eq_Inr_iff relinquishLeaderToken_def split: if_splits
      dest!: viewMoves_number)

lemma abortView_advances [advance]: "abortView E waits view c = Inr (b, c') \<Longrightarrow> advances E c c'"
  using coreEq_advances [of c "relinquishLeaderToken c" E]
  by (auto simp: abortView_def andThen_eq_Inr_iff split: if_splits dest: abortCurrView_advances intro: advances_trans)

lemma runExit_advances [advance]: "runExit E waits c = Inr c' \<Longrightarrow> advances E c c'"
  by (auto simp: runExit_def andThen_eq_Inr_iff intro!: advances_trans [OF abortCurrView_advances coreEq_advances])

subsection \<open>Starting a view\<close>

text \<open>What every view made by \<open>NewProposer\<close> starts from, restored from the log or not.\<close>

definition startable :: "('a, 'w, 'e) ctlEnv \<Rightarrow> bytes list \<Rightarrow> View \<Rightarrow> bool" where
  "startable E logged v \<longleftrightarrow> phase_inv (ownSig E logged) v \<and> v_prepares v = voteSet_clear 0 \<and> v_commits v = voteSet_clear 0 \<and>
     v_nextPrepares v = voteSet_clear 0 \<and> v_nextCommits v = voteSet_clear 0 \<and> v_pc v = NotStarted"

lemma startable_view_inv:
  "startable E logged v \<Longrightarrow> view_inv C OK (ownSig E logged) D (View_Start b v)"
  by (simp add: View_Start_def setupVotes_def view_inv_def votingSets_inv_def loop_inv_def phase_inv_def Let_def startable_def)

lemma bareView_startable:
  "startable E logged (bareView pm leader seq n d q)" "v_SelfID (bareView pm leader seq n d q) = pm_SelfID pm"
  "v_Quorum (bareView pm leader seq n d q) = q" "v_LeaderID (bareView pm leader seq n d q) = leader"
  by (simp_all add: bareView_def startable_def phase_inv_def)

lemma storeProposal_entries: "storeProposal ps pp = Inr ps' \<Longrightarrow> ps_Entries ps' = ps_Entries ps"
  by (auto simp: storeProposal_def split: option.splits)

lemma storePrepared_entries: "storePrepared ps m = Inr ps' \<Longrightarrow> ps_Entries ps' = ps_Entries ps"
  by (auto simp: storePrepared_def andThen_eq_Inr_iff split: option.splits)

lemma recoverProposed_view:
  assumes "recoverProposed C ps pp prepare v = Inr (ps', v')" "startable E logged v"
  shows "startable E logged v' \<and> ps_Entries ps' = ps_Entries ps \<and> v_SelfID v' = v_SelfID v \<and>
    v_Quorum v' = v_Quorum v \<and> v_LeaderID v' = v_LeaderID v"
  using assms
  by (auto simp: recoverProposed_def andThen_def startable_def phase_inv_def dest!: storeProposal_entries
      split: sum.split_asm option.split_asm)

lemma recoverPrepared_view:
  assumes "recoverPrepared (ce_codec E) ps m v logged = Inr (ps', v', err)" "startable E logged v" "logged \<noteq> []"
    and "unmarshalSaved (ce_codec E) (last logged) = Some (SavedCommit m)"
  shows "startable E logged v' \<and> ps_Entries ps' = ps_Entries ps \<and> v_SelfID v' = v_SelfID v \<and>
    v_Quorum v' = v_Quorum v \<and> v_LeaderID v' = v_LeaderID v"
proof -
  have "loggedSig E logged sig" if "m = CommitMsg cmt" "cmt_Signature cmt = Some sig" for cmt sig
    using assms(3,4) that last_in_set [of logged] by (auto simp: loggedSig_def)
  then show ?thesis
    using assms(1,2)
    by (auto simp: recoverPrepared_def andThen_def startable_def phase_inv_def ownSig_def
        dest!: storeProposal_entries storePrepared_entries
        split: sum.split_asm option.split_asm SavedMessage.split_asm if_split_asm)
qed

lemma Restore_view:
  assumes "Restore (ce_codec E) ps v = Inr (ps', v', err)" "startable E (ps_Entries ps) v"
  shows "startable E (ps_Entries ps) v' \<and> ps_Entries ps' = ps_Entries ps \<and> v_SelfID v' = v_SelfID v \<and>
    v_Quorum v' = v_Quorum v \<and> v_LeaderID v' = v_LeaderID v"
proof -
  let ?v = "v\<lparr>v_Phase := COMMITTED\<rparr>"
  have s: "startable E (ps_Entries ps) ?v" using assms(2) by (simp add: startable_def phase_inv_def)
  show ?thesis
  proof (cases "ps_Entries ps = []")
    case True
    then show ?thesis using assms(1) s by (auto simp: Restore_def)
  next
    case False
    note d = assms(1) [unfolded Restore_def Let_def, simplified False if_False]
    show ?thesis
    proof (cases "unmarshalSaved (ce_codec E) (last (ps_Entries ps))")
      case (Some m)
      show ?thesis
      proof (cases m)
        case (SavedProposedRecord pp prepare)
        then obtain ps1 v1 where "recoverProposed (ce_codec E) ps pp prepare ?v = Inr (ps1, v1)" "ps' = ps1" "v' = v1"
          using d Some by (auto simp: andThen_eq_Inr_iff)
        then show ?thesis using recoverProposed_view [OF _ s] by fastforce
      next
        case (SavedCommit c)
        then have "recoverPrepared (ce_codec E) ps c ?v (ps_Entries ps) = Inr (ps', v', err)" using d Some by simp
        then show ?thesis using recoverPrepared_view [OF _ s False] Some SavedCommit by fastforce
      qed (use d Some s in auto)
    qed (use d s in auto)
  qed
qed

lemma catchUp_view:
  "startable E logged v \<Longrightarrow> startable E logged (catchUp v seq n d)" "v_SelfID (catchUp v seq n d) = v_SelfID v"
  "v_Quorum (catchUp v seq n d) = v_Quorum v" "v_LeaderID (catchUp v seq n d) = v_LeaderID v"
  by (simp_all add: catchUp_def Let_def startable_def phase_inv_def)

lemma NewProposer_view:
  assumes "NewProposer (ce_codec E) ps pm leader seq n d q = Inr (v, ps', pm')"
  shows "startable E (ps_Entries ps) v \<and> ps_Entries ps' = ps_Entries ps \<and> v_SelfID v = pm_SelfID pm \<and>
    v_Quorum v = q \<and> v_LeaderID v = leader \<and> pm_SelfID pm' = pm_SelfID pm \<and> pm_restored pm'"
proof (cases "pm_restored pm")
  case True
  then show ?thesis
    using assms by (auto simp: NewProposer_def Let_def bareView_startable catchUp_view)
next
  case False
  obtain ps1 v1 where r: "Restore (ce_codec E) ps (bareView pm leader seq n d q) = Inr (ps1, v1, None)"
    "v = catchUp v1 seq n d" "ps' = ps1" "pm_SelfID pm' = pm_SelfID pm" "pm_restored pm'"
    using assms False by (auto simp: NewProposer_def Let_def andThen_eq_Inr_iff split: option.splits)
  show ?thesis
    using Restore_view [OF r(1) bareView_startable(1)] r(2-5) by (simp add: bareView_startable catchUp_view)
qed

lemma startView_result:
  assumes "startView E seq c = Inr c'"
  obtains leader v ps pm c1 where "NewProposer (ce_codec E) (ct_State c) (ct_ProposerBuilder c) leader seq
      (ct_currViewNumber c) (ct_currDecisionsInView c) (ct_quorum c) = Inr (v, ps, pm)"
    "c1 = c\<lparr>ct_State := ps, ct_ProposerBuilder := pm, ct_CurrView := View_Start (ce_metricsFile E) v\<rparr>" "coreEq c1 c'"
  using assms by (fastforce simp: startView_def Let_def andThen_eq_Inr_iff core_defs acquireLeaderToken_def)

lemma startView_advances [advance]:
  assumes "startView E seq c = Inr c'"
  shows "advances E c c'"
proof -
  obtain leader v ps pm c1 where r: "NewProposer (ce_codec E) (ct_State c) (ct_ProposerBuilder c) leader seq
      (ct_currViewNumber c) (ct_currDecisionsInView c) (ct_quorum c) = Inr (v, ps, pm)"
    "c1 = c\<lparr>ct_State := ps, ct_ProposerBuilder := pm, ct_CurrView := View_Start (ce_metricsFile E) v\<rparr>" "coreEq c1 c'"
    using assms by (rule startView_result)
  note n = NewProposer_view [OF r(1)]
  have "advances E c c1"
    using n startable_view_inv [of E "ps_Entries (ct_State c)" v]
    by (auto simp: advances_def r(2) ctIdentity_def ctl_inv_def)
  also have "advances E \<dots> c'" using r(3) by (rule coreEq_advances)
  finally show ?thesis .
qed

subsection \<open>The goroutine of the controller\<close>

lemma setNumbers_advances:
  "ct_currViewNumber c \<le> n \<Longrightarrow> advances E c (setCurrentDecisionsInView d (setCurrentViewNumber n c))"
  by (auto simp: advances_def ctIdentity_def ctl_inv_def setCurrentDecisionsInView_def setCurrentViewNumber_def)

lemma changeView_restarts:
  assumes "changeView E waits n seq d c = Inr c'" "ct_currViewNumber c \<le> n"
    and "\<not> (\<not> currentViewStopped c \<and> ct_currViewNumber c = n \<and> ct_leaderID E c = Inr (currentViewLeader c) \<and>
      ct_currDecisionsInView c = d)"
  obtains c1 c2 where "abortView E waits (ct_currViewNumber c) c = Inr (True, c1)"
      "startView E seq (setCurrentDecisionsInView d (setCurrentViewNumber n c1)) = Inr c2"
      "c' = c2 \<or> c' = c2\<lparr>ct_Batcher := BatchBuilder_Reset (ct_Batcher c2)\<rparr>"
proof -
  have nlt: "\<not> n < ct_currViewNumber c" using assms(2) by simp
  obtain running where run: "(if \<not> currentViewStopped c \<and> ct_currViewNumber c = n
        then andThen (ct_leaderID E c) (\<lambda>leaderID. Inr (leaderID = currentViewLeader c \<and> ct_currDecisionsInView c = d))
        else Inr False) = Inr running"
    and r: "(if running then Inr c
      else andThen (abortView E waits (ct_currViewNumber c) c) (\<lambda>(aborted, c1).
        if \<not> aborted then Inr c1
        else andThen (startView E seq (setCurrentDecisionsInView d (setCurrentViewNumber n c1))) (\<lambda>c2.
               andThen (iAmTheLeader E c2) (\<lambda>(iAm, _).
                 Inr (if iAm then c2\<lparr>ct_Batcher := BatchBuilder_Reset (ct_Batcher c2)\<rparr> else c2))))) = Inr c'"
    using assms(1) [unfolded changeView_def Let_def, unfolded if_not_P [OF nlt]] by (rule andThenE) (rule that)
  have nr: "\<not> running" using run assms(3) by (auto simp: andThen_eq_Inr_iff split: if_split_asm)
  have "\<exists>c1. abortView E waits (ct_currViewNumber c) c = Inr (True, c1)"
    using r nr by (auto simp: abortView_def andThen_eq_Inr_iff)
  then show ?thesis using r nr that by (fastforce simp: andThen_eq_Inr_iff split: if_splits)
qed

lemma changeView_cases:
  assumes "changeView E waits n seq d c = Inr c'"
  obtains "c' = c"
  | c1 c2 where "ct_currViewNumber c \<le> n" "abortView E waits (ct_currViewNumber c) c = Inr (True, c1)"
      "startView E seq (setCurrentDecisionsInView d (setCurrentViewNumber n c1)) = Inr c2"
      "c' = c2 \<or> c' = c2\<lparr>ct_Batcher := BatchBuilder_Reset (ct_Batcher c2)\<rparr>"
proof -
  consider "ct_currViewNumber c > n"
    | "\<not> currentViewStopped c \<and> ct_currViewNumber c = n \<and> ct_leaderID E c = Inr (currentViewLeader c) \<and>
       ct_currDecisionsInView c = d"
    | "ct_currViewNumber c \<le> n" "\<not> (\<not> currentViewStopped c \<and> ct_currViewNumber c = n \<and>
       ct_leaderID E c = Inr (currentViewLeader c) \<and> ct_currDecisionsInView c = d)"
    by fastforce
  then show ?thesis
  proof cases
    case 3
    show ?thesis by (rule changeView_restarts [OF assms 3]) (use 3 that(2) in blast)
  qed (use assms that(1) in \<open>simp_all add: changeView_def Let_def\<close>)
qed

lemma changeView_advances [advance]:
  assumes "changeView E waits n seq d c = Inr c'"
  shows "advances E c c'"
  using assms
proof (cases rule: changeView_cases)
  case (2 c1 c2)
  have "advances E c c1" using 2(2) by (rule abortView_advances)
  moreover have "ct_currViewNumber c1 = ct_currViewNumber c" using 2(2) by (rule abortView_number)
  ultimately have "advances E c (setCurrentDecisionsInView d (setCurrentViewNumber n c1))"
    using setNumbers_advances [of c1 n E d] 2(1) advances_trans by metis
  also have "advances E \<dots> c2" using 2(3) by (rule startView_advances)
  also have "advances E \<dots> c'" using 2(4) coreEq_advances [of c2 c' E] by auto
  finally show ?thesis .
qed simp

lemma ct_deliver_result:
  assumes "ct_deliver E d c = Inr c'"
  obtains w r stop where
    "MutuallyExclusiveDeliver (ce_codec E) (ce_application E) (ct_world c) (dc_proposal d) (dc_signatures d) = Inr (w, r)"
    "c' = ctEmit ((if dr_delivered r then [CtDelivered (dc_proposal d) (dc_signatures d)] else []) @
       map CtReconfig (dr_toReconfigChan r)) (c\<lparr>ct_world := w, ct_stopped := ct_stopped c \<or> stop\<rparr>)"
proof -
  obtain w r where r:
    "MutuallyExclusiveDeliver (ce_codec E) (ce_application E) (ct_world c) (dc_proposal d) (dc_signatures d) = Inr (w, r)"
    using assms by (auto simp: ct_deliver_def andThen_eq_Inr_iff)
  show ?thesis
    using assms r by (intro that [OF r, of "InLatestDecision (dr_reconfig r)"])
      (auto simp: ct_deliver_def Let_def ctEmit_def ct_close_def)
qed

lemma ct_deliver_advances:
  assumes "ct_deliver E d c = Inr c'" "ct_decision c = Some d"
  shows "advances E c c'"
proof -
  obtain w es stop where c': "c' = ctEmit es (c\<lparr>ct_world := w, ct_stopped := ct_stopped c \<or> stop\<rparr>)"
    "set (deliveredBy es) \<subseteq> {(dc_proposal d, dc_signatures d)}"
    by (rule ct_deliver_result [OF assms(1)]) (auto split: if_splits)
  have "ctl_inv E c \<longrightarrow> ctl_inv E c'" using assms(2) c'(2) by (auto simp: c'(1) ctEmit_def ctl_inv_def)
  then show ?thesis by (simp add: advances_def c'(1) ctIdentity_def ctEmit_def)
qed

lemma rotateLeader_advances:
  assumes "rotateLeader E waits md c = Inr c'"
  shows "advances E c c'"
proof -
  have "c' = c \<or> (\<exists>n seq d c1. changeView E waits n seq d c = Inr c1 \<and>
      c' = c1\<lparr>ct_RequestPool := RestartTimers (ct_RequestPool c1)\<rparr>)"
    using assms by (auto simp: rotateLeader_def andThen_eq_Inr_iff split: if_splits)
  then show ?thesis using advances_trans [OF changeView_advances coreEq_advances [OF core_updates(1)]] by auto
qed

lemma continueLeading_core [core]: "continueLeading E c = Inr c' \<Longrightarrow> coreEq c c'"
  by (auto simp: continueLeading_def andThen_eq_Inr_iff)

lemma afterDelivery_advances:
  assumes "afterDelivery E waits d c = Inr c'"
  shows "advances E c c'"
proof -
  obtain md c1 c2 where r: "rotateLeader E waits md (incrementCurrentDecisionsInView c) = Inr c1"
    "MaybePruneRevokedRequests E c1 = Inr c2" "continueLeading E c2 = Inr c'"
    using assms by (auto simp: afterDelivery_def andThen_eq_Inr_iff split: option.split_asm)
  have "advances E c (incrementCurrentDecisionsInView c)" by (rule coreEq_advances) simp
  also have "advances E \<dots> c1" using r(1) by (rule rotateLeader_advances)
  also have "advances E \<dots> c2" using calls_core(4) [OF r(2)] by (rule coreEq_advances)
  also have "advances E \<dots> c'" using continueLeading_core [OF r(3)] by (rule coreEq_advances)
  finally show ?thesis .
qed

lemma ct_decide_advances [advance]:
  assumes "ct_decide E stopSeen waits d c = Inr c'" "ct_decision c = Some d"
  shows "advances E c c'"
proof -
  obtain c1 c2 where r: "ct_deliver E d c = Inr c1" "removeDeliveredFromPool d c1 = Inr c2"
    "c' = c2\<lparr>ct_decision := None\<rparr> \<or> afterDelivery E waits d (c2\<lparr>ct_decision := None\<rparr>) = Inr c'"
    using assms(1) by (auto simp: ct_decide_def Let_def andThen_eq_Inr_iff split: if_splits)
  have "advances E c c1" by (rule ct_deliver_advances [OF r(1) assms(2)])
  also have "advances E \<dots> c2"
    using r(2) by (auto simp: removeDeliveredFromPool_def andThen_eq_Inr_iff intro: coreEq_advances)
  also have "advances E \<dots> (c2\<lparr>ct_decision := None\<rparr>)" by (simp add: advances_def ctIdentity_def ctl_inv_def)
  also have "advances E \<dots> c'" using r(3) afterDelivery_advances by auto
  finally show ?thesis .
qed

lemma propose_advances [advance]:
  assumes "propose E evs c = Inr c'"
  shows "advances E c c'"
proof -
  have "coreEq c c' \<or> (\<exists>p v. Propose (ct_viewEnv E c) (ct_CurrView c) p = Some v \<and> c' = c\<lparr>ct_CurrView := v\<rparr>)"
    using assms by (auto simp: propose_def Let_def andThen_eq_Inr_iff orBlocked_def split: if_splits option.split_asm)
  then show ?thesis using coreEq_advances handleMessage_advances by (auto simp: Propose_def)
qed

lemma runSync_advances [advance]:
  assumes "runSync E evs waits c = Inr c'"
  shows "advances E c c'"
proof -
  obtain r c1 c2 n seq d where s: "ct_sync E evs c = Inr (r, c1)" "MaybePruneRevokedRequests E c1 = Inr c2"
    "changeView E waits n seq d c2 = Inr c'"
    using assms by (auto simp: runSync_def andThen_eq_Inr_iff split: if_splits)
  have "advances E c c1" using ct_sync_core [OF s(1)] by (rule coreEq_advances)
  also have "advances E \<dots> c2" using calls_core(4) [OF s(2)] by (rule coreEq_advances)
  also have "advances E \<dots> c'" using s(3) by (rule changeView_advances)
  finally show ?thesis .
qed

theorem ctl_step_advances: "ctl_step E c c' \<Longrightarrow> advances E c c'"
proof (induction rule: ctl_step.induct)
  case (ctl_decision c d stopSeen waits c')
  then show ?case by (intro ct_decide_advances)
next
  case (ctl_viewChange c vi waits c')
  then show ?case using advances_trans [OF coreEq_advances [OF core_updates(6)] changeView_advances] by blast
next
  case (ctl_abort c view waits aborted c')
  then show ?case using advances_trans [OF coreEq_advances [OF core_updates(7)] abortView_advances] by blast
next
  case (ctl_propose c evs c')
  then show ?case using advances_trans [OF coreEq_advances [OF core_updates(10)] propose_advances] by blast
next
  case (ctl_sync c events waits c')
  then show ?case using advances_trans [OF coreEq_advances [OF core_updates(9)] runSync_advances] by blast
next
  case (ctl_closeCall c)
  have "coreEq c (stopComponents c)"
    by (simp add: stopComponents_def core_defs closeBatcher_def ct_close_def relinquishLeaderToken_def)
  then show ?case by (rule coreEq_advances)
qed (auto intro: coreEq_advances advance core simp: SubmitRequest_def)

lemma ctl_steps_advances: "ctl_steps E c c' \<Longrightarrow> advances E c c'"
  by (induction rule: rtranclp_induct) (auto intro: advances_trans ctl_step_advances)

end
