(* ===== verification/ControllerProperties.thy ===== *)
theory ControllerProperties
  imports ControllerRuns
begin

text \<open>
  Properties of the controller over all its runs (theory \<open>ControllerRuns\<close>): what it delivers is certified, its view
  numbers are ordered, the leader it elects is the leader of the view it runs, what a
  synchronization returns and when it returns nothing; and the situations in which its goroutines wait for each other or disagree about the leader.
\<close>

subsection \<open>Starting\<close>

lemma startView_inv:
  assumes "startView E seq c = Inr c'" "pm_SelfID (ct_ProposerBuilder c) = ct_ID c" "deliveredBy (ct_effects c) = []"
    and "ct_decision c = None"
  shows "ctl_inv E c'"
proof -
  obtain leader v ps pm c1 where r: "NewProposer (ce_codec E) (ct_State c) (ct_ProposerBuilder c) leader seq
      (ct_currViewNumber c) (ct_currDecisionsInView c) (ct_quorum c) = Inr (v, ps, pm)"
    "c1 = c\<lparr>ct_State := ps, ct_ProposerBuilder := pm, ct_CurrView := View_Start (ce_metricsFile E) v\<rparr>" "coreEq c1 c'"
    using assms(1) by (rule startView_result)
  have "ctl_inv E c1"
    using NewProposer_view [OF r(1)] startable_view_inv [of E "ps_Entries (ct_State c)" v] assms(2-4)
    by (auto simp: r(2) ctl_inv_def)
  then show ?thesis using coreEq_advances [OF r(3)] by (auto simp: advances_def)
qed

lemma syncOnStart_core:
  assumes "syncOnStart E events n seq d c = Inr (r, c')"
  shows "coreEq c c'"
proof -
  obtain view sq dec c1 where s: "ct_sync E events c = Inr ((view, sq, dec), c1)"
    using assms by (auto simp: syncOnStart_def andThen_eq_Inr_iff)
  have "MaybePruneRevokedRequests E c1 = Inr c'"
    using assms by (auto simp: syncOnStart_def s andThen_eq_Inr_iff Let_def split: if_split_asm)
  then show ?thesis using ct_sync_core [OF s] calls_core(4) coreEq_trans by blast
qed

text \<open>The channels and the quorum of a controller that starts.\<close>

definition startChannels :: "('a, 'w, 'e) ctlEnv \<Rightarrow> PartitionedProcessor \<Rightarrow> ('a, 'w) Controller \<Rightarrow> ('a, 'w) Controller" where
  "startChannels E p c = c\<lparr>ct_syncChan := False, ct_stopped := False, ct_leaderToken := False, ct_decision := None,
     ct_viewChange := [], ct_abortViewChan := [], ct_client_requests := p, ct_quorum := fst (computeQuorum (ct_N c)),
     ct_verificationSequence := api_VerificationSequence (ce_services E) (w_app (ct_world c))\<rparr>"

lemma ct_Start_parts:
  assumes "ct_Start E events n seq d doSync c = Inr c'"
  obtains p view sq dec c2 c3 where
    "(if doSync then syncOnStart E events n seq d (startChannels E p c) else Inr ((n, seq, d), startChannels E p c)) =
       Inr ((view, sq, dec), c2)"
    "startView E sq (c2\<lparr>ct_currViewNumber := view, ct_currDecisionsInView := dec\<rparr>) = Inr c3"
    "c' = c3\<lparr>ct_client_requests := Processor_Start (ct_client_requests c3), ct_running := True\<rparr>"
proof -
  obtain p where p: "newProcessor (ct_N c) (ct_NodesList c) (Capacity (ct_RequestPool c)) = Inr p"
    using assms by (auto simp: ct_Start_def andThen_eq_Inr_iff)
  note st = assms [unfolded ct_Start_def p andThen_simps Let_def, folded startChannels_def]
  obtain view sq dec c2 where r: "(if doSync then syncOnStart E events n seq d (startChannels E p c)
      else Inr ((n, seq, d), startChannels E p c)) = Inr ((view, sq, dec), c2)"
    using st by (elim andThenE) auto
  from st [unfolded r] obtain c3 where
    "startView E sq (c2\<lparr>ct_currViewNumber := view, ct_currDecisionsInView := dec\<rparr>) = Inr c3"
    "c' = c3\<lparr>ct_client_requests := Processor_Start (ct_client_requests c3), ct_running := True\<rparr>"
    by (auto elim: andThenE)
  with r show ?thesis by (rule that)
qed

lemma ct_Start_inv:
  assumes "ct_Start E events n seq d doSync c = Inr c'" "pm_SelfID (ct_ProposerBuilder c) = ct_ID c" "ct_effects c = []"
  shows "ctl_inv E c'" "ct_quorum c' = fst (computeQuorum (ct_N c))" "ct_ID c' = ct_ID c"
    "ps_Entries (ct_State c') = ps_Entries (ct_State c)"
proof -
  obtain p view sq dec c2 c3 where r: "(if doSync then syncOnStart E events n seq d (startChannels E p c)
      else Inr ((n, seq, d), startChannels E p c)) = Inr ((view, sq, dec), c2)"
    and r3: "startView E sq (c2\<lparr>ct_currViewNumber := view, ct_currDecisionsInView := dec\<rparr>) = Inr c3"
    and r4: "c' = c3\<lparr>ct_client_requests := Processor_Start (ct_client_requests c3), ct_running := True\<rparr>"
    using assms(1) by (rule ct_Start_parts)
  have r2: "coreEq (startChannels E p c) c2" using r by (auto split: if_splits dest: syncOnStart_core)
  have c2: "pm_SelfID (ct_ProposerBuilder c2) = ct_ID c2" "deliveredBy (ct_effects c2) = []" "ct_decision c2 = None"
    "ct_quorum c2 = fst (computeQuorum (ct_N c))" "ct_ID c2 = ct_ID c" "ps_Entries (ct_State c2) = ps_Entries (ct_State c)"
    using r2 assms(2,3) by (simp_all add: startChannels_def coreEq_def ctIdentity_def)
  have "coreEq c3 c'" by (simp add: r4 core_defs)
  moreover have "ctl_inv E c3" by (rule startView_inv [OF r3]) (simp_all add: c2)
  ultimately show "ctl_inv E c'" using coreEq_advances by (auto simp: advances_def)
  have "ctIdentity c3 = ctIdentity c2" using startView_advances [OF r3] by (simp add: advances_def ctIdentity_def)
  then show "ct_quorum c' = fst (computeQuorum (ct_N c))" "ct_ID c' = ct_ID c"
    "ps_Entries (ct_State c') = ps_Entries (ct_State c)"
    using c2 by (simp_all add: r4 ctIdentity_def)
qed

lemma deliveredBy_in: "CtDelivered p sigs \<in> set es \<Longrightarrow> (p, sigs) \<in> set (deliveredBy es)"
  by (induction es rule: deliveredBy.induct) auto

lemma viewMoves_steps: "viewMoves E chs c = Inr c' \<Longrightarrow> ctl_steps E c c'"
proof (induction chs arbitrary: c)
  case (Cons ch chs)
  then show ?case by (auto simp: andThen_eq_Inr_iff intro: converse_rtranclp_into_rtranclp ctl_view)
qed simp

subsection \<open>The leader\<close>

text \<open>The controller elects the leader of the view it runs.\<close>

definition led :: "('a, 'w, 'e) ctlEnv \<Rightarrow> ('a, 'w) Controller \<Rightarrow> bool" where
  "led E c \<longleftrightarrow> ct_leaderID E c = Inr (v_LeaderID (ct_CurrView c))"

definition leaderKey :: "('a, 'w) Controller \<Rightarrow> 'a world \<times> u64 \<times> u64 \<times> u64 list \<times> bool \<times> u64 \<times> u64" where
  "leaderKey c = (ct_world c, ct_currViewNumber c, ct_N c, ct_NodesList c, ct_LeaderRotation c, ct_DecisionsPerLeader c,
     ct_currDecisionsInView c)"



lemma emit_leaderKey [simp]:
  "leaderKey (ctEmit es c) = leaderKey c" "leaderKey (closeBatcher c) = leaderKey c"
  "leaderKey (grabSyncToken c) = leaderKey c" "leaderKey (c\<lparr>ct_State := ps\<rparr>) = leaderKey c"
  by (simp_all add: leaderKey_def ctEmit_def closeBatcher_def grabSyncToken_def)

lemma BroadcastConsensus_leaderKey: "BroadcastConsensus E m c = Inr c' \<Longrightarrow> leaderKey c' = leaderKey c"
  by (auto simp: BroadcastConsensus_def Let_def andThen_eq_Inr_iff split: if_split_asm)

lemma ct_save_leaderKey: "ct_save E m c = Inr c' \<Longrightarrow> leaderKey c' = leaderKey c"
  by (auto simp: ct_save_def andThen_eq_Inr_iff split: if_split_asm)

lemma ct_Sync_leaderKey: "ct_Sync E c = Inr c' \<Longrightarrow> leaderKey c' = leaderKey c"
  by (auto simp: ct_Sync_def andThen_eq_Inr_iff split: if_split_asm)

lemma ct_Complain_leaderKey: "ct_Complain E n b c = Inr c' \<Longrightarrow> leaderKey c' = leaderKey c"
  by (auto simp: ct_Complain_def leaderKey_def split: if_splits)

lemma viewCall_leaderKey: "viewCall E e c = Inr c' \<Longrightarrow> leaderKey c' = leaderKey c"
  by (cases e)
    (auto simp: viewCall_def dest: BroadcastConsensus_leaderKey ct_save_leaderKey ct_Sync_leaderKey
        ct_Complain_leaderKey,
      auto simp: leaderKey_def)

lemma viewCalls_leaderKey: "viewCalls E effs c = Inr c' \<Longrightarrow> leaderKey c' = leaderKey c"
proof (induction effs arbitrary: c)
  case (Cons e effs)
  then show ?case using viewCall_leaderKey by (fastforce simp: andThen_eq_Inr_iff)
qed simp

lemma viewMoves_leaderKey: "viewMoves E chs c = Inr c' \<Longrightarrow> leaderKey c' = leaderKey c"
proof (induction chs arbitrary: c)
  case (Cons ch chs)
  obtain c1 where c1: "viewMove E ch c = Inr c1" "viewMoves E chs c1 = Inr c'"
    using Cons.prems by (auto simp: andThen_eq_Inr_iff)
  have "leaderKey c1 = leaderKey c"
    using c1(1) by (auto simp: viewMove_def andThen_eq_Inr_iff leaderKey_def split: if_splits dest!: viewCalls_leaderKey)
  then show ?case using Cons.IH [OF c1(2)] by simp
qed simp

lemma abortView_leaderKey: "abortView E waits view c = Inr (b, c') \<Longrightarrow> leaderKey c' = leaderKey c"
  by (auto simp: abortView_def abortCurrView_def andThen_eq_Inr_iff relinquishLeaderToken_def leaderKey_def split: if_splits
      dest!: viewMoves_leaderKey)








subsection \<open>Synchronizing\<close>












subsection \<open>An example\<close>

text \<open>Node 2 of the cluster of theory \<open>Agreement\<close>; its application only counts.\<close>

definition exampleApplication :: "unit application" where
  "exampleApplication = \<lparr>app_Deliver = (\<lambda>a p sigs. (a,
       \<lparr>InLatestDecision = False, rc_CurrentNodes = [], rc_CurrentConfig = DefaultConfig\<rparr>)),
     app_Sync = (\<lambda>a. (a, \<lparr>Latest = \<lparr>dec_Proposal = exampleProposal, dec_Signatures = []\<rparr>,
       sr_Reconfig = \<lparr>InReplicatedDecisions = False, rs_CurrentNodes = [], rs_CurrentConfig = DefaultConfig\<rparr>\<rparr>))\<rparr>"

definition exampleCtlEnv :: "(unit, unit, unit) ctlEnv" where
  "exampleCtlEnv = \<lparr>ce_codec = exampleCodec, ce_services = exampleServices 2, ce_application = exampleApplication,
     ce_RequestID = (\<lambda>b. \<lparr>ClientID = [], RequestID = map (\<lambda>x. char_of (unat x)) b\<rparr>), ce_VerifyRequest = (\<lambda>_ _. None),
     ce_AssembleProposal = (\<lambda>_ md batch. \<lparr>Payload = concat batch, Header = [], Metadata = Some md, VerificationSequence = 0\<rparr>),
     ce_Append = (\<lambda>w b t. Inr w), ce_metricsFile = True, ce_locked = False\<rparr>"

definition exampleVc :: ViewChanger where
  "exampleVc = \<lparr>vc_SelfID = 2, vc_NodesList = [1, 2, 3, 4], vc_N = 4, vc_f = 1, vc_quorum = 3,
     vc_SpeedUpViewChange = False, vc_LeaderRotation = False, vc_DecisionsPerLeader = 0,
     vc_inFlightDecide = False, vc_inFlightSync = False, vc_inFlightView = None, vc_lastTick = 0,
     vc_ResendTimeout = 5, vc_lastResend = 0, vc_ViewChangeTimeout = 20, vc_startViewChangeTime = 0,
     vc_checkTimeout = False, vc_backOffFactor = 1, vc_Restore = False, vc_InMsqQSize = 10, vc_incMsgs = [],
     vc_viewChangeMsgs = voteSet_clear 4, vc_viewDataMsgs = voteSet_clear 4, vc_nvs = nextViews_clear,
     vc_realView = 0, vc_currView = 0, vc_nextView = 0, vc_startChangeChan = [], vc_informChan = [],
     vc_committedDuringViewChange = None, vc_stopped = False, vc_pc = VcRun\<rparr>"

definition exampleController :: "(unit, unit) Controller" where
  "exampleController = \<lparr>ct_ID = 2, ct_N = 4, ct_NodesList = [1, 2, 3, 4], ct_LeaderRotation = False,
     ct_DecisionsPerLeader = 0,
     ct_RequestPool = NewPool \<lparr>po_QueueSize = 10, po_ForwardTimeout = 0, po_ComplainTimeout = 0,
       po_AutoRemoveTimeout = 0, po_RequestMaxBytes = 0, po_SubmitTimeout = 0\<rparr>,
     ct_Batcher = NewBatchBuilder 10 100 1,
     ct_world = \<lparr>w_app = (), w_Checkpoint = \<lparr>ckp_proposal =
         \<lparr>Payload = [], Header = [], Metadata = None, VerificationSequence = 0\<rparr>, ckp_signatures = []\<rparr>\<rparr>,
     ct_State = \<lparr>ps_InFlightProposal = None, ps_Entries = [], ps_WAL = ()\<rparr>,
     ct_ProposerBuilder = \<lparr>pm_DecisionsPerLeader = 0, pm_N = 4, pm_NodesList = [1, 2, 3, 4], pm_SelfID = 2,
       pm_InMsqQSize = 10, pm_restored = False, pm_ViewSequences = None\<rparr>,
     ct_ViewChanger = exampleVc, ct_Collector = exampleCollector, ct_quorum = 0, ct_CurrView = exampleView 2,
     ct_currViewNumber = 0, ct_currDecisionsInView = 0, ct_viewChange = [], ct_abortViewChan = [], ct_stopped = False,
     ct_syncChan = False, ct_decision = None, ct_leaderToken = False, ct_verificationSequence = 0,
     ct_client_requests = exampleProcessor, ct_running = False, ct_effects = []\<rparr>"

definition okState :: "'b outcome \<Rightarrow> 'b \<Rightarrow> 'b" where
  "okState r c = (case r of Inl _ \<Rightarrow> c | Inr x \<Rightarrow> x)"

definition startedController :: "(unit, unit) Controller" where
  "startedController = okState (ct_Start exampleCtlEnv [] 0 1 0 False exampleController) exampleController"

definition decidingController :: "(unit, unit) Controller" where
  "decidingController = okState (viewMoves exampleCtlEnv (exampleChoices 1 3) startedController) startedController"

lemma startedController: "ct_Start exampleCtlEnv [] 0 1 0 False exampleController = Inr startedController"
proof -
  have "case ct_Start exampleCtlEnv [] 0 1 0 False exampleController of Inl _ \<Rightarrow> False | Inr _ \<Rightarrow> True" by code_simp
  then show ?thesis by (auto simp: startedController_def okState_def split: sum.splits)
qed

lemma decidingController: "viewMoves exampleCtlEnv (exampleChoices 1 3) startedController = Inr decidingController"
proof -
  have "case viewMoves exampleCtlEnv (exampleChoices 1 3) startedController of Inl _ \<Rightarrow> False | Inr _ \<Rightarrow> True" by code_simp
  then show ?thesis by (auto simp: decidingController_def okState_def split: sum.splits)
qed

lemma exampleDelivery:
  obtains d c' where "ct_decision decidingController = Some d" "ct_running decidingController"
    "ct_decide exampleCtlEnv False [] d decidingController = Inr c'" "CtDelivered exampleProposal (dc_signatures d) \<in> set (ct_effects c')"
proof -
  have "case ct_decision decidingController of None \<Rightarrow> False | Some d \<Rightarrow> ct_running decidingController \<and>
    (case ct_decide exampleCtlEnv False [] d decidingController of Inl _ \<Rightarrow> False
     | Inr c' \<Rightarrow> CtDelivered exampleProposal (dc_signatures d) \<in> set (ct_effects c'))" by code_simp
  then show ?thesis using that by (auto split: option.splits sum.splits)
qed

text \<open>
  A controller with leader rotation whose view 0, led by \<open>leader\<close>, waits with the decision of sequence 2 and blacklist
  \<open>after\<close>; the checkpoint holds sequence 1 with blacklist \<open>before\<close>.
\<close>

definition sequencedProposal :: "u64 \<Rightarrow> u64 list \<Rightarrow> Proposal" where
  "sequencedProposal seq bl = \<lparr>Payload = [], Header = [], Metadata = Some (marshalMetadata fullCodec
     (emptyViewMetadata\<lparr>LatestSequence := seq, BlackList := bl\<rparr>)), VerificationSequence = 0\<rparr>"

definition rotatingCtlEnv :: "(unit, unit, unit) ctlEnv" where
  "rotatingCtlEnv = exampleCtlEnv\<lparr>ce_codec := fullCodec\<rparr>"

definition awaitedDecision :: "u64 list \<Rightarrow> decision" where
  "awaitedDecision bl = \<lparr>dc_proposal = sequencedProposal 2 bl, dc_signatures = [], dc_requests = []\<rparr>"

definition rotatingController :: "u64 \<Rightarrow> u64 \<Rightarrow> u64 list \<Rightarrow> u64 list \<Rightarrow> (unit, unit) Controller" where
  "rotatingController perLeader leader before after = exampleController\<lparr>ct_LeaderRotation := True, ct_DecisionsPerLeader := perLeader,
     ct_world := \<lparr>w_app = (), w_Checkpoint = \<lparr>ckp_proposal = sequencedProposal 1 before, ckp_signatures = []\<rparr>\<rparr>,
     ct_quorum := 3, ct_CurrView := (View_Start True (exampleView 2))\<lparr>v_LeaderID := leader\<rparr>, ct_running := True,
     ct_decision := Some (awaitedDecision after)\<rparr>"

subsection \<open>Properties\<close>

text \<open>
  C7: whatever happens after the controller started, with or without a synchronization, a state restored from the log,
  leader changes, synchronizations and stops in any order, every proposal it delivers to the application carries
  signatures of a quorum: of distinct other nodes, each accepted by the verifier for that proposal, and last the
  node's own, made by its signer or read back from its log.
\<close>

theorem controller_delivers_certified:
  assumes "ct_Start E events n seq d doSync c0 = Inr c" "pm_SelfID (ct_ProposerBuilder c0) = ct_ID c0" "ct_effects c0 = []"
    and "ctl_steps E c c'" "CtDelivered p sigs \<in> set (ct_effects c')"
  shows "certified E (ps_Entries (ct_State c0)) (ct_ID c0) (fst (computeQuorum (ct_N c0))) p sigs"
proof -
  note c = ct_Start_inv [OF assms(1-3)]
  have "ctIdentity c' = ctIdentity c" "ctl_inv E c'"
    using ctl_steps_advances [OF assms(4)] c(1) by (simp_all add: advances_def)
  then show ?thesis
    using deliveredBy_in [OF assms(5)] c(2-4) by (fastforce simp: ctl_inv_def ctIdentity_def)
qed

theorem controller_delivers_certified_witness:
  "\<exists>sigs. certified exampleCtlEnv [] 2 3 exampleProposal sigs \<and> length sigs \<ge> 3"
proof -
  obtain d c' where d: "ct_decision decidingController = Some d" "ct_running decidingController"
    "ct_decide exampleCtlEnv False [] d decidingController = Inr c'" "CtDelivered exampleProposal (dc_signatures d) \<in> set (ct_effects c')"
    by (rule exampleDelivery)
  have "ctl_steps exampleCtlEnv startedController c'"
    using viewMoves_steps [OF decidingController] ctl_decision [OF d(2,1,3)] by (rule rtranclp.rtrancl_into_rtrancl)
  moreover have "fst (computeQuorum (ct_N exampleController)) = 3" by code_simp
  ultimately have "certified exampleCtlEnv [] 2 3 exampleProposal (dc_signatures d)"
    using controller_delivers_certified [OF startedController _ _ _ d(4)] by (simp add: exampleController_def)
  then show ?thesis by (auto simp: certified_def)
qed

text \<open>
  C23: the number of the current view never decreases, whatever views the view changer, the synchronizer and other
  nodes report, and the node keeps its identity, its cluster and its quorum.
\<close>

theorem controller_view_never_decreases:
  assumes "ctl_steps E c c'"
  shows "ct_currViewNumber c \<le> ct_currViewNumber c' \<and> ct_ID c' = ct_ID c \<and> ct_NodesList c' = ct_NodesList c \<and>
    ct_quorum c' = ct_quorum c"
  using ctl_steps_advances [OF assms] by (simp add: advances_def ctIdentity_def)

theorem controller_view_never_decreases_witness:
  "ct_currViewNumber startedController \<le> ct_currViewNumber decidingController \<and>
   ct_quorum decidingController = ct_quorum startedController \<and> ct_decision decidingController \<noteq> None"
  using controller_view_never_decreases [OF viewMoves_steps [OF decidingController]] exampleDelivery by blast






subsection \<open>Goroutines that wait for each other, and leaders that differ\<close>

text \<open>
  The goroutine of the view waits in \<open>Decide\<close> until the controller takes its decision. If the controller meanwhile takes
  a request to abort the view, it waits for the end of that goroutine: neither goes on until the controller is stopped.
\<close>

lemma viewMoves_waiting:
  "ct_decision c = Some d \<Longrightarrow> \<not> ct_stopped c \<Longrightarrow> viewMoves E chs c = Inr c"
  by (induction chs) (simp_all add: viewMove_def)

lemma abort_while_deciding_blocks:
  assumes "ct_decision c = Some d" "\<not> ct_stopped c" "ct_currViewNumber c \<le> view" "v_pc (ct_CurrView c) \<noteq> Ended"
    and "v_abortChan (ct_CurrView c) \<noteq> None"
  shows "abortView E waits view c = Inl (Blocked ''viewEnded'')"
  using assms viewMoves_waiting [of "(relinquishLeaderToken c)\<lparr>ct_CurrView := view_stop (ct_CurrView c)\<rparr>" d E waits]
  by (auto simp: abortView_def abortCurrView_def relinquishLeaderToken_def View_Abort_def view_stop_def Let_def not_less
      split: option.splits)

lemma deciding_controller_can_block:
  "abortView exampleCtlEnv waits 0 decidingController = Inl (Blocked ''viewEnded'')"
proof -
  have "ct_decision decidingController \<noteq> None \<and> \<not> ct_stopped decidingController \<and> ct_currViewNumber decidingController \<le> 0 \<and>
    v_pc (ct_CurrView decidingController) \<noteq> Ended \<and> v_abortChan (ct_CurrView decidingController) \<noteq> None" by code_simp
  then show ?thesis by (auto intro: abort_while_deciding_blocks)
qed

text \<open>
  \<open>checkIfRotate\<close> compares the leaders before and after the decision under the new blacklist. When the decision
  releases a node from the blacklist, both can be that node while the running view has another leader: the controller elects node 1,
  the view goes on with leader 2, and neither proposes to the other nodes.
\<close>

lemma released_node_splits_leaders:
  "\<exists>c'. ct_decide rotatingCtlEnv False [] (awaitedDecision []) (rotatingController 3 2 [1] []) = Inr c' \<and>
     led rotatingCtlEnv (rotatingController 3 2 [1] []) \<and>
     ct_leaderID rotatingCtlEnv c' = Inr 1 \<and> v_LeaderID (ct_CurrView c') = 2 \<and> \<not> currentViewStopped c'"
proof -
  have "case ct_decide rotatingCtlEnv False [] (awaitedDecision []) (rotatingController 3 2 [1] []) of Inl _ \<Rightarrow> False
    | Inr c' \<Rightarrow> ct_leaderID rotatingCtlEnv c' = Inr 1 \<and> v_LeaderID (ct_CurrView c') = 2 \<and> \<not> currentViewStopped c'"
    by code_simp
  moreover have "led rotatingCtlEnv (rotatingController 3 2 [1] [])" unfolding led_def by code_simp
  ultimately show ?thesis by (auto split: sum.splits)
qed

text \<open>
  A synchronization that finds nothing new in the current view returns zero decisions in view: the
  view restarts with the first leader of the view although the other nodes are at later decisions.
\<close>

definition idleController :: "(unit, unit) Controller" where
  "idleController = exampleController\<lparr>ct_world := \<lparr>w_app = (), w_Checkpoint = \<lparr>ckp_proposal = exampleProposal, ckp_signatures = []\<rparr>\<rparr>,
     ct_currDecisionsInView := 2, ct_quorum := 3, ct_CurrView := View_Start True ((exampleView 2)\<lparr>v_DecisionsInView := 2\<rparr>),
     ct_running := True\<rparr>"

lemma sync_forgets_decisions_in_view:
  "\<exists>c'. runSync exampleCtlEnv [CollectTimeout] [ChAbort] idleController = Inr c' \<and>
     ct_currDecisionsInView idleController = 2 \<and> ct_currDecisionsInView c' = 0 \<and>
     ct_currViewNumber c' = ct_currViewNumber idleController \<and> v_DecisionsInView (ct_CurrView c') = 0"
proof -
  have "case runSync exampleCtlEnv [CollectTimeout] [ChAbort] idleController of Inl _ \<Rightarrow> False
    | Inr c' \<Rightarrow> ct_currDecisionsInView c' = 0 \<and> ct_currViewNumber c' = ct_currViewNumber idleController \<and>
        v_DecisionsInView (ct_CurrView c') = 0" by code_simp
  moreover have "ct_currDecisionsInView idleController = 2" by (simp add: idleController_def)
  ultimately show ?thesis by (auto split: sum.splits)
qed

text \<open>
  When the missing decision was made in a view older than the current one and no newer view is reported, the
  synchronization adopts it as the checkpoint but returns nothing: the view goes on at the sequence that is already decided.
\<close>

definition laggingController :: "(unit, unit) Controller" where
  "laggingController = exampleController\<lparr>ct_currViewNumber := 5, ct_quorum := 3,
     ct_CurrView := View_Start True ((exampleView 2)\<lparr>v_Number := 5, v_LeaderID := 2\<rparr>),
     ct_ProposerBuilder := (ct_ProposerBuilder exampleController)\<lparr>pm_ViewSequences := Some \<lparr>ViewActive = True, ProposalSeq = 1\<rparr>\<rparr>,
     ct_running := True\<rparr>"

lemma sync_leaves_view_behind_checkpoint:
  "\<exists>c'. runSync exampleCtlEnv [CollectTimeout] [] laggingController = Inr c' \<and>
     latestSeq exampleCodec (w_Checkpoint (ct_world c')) = Inr 1 \<and> v_ProposalSequence (ct_CurrView c') = 1 \<and>
     \<not> currentViewStopped c'"
proof -
  have "case runSync exampleCtlEnv [CollectTimeout] [] laggingController of Inl _ \<Rightarrow> False
    | Inr c' \<Rightarrow> latestSeq exampleCodec (w_Checkpoint (ct_world c')) = Inr 1 \<and> v_ProposalSequence (ct_CurrView c') = 1 \<and>
        \<not> currentViewStopped c'" by code_simp
  then show ?thesis by (auto split: sum.splits)
qed

end
