(* ===== verification/Heartbeat.thy ===== *)
theory Heartbeat
  imports Protos Quorums
begin

text \<open>
  The heartbeat monitor of internal/bft/heartbeatmonitor.go.

  Times are nanoseconds, 0 is the zero \<open>time.Time\<close>; the difference of two times saturates and
  the product with the heartbeat count wraps around, as \<open>time.Duration\<close> does. The view sequence
  the controller publishes (\<open>viewSequences\<close>) is an argument of the handlers that load it. The
  calls to the communication layer and to the event handler are the effects of a step.
\<close>

record roleChange =
  rc_view :: u64
  rc_leaderID :: u64
  rc_follower :: bool
  rc_onlyStopSend :: bool

datatype hbEffect =
    HbSync
  | HbTimeout u64 u64
  | HbSend u64 Message
  | HbBroadcast Message

record HeartbeatMonitor =
  hm_hbTimeout :: int
  hm_hbCount :: u64
  hm_numberOfNodes :: u64
  hm_view :: u64
  hm_leaderID :: u64
  hm_follower :: bool
  hm_stopSend :: bool
  hm_lastHeartbeat :: int
  hm_lastTick :: int
  hm_hbRespCollector :: "(u64 \<times> u64) list"
  hm_timedOut :: bool
  hm_syncReq :: bool
  hm_sentHeartbeat :: bool
  hm_artificialHeartbeat :: "(u64 \<times> Message) option"
  hm_behindSeq :: u64
  hm_behindCounter :: u64
  hm_numOfTicksBehindBeforeSyncing :: u64
  hm_followerBehind :: bool
  hm_stopped :: bool
  hm_running :: bool

definition NewHeartbeatMonitor :: "int \<Rightarrow> u64 \<Rightarrow> u64 \<Rightarrow> u64 \<Rightarrow> HeartbeatMonitor" where
  "NewHeartbeatMonitor heartbeatTimeout heartbeatCount numberOfNodes numOfTicksBehindBeforeSyncing =
     \<lparr>hm_hbTimeout = heartbeatTimeout, hm_hbCount = heartbeatCount, hm_numberOfNodes = numberOfNodes,
      hm_view = 0, hm_leaderID = 0, hm_follower = False, hm_stopSend = False, hm_lastHeartbeat = 0,
      hm_lastTick = 0, hm_hbRespCollector = [], hm_timedOut = False, hm_syncReq = False,
      hm_sentHeartbeat = False, hm_artificialHeartbeat = None, hm_behindSeq = 0, hm_behindCounter = 0,
      hm_numOfTicksBehindBeforeSyncing = numOfTicksBehindBeforeSyncing, hm_followerBehind = False,
      hm_stopped = False, hm_running = False\<rparr>"

definition timeSub :: "int \<Rightarrow> int \<Rightarrow> int" where
  "timeSub t u = max (- (2 ^ 63)) (min (2 ^ 63 - 1) (t - u))"

definition HeartbeatMonitor_Close :: "HeartbeatMonitor \<Rightarrow> HeartbeatMonitor" where
  "HeartbeatMonitor_Close hm =
     (if hm_stopped hm then hm
      else hm\<lparr>hm_stopped := True, hm_running := False, hm_lastHeartbeat := 0, hm_lastTick := 0\<rparr>)"

definition viewActive :: "ViewSequence option \<Rightarrow> bool \<times> u64" where
  "viewActive vs =
     (case vs of None \<Rightarrow> (False, 0)
      | Some viewSeq \<Rightarrow> if \<not> ViewActive viewSeq then (False, 0) else (True, ProposalSeq viewSeq))"

definition sendHeartBeatResponse :: "HeartbeatMonitor \<Rightarrow> u64 \<Rightarrow> hbEffect" where
  "sendHeartBeatResponse hm target = HbSend target (HeartBeatResponseMsg (hm_view hm))"

definition handleHeartBeat ::
  "ViewSequence option \<Rightarrow> HeartbeatMonitor \<Rightarrow> u64 \<Rightarrow> u64 \<Rightarrow> u64 \<Rightarrow> bool \<Rightarrow> HeartbeatMonitor \<times> hbEffect list" where
  "handleHeartBeat vs hm sender hbView hbSeq artificial =
     (if hbView < hm_view hm then (hm, [sendHeartBeatResponse hm sender])
      else if \<not> hm_stopSend hm \<and> sender \<noteq> hm_leaderID hm then (hm, [])
      else if hbView > hm_view hm then (hm, [HbSync])
      else
        let (active, ourSeq) = viewActive vs in
        if active \<and> \<not> artificial then
          (if ourSeq + 1 < hbSeq then (hm, [HbSync])
           else
             let hm1 =
               (if ourSeq + 1 = hbSeq then
                  (let hm0 = hm\<lparr>hm_followerBehind := True\<rparr> in
                   if ourSeq > hm_behindSeq hm0
                   then hm0\<lparr>hm_behindSeq := ourSeq, hm_behindCounter := 0\<rparr> else hm0)
                else hm\<lparr>hm_followerBehind := False\<rparr>)
             in (hm1\<lparr>hm_lastHeartbeat := hm_lastTick hm1\<rparr>, []))
        else
          (let hm1 = hm\<lparr>hm_followerBehind := False\<rparr>
           in (hm1\<lparr>hm_lastHeartbeat := hm_lastTick hm1\<rparr>, [])))"

definition handleHeartBeatResponse ::
  "HeartbeatMonitor \<Rightarrow> u64 \<Rightarrow> u64 \<Rightarrow> HeartbeatMonitor \<times> hbEffect list" where
  "handleHeartBeatResponse hm sender hbrView =
     (if hm_follower hm then (hm, [])
      else if hm_syncReq hm then (hm, [])
      else if hm_view hm \<ge> hbrView then (hm, [])
      else
        let hm1 = hm\<lparr>hm_hbRespCollector := AList.update sender hbrView (hm_hbRespCollector hm)\<rparr>;
            f = snd (computeQuorum (hm_numberOfNodes hm1))
        in if int (length (hm_hbRespCollector hm1)) \<ge> f + 1
           then (hm1\<lparr>hm_syncReq := True\<rparr>, [HbSync])
           else (hm1, []))"

definition handleMsg ::
  "ViewSequence option \<Rightarrow> HeartbeatMonitor \<Rightarrow> u64 \<Rightarrow> Message \<Rightarrow> HeartbeatMonitor \<times> hbEffect list" where
  "handleMsg vs hm sender msg =
     (case msg of
        HeartBeatMsg v s \<Rightarrow> handleHeartBeat vs hm sender v s False
      | HeartBeatResponseMsg v \<Rightarrow> handleHeartBeatResponse hm sender v
      | _ \<Rightarrow> (hm, []))"

text \<open>\<open>GetHeartBeat\<close> returns nil for another message, which the handler dereferences.\<close>

definition handleArtificialHeartBeat ::
  "ViewSequence option \<Rightarrow> HeartbeatMonitor \<Rightarrow> u64 \<Rightarrow> Message \<Rightarrow> (HeartbeatMonitor \<times> hbEffect list) outcome" where
  "handleArtificialHeartBeat vs hm sender msg =
     (case msg of
        HeartBeatMsg v s \<Rightarrow> Inr (handleHeartBeat vs hm sender v s True)
      | _ \<Rightarrow> Inl (Panic ''nil heartbeat''))"

definition handleCommand :: "HeartbeatMonitor \<Rightarrow> roleChange \<Rightarrow> HeartbeatMonitor" where
  "handleCommand hm cmd =
     (if rc_onlyStopSend cmd then hm\<lparr>hm_stopSend := True\<rparr>
      else hm\<lparr>hm_stopSend := False, hm_view := rc_view cmd, hm_leaderID := rc_leaderID cmd,
              hm_follower := rc_follower cmd, hm_timedOut := False,
              hm_lastHeartbeat := hm_lastTick hm, hm_hbRespCollector := [], hm_syncReq := False\<rparr>)"

definition leaderTick ::
  "ViewSequence option \<Rightarrow> HeartbeatMonitor \<Rightarrow> int \<Rightarrow> HeartbeatMonitor \<times> hbEffect list" where
  "leaderTick vs hm now =
     (if durationMul (timeSub now (hm_lastHeartbeat hm)) (hm_hbCount hm) < hm_hbTimeout hm then (hm, [])
      else case vs of
        None \<Rightarrow> (hm, [])
      | Some viewSeq \<Rightarrow>
          if ViewActive viewSeq
          then (hm\<lparr>hm_lastHeartbeat := now\<rparr>,
                [HbBroadcast (HeartBeatMsg (hm_view hm) (ProposalSeq viewSeq))])
          else (hm, []))"

definition followerTick :: "HeartbeatMonitor \<Rightarrow> int \<Rightarrow> HeartbeatMonitor \<times> hbEffect list" where
  "followerTick hm now =
     (if hm_timedOut hm \<or> hm_lastHeartbeat hm = 0 then (hm\<lparr>hm_lastHeartbeat := now\<rparr>, [])
      else if timeSub now (hm_lastHeartbeat hm) \<ge> hm_hbTimeout hm
      then (hm\<lparr>hm_timedOut := True\<rparr>, [HbTimeout (hm_view hm) (hm_leaderID hm)])
      else if \<not> hm_followerBehind hm then (hm, [])
      else
        let hm1 = hm\<lparr>hm_behindCounter := hm_behindCounter hm + 1\<rparr> in
        if hm_behindCounter hm1 \<ge> hm_numOfTicksBehindBeforeSyncing hm1
        then (hm1\<lparr>hm_behindCounter := 0\<rparr>, [HbSync]) else (hm1, []))"

definition tick ::
  "ViewSequence option \<Rightarrow> HeartbeatMonitor \<Rightarrow> int \<Rightarrow> HeartbeatMonitor \<times> hbEffect list" where
  "tick vs hm now =
     (let hm1 = hm\<lparr>hm_lastTick := now\<rparr>;
          hm2 = (if hm_lastHeartbeat hm1 = 0 then hm1\<lparr>hm_lastHeartbeat := now\<rparr> else hm1)
      in if hm_follower hm2 \<or> hm_stopSend hm2 then followerTick hm2 now else leaderTick vs hm2 now)"

text \<open>The two buffered signals: a send that finds the buffer full is dropped.\<close>

definition HeartbeatWasSent :: "HeartbeatMonitor \<Rightarrow> HeartbeatMonitor" where
  "HeartbeatWasSent hm = hm\<lparr>hm_sentHeartbeat := True\<rparr>"

definition InjectArtificialHeartbeat :: "HeartbeatMonitor \<Rightarrow> u64 \<Rightarrow> Message \<Rightarrow> HeartbeatMonitor" where
  "InjectArtificialHeartbeat hm sender msg =
     (case hm_artificialHeartbeat hm of
        None \<Rightarrow> hm\<lparr>hm_artificialHeartbeat := Some (sender, msg)\<rparr>
      | Some _ \<Rightarrow> hm)"

text \<open>
  One iteration of \<open>run\<close>: the event its \<open>select\<close> takes. The unbuffered channels hand over the
  value of the event; the buffered ones are emptied.
\<close>

datatype hbEvent =
    EvTick int
  | EvMsg u64 Message
  | EvCommand roleChange
  | EvSentHeartbeat
  | EvArtificial

definition hbRun ::
  "ViewSequence option \<Rightarrow> HeartbeatMonitor \<Rightarrow> hbEvent \<Rightarrow> (HeartbeatMonitor \<times> hbEffect list) outcome" where
  "hbRun vs hm ev =
     (if hm_stopped hm \<or> \<not> hm_running hm then Inr (hm, [])
      else case ev of
        EvTick now \<Rightarrow> Inr (tick vs hm now)
      | EvMsg sender msg \<Rightarrow> Inr (handleMsg vs hm sender msg)
      | EvCommand cmd \<Rightarrow> Inr (handleCommand hm cmd, [])
      | EvSentHeartbeat \<Rightarrow>
          (if hm_sentHeartbeat hm
           then Inr (hm\<lparr>hm_sentHeartbeat := False, hm_lastHeartbeat := hm_lastTick hm\<rparr>, [])
           else Inr (hm, []))
      | EvArtificial \<Rightarrow>
          (case hm_artificialHeartbeat hm of
             None \<Rightarrow> Inr (hm, [])
           | Some (sender, msg) \<Rightarrow>
               handleArtificialHeartBeat vs (hm\<lparr>hm_artificialHeartbeat := None\<rparr>) sender msg))"

definition StopLeaderSendMsg :: "ViewSequence option \<Rightarrow> HeartbeatMonitor \<Rightarrow> (HeartbeatMonitor \<times> hbEffect list) outcome" where
  "StopLeaderSendMsg vs hm =
     hbRun vs hm (EvCommand \<lparr>rc_view = 0, rc_leaderID = 0, rc_follower = False, rc_onlyStopSend = True\<rparr>)"

text \<open>The first change of role starts the goroutine.\<close>

definition ChangeRole ::
  "ViewSequence option \<Rightarrow> HeartbeatMonitor \<Rightarrow> bool \<Rightarrow> u64 \<Rightarrow> u64 \<Rightarrow> (HeartbeatMonitor \<times> hbEffect list) outcome" where
  "ChangeRole vs hm follower view leaderID =
     (let hm1 = (if hm_running hm \<or> hm_stopped hm then hm
                 else hm\<lparr>hm_running := True, hm_follower := follower\<rparr>)
      in hbRun vs hm1 (EvCommand \<lparr>rc_view = view, rc_leaderID = leaderID, rc_follower = follower,
           rc_onlyStopSend = False\<rparr>))"

fun hbTrace ::
  "HeartbeatMonitor \<Rightarrow> (ViewSequence option \<times> hbEvent) list \<Rightarrow> (HeartbeatMonitor \<times> hbEffect list) outcome" where
  "hbTrace hm [] = Inr (hm, [])"
| "hbTrace hm ((vs, ev) # evs) =
     andThen (hbRun vs hm ev) (\<lambda>(hm', effs).
       andThen (hbTrace hm' evs) (\<lambda>(hm'', effs'). Inr (hm'', effs @ effs')))"

subsection \<open>What a step keeps\<close>

fun isTimeout :: "hbEffect \<Rightarrow> bool" where
  "isTimeout (HbTimeout v l) = True"
| "isTimeout _ = False"

fun changesRole :: "hbEvent \<Rightarrow> bool" where
  "changesRole (EvCommand cmd) = (\<not> rc_onlyStopSend cmd)"
| "changesRole _ = False"

text \<open>Role, view and configuration change only by a role change.\<close>

definition sameRole :: "HeartbeatMonitor \<Rightarrow> HeartbeatMonitor \<Rightarrow> bool" where
  "sameRole hm hm' \<longleftrightarrow> hm_view hm' = hm_view hm \<and> hm_leaderID hm' = hm_leaderID hm \<and>
     hm_follower hm' = hm_follower hm \<and> hm_hbTimeout hm' = hm_hbTimeout hm \<and>
     hm_numberOfNodes hm' = hm_numberOfNodes hm"

lemma handleHeartBeat_keeps:
  "handleHeartBeat vs hm sender v s a = (hm', effs) \<Longrightarrow>
   sameRole hm hm' \<and> hm_timedOut hm' = hm_timedOut hm \<and>
   hm_hbRespCollector hm' = hm_hbRespCollector hm \<and> filter isTimeout effs = []"
  by (auto simp: handleHeartBeat_def sameRole_def sendHeartBeatResponse_def Let_def
      split: prod.splits if_splits)

lemma handleHeartBeatResponse_keeps:
  "handleHeartBeatResponse hm sender v = (hm', effs) \<Longrightarrow>
   sameRole hm hm' \<and> hm_timedOut hm' = hm_timedOut hm \<and> filter isTimeout effs = []"
  by (auto simp: handleHeartBeatResponse_def sameRole_def Let_def split: if_splits)

lemma leaderTick_keeps:
  "leaderTick vs hm now = (hm', effs) \<Longrightarrow>
   sameRole hm hm' \<and> hm_timedOut hm' = hm_timedOut hm \<and> filter isTimeout effs = []"
  by (auto simp: leaderTick_def sameRole_def split: option.splits if_splits)

lemma followerTick_keeps:
  "followerTick hm now = (hm', effs) \<Longrightarrow>
   sameRole hm hm' \<and> (hm_timedOut hm \<longrightarrow> hm_timedOut hm') \<and>
   filter isTimeout effs =
     (if hm_timedOut hm' \<and> \<not> hm_timedOut hm then [HbTimeout (hm_view hm) (hm_leaderID hm)] else [])"
  by (auto simp: followerTick_def sameRole_def Let_def split: if_splits)

lemma tick_keeps:
  assumes "tick vs hm now = (hm', effs)"
  shows "sameRole hm hm' \<and> (hm_timedOut hm \<longrightarrow> hm_timedOut hm') \<and>
   filter isTimeout effs =
     (if hm_timedOut hm' \<and> \<not> hm_timedOut hm then [HbTimeout (hm_view hm) (hm_leaderID hm)] else [])"
proof -
  define hm1 where "hm1 = hm\<lparr>hm_lastTick := now\<rparr>"
  define hm2 where "hm2 = (if hm_lastHeartbeat hm1 = 0 then hm1\<lparr>hm_lastHeartbeat := now\<rparr> else hm1)"
  have same: "sameRole hm hm2" "hm_timedOut hm2 = hm_timedOut hm"
    by (auto simp: hm1_def hm2_def sameRole_def)
  have "(if hm_follower hm2 \<or> hm_stopSend hm2 then followerTick hm2 now else leaderTick vs hm2 now) = (hm', effs)"
    using assms unfolding tick_def Let_def hm1_def hm2_def .
  then show ?thesis
    using same followerTick_keeps [of hm2 now hm' effs] leaderTick_keeps [of vs hm2 now hm' effs]
    by (auto simp: sameRole_def split: if_splits)
qed

lemma handleMsg_keeps:
  "handleMsg vs hm sender m = (hm', effs) \<Longrightarrow>
   sameRole hm hm' \<and> hm_timedOut hm' = hm_timedOut hm \<and> filter isTimeout effs = []"
  using handleHeartBeat_keeps [of vs hm sender] handleHeartBeatResponse_keeps [of hm sender]
  by (cases m) (auto simp: handleMsg_def sameRole_def)

lemma hbRun_keeps:
  assumes "hbRun vs hm ev = Inr (hm', effs)" "\<not> changesRole ev"
  shows "sameRole hm hm' \<and> (hm_timedOut hm \<longrightarrow> hm_timedOut hm') \<and>
   filter isTimeout effs =
     (if hm_timedOut hm' \<and> \<not> hm_timedOut hm then [HbTimeout (hm_view hm) (hm_leaderID hm)] else [])"
proof (cases "hm_stopped hm \<or> \<not> hm_running hm")
  case True
  then show ?thesis using assms(1) by (auto simp: hbRun_def sameRole_def)
next
  case False
  show ?thesis
  proof (cases ev)
    case (EvTick now)
    then show ?thesis using False assms(1) tick_keeps [of vs hm now hm' effs] by (simp add: hbRun_def)
  next
    case (EvMsg sender m)
    then show ?thesis using False assms(1) handleMsg_keeps [of vs hm sender m hm' effs] by (simp add: hbRun_def)
  next
    case (EvCommand cmd)
    then show ?thesis using False assms by (auto simp: hbRun_def handleCommand_def sameRole_def)
  next
    case EvSentHeartbeat
    then show ?thesis using False assms(1) by (auto simp: hbRun_def sameRole_def split: if_splits)
  next
    case EvArtificial
    then show ?thesis
      using False assms(1) handleHeartBeat_keeps [of vs "hm\<lparr>hm_artificialHeartbeat := None\<rparr>"]
      by (auto simp: hbRun_def sameRole_def handleArtificialHeartBeat_def split: option.splits Message.splits)
  qed
qed

text \<open>
  Between two changes of role the monitor complains at most once, and the complaint names
  the view and the leader it was given: whatever ticks, messages and signals it handles, a
  monitor that already timed out reports nothing more, and the timeout is remembered.
\<close>

theorem heartbeat_timeout_reported_once:
  assumes "hbTrace hm evs = Inr (hm', effs)" "\<forall>x\<in>set evs. \<not> changesRole (snd x)"
  shows "filter isTimeout effs =
      (if hm_timedOut hm' \<and> \<not> hm_timedOut hm then [HbTimeout (hm_view hm) (hm_leaderID hm)] else []) \<and>
    (hm_timedOut hm \<longrightarrow> hm_timedOut hm')"
proof -
  have "sameRole hm hm' \<and> filter isTimeout effs =
      (if hm_timedOut hm' \<and> \<not> hm_timedOut hm then [HbTimeout (hm_view hm) (hm_leaderID hm)] else []) \<and>
    (hm_timedOut hm \<longrightarrow> hm_timedOut hm')"
    using assms
  proof (induction hm evs arbitrary: hm' effs rule: hbTrace.induct)
    case (2 hm vs ev evs)
    obtain hm1 effs1 effs2 where r: "hbRun vs hm ev = Inr (hm1, effs1)"
      "hbTrace hm1 evs = Inr (hm', effs2)" "effs = effs1 @ effs2"
      using 2(2) by (auto simp: andThen_eq_Inr_iff)
    have "\<not> changesRole ev" "\<forall>x\<in>set evs. \<not> changesRole (snd x)" using 2(3) by auto
    then show ?case
      using hbRun_keeps [OF r(1)] 2(1) [OF r(2)] r(3)
      by (cases "hm_timedOut hm"; cases "hm_timedOut hm1") (simp_all add: sameRole_def)
  qed (simp add: sameRole_def)
  then show ?thesis by blast
qed

definition exampleFollower :: HeartbeatMonitor where
  "exampleFollower = (NewHeartbeatMonitor 10 5 4 3)\<lparr>hm_running := True, hm_follower := True,
     hm_leaderID := 7, hm_view := 2\<rparr>"

theorem heartbeat_timeout_reported_once_witness:
  "\<exists>hm' effs. hbTrace exampleFollower
      [(None, EvTick 100), (None, EvTick 111), (None, EvTick 125), (None, EvTick 190)] = Inr (hm', effs) \<and>
     filter isTimeout effs = [HbTimeout 2 7]"
proof -
  let ?evs = "[(None, EvTick 100), (None, EvTick 111), (None, EvTick 125), (None, EvTick 190)]"
  obtain hm' effs where r: "hbTrace exampleFollower ?evs = Inr (hm', effs)" "hm_timedOut hm'"
    by (simp add: exampleFollower_def NewHeartbeatMonitor_def hbRun_def tick_def followerTick_def
        timeSub_def Let_def)
  then show ?thesis
    using heartbeat_timeout_reported_once [OF r(1)]
    by (auto simp: exampleFollower_def NewHeartbeatMonitor_def)
qed

subsection \<open>A live leader is not suspected\<close>

lemma timeSub_less: "0 \<le> t - u \<Longrightarrow> t - u < d \<Longrightarrow> timeSub t u < d"
  by (simp add: timeSub_def)

lemma followerTick_quiet:
  assumes "hm_follower hm \<or> hm_stopSend hm" "\<not> hm_timedOut hm" "0 < hm_lastHeartbeat hm"
    and "hm_lastHeartbeat hm \<le> now" "now < hm_lastHeartbeat hm + hm_hbTimeout hm"
  shows "\<exists>hm' effs. tick vs hm now = (hm', effs) \<and> filter isTimeout effs = [] \<and> \<not> hm_timedOut hm' \<and>
    hm_lastHeartbeat hm' = hm_lastHeartbeat hm \<and> hm_hbTimeout hm' = hm_hbTimeout hm \<and>
    (hm_follower hm' \<or> hm_stopSend hm') \<and> hm_stopped hm' = hm_stopped hm \<and> hm_running hm' = hm_running hm"
proof -
  have "timeSub now (hm_lastHeartbeat hm) < hm_hbTimeout hm" using assms(4,5) by (intro timeSub_less) auto
  then show ?thesis using assms by (auto simp: tick_def followerTick_def Let_def)
qed

lemma fresh_heartbeat:
  assumes "viewActive vs = (active, ourSeq)" "\<not> active \<or> s \<le> ourSeq + 1"
  shows "\<exists>h1. handleHeartBeat vs hm (hm_leaderID hm) (hm_view hm) s a = (h1, []) \<and>
    hm_lastHeartbeat h1 = hm_lastTick hm \<and> hm_follower h1 = hm_follower hm \<and>
    hm_timedOut h1 = hm_timedOut hm \<and> hm_running h1 = hm_running hm \<and> hm_stopped h1 = hm_stopped hm \<and>
    hm_hbTimeout h1 = hm_hbTimeout hm"
  using assms by (cases "active \<and> \<not> a") (auto simp: handleHeartBeat_def Let_def not_less)

text \<open>
  C33: a follower that handles a heartbeat of its leader for the current view, not ahead of the
  follower's own sequence by more than one, does not time out on any later tick that comes within the heartbeat
  timeout of the last tick it had seen.
\<close>

theorem live_leader_not_suspected:
  assumes "hm_follower hm" "\<not> hm_timedOut hm" "hm_running hm" "\<not> hm_stopped hm" "0 < hm_lastTick hm"
    and "viewActive vs = (active, ourSeq)" "\<not> active \<or> s \<le> ourSeq + 1"
    and "\<forall>t\<in>set ticks. hm_lastTick hm \<le> t \<and> t < hm_lastTick hm + hm_hbTimeout hm"
  shows "\<exists>hm' effs. hbTrace hm ((vs, EvMsg (hm_leaderID hm) (HeartBeatMsg (hm_view hm) s)) #
      map (\<lambda>t. (vs', EvTick t)) ticks) = Inr (hm', effs) \<and> filter isTimeout effs = [] \<and> \<not> hm_timedOut hm'"
proof -
  have quiet: "\<exists>hm' effs. hbTrace h (map (\<lambda>t. (vs', EvTick t)) ts) = Inr (hm', effs) \<and>
      filter isTimeout effs = [] \<and> \<not> hm_timedOut hm'"
    if "hm_follower h \<or> hm_stopSend h" "\<not> hm_timedOut h" "0 < hm_lastHeartbeat h" "hm_running h" "\<not> hm_stopped h"
      "\<forall>t\<in>set ts. hm_lastHeartbeat h \<le> t \<and> t < hm_lastHeartbeat h + hm_hbTimeout h" for h ts
    using that
  proof (induction ts arbitrary: h)
    case (Cons t ts)
    obtain h1 effs1 where h1: "tick vs' h t = (h1, effs1)" "filter isTimeout effs1 = []" "\<not> hm_timedOut h1"
      "hm_lastHeartbeat h1 = hm_lastHeartbeat h" "hm_hbTimeout h1 = hm_hbTimeout h"
      "hm_follower h1 \<or> hm_stopSend h1" "hm_stopped h1 = hm_stopped h" "hm_running h1 = hm_running h"
      using followerTick_quiet [of h t vs'] Cons.prems by auto
    then have "\<exists>hm' effs. hbTrace h1 (map (\<lambda>t. (vs', EvTick t)) ts) = Inr (hm', effs) \<and>
      filter isTimeout effs = [] \<and> \<not> hm_timedOut hm'" using Cons.prems by (intro Cons.IH) auto
    then show ?case using h1 Cons.prems(4,5) by (auto simp: hbRun_def)
  qed simp
  obtain h1 where h1: "hbRun vs hm (EvMsg (hm_leaderID hm) (HeartBeatMsg (hm_view hm) s)) = Inr (h1, [])"
    "hm_lastHeartbeat h1 = hm_lastTick hm" "hm_follower h1" "\<not> hm_timedOut h1" "hm_running h1" "\<not> hm_stopped h1"
    "hm_hbTimeout h1 = hm_hbTimeout hm"
    using fresh_heartbeat [OF assms(6,7)] assms(1-4) by (fastforce simp: hbRun_def handleMsg_def)
  then show ?thesis using quiet [of h1 ticks] assms(5,8) by auto
qed

theorem live_leader_not_suspected_witness:
  "\<exists>hm' effs. hbTrace (exampleFollower\<lparr>hm_lastTick := 50, hm_lastHeartbeat := 42\<rparr>)
     ((None, EvMsg 7 (HeartBeatMsg 2 9)) # map (\<lambda>t. (None, EvTick t)) [53, 59]) = Inr (hm', effs) \<and>
     filter isTimeout effs = []"
  using live_leader_not_suspected [of "exampleFollower\<lparr>hm_lastTick := 50, hm_lastHeartbeat := 42\<rparr>"
      None False 0 9 "[53, 59]" None]
  by (auto simp: exampleFollower_def NewHeartbeatMonitor_def viewActive_def)

subsection \<open>Evidence for a synchronisation\<close>

text \<open>
  A whole life of the monitor: the calls of its methods by other goroutines, and the events its own goroutine takes.
\<close>

datatype hbCall =
    CallChangeRole bool u64 u64
  | CallStopLeaderSendMsg
  | CallHeartbeatWasSent
  | CallInject u64 Message
  | CallClose
  | CallTick int
  | CallMsg u64 Message
  | CallTakeSent
  | CallTakeArtificial

definition hbCallStep ::
  "ViewSequence option \<Rightarrow> HeartbeatMonitor \<Rightarrow> hbCall \<Rightarrow> (HeartbeatMonitor \<times> hbEffect list) outcome" where
  "hbCallStep vs hm call =
     (case call of
        CallChangeRole follower view leaderID \<Rightarrow> ChangeRole vs hm follower view leaderID
      | CallStopLeaderSendMsg \<Rightarrow> StopLeaderSendMsg vs hm
      | CallHeartbeatWasSent \<Rightarrow> Inr (HeartbeatWasSent hm, [])
      | CallInject sender msg \<Rightarrow> Inr (InjectArtificialHeartbeat hm sender msg, [])
      | CallClose \<Rightarrow> Inr (HeartbeatMonitor_Close hm, [])
      | CallTick now \<Rightarrow> hbRun vs hm (EvTick now)
      | CallMsg sender msg \<Rightarrow> hbRun vs hm (EvMsg sender msg)
      | CallTakeSent \<Rightarrow> hbRun vs hm EvSentHeartbeat
      | CallTakeArtificial \<Rightarrow> hbRun vs hm EvArtificial)"

fun hbCalls ::
  "HeartbeatMonitor \<Rightarrow> (ViewSequence option \<times> hbCall) list \<Rightarrow> (HeartbeatMonitor \<times> hbEffect list) outcome" where
  "hbCalls hm [] = Inr (hm, [])"
| "hbCalls hm ((vs, call) # calls) =
     andThen (hbCallStep vs hm call) (\<lambda>(hm', effs).
       andThen (hbCalls hm' calls) (\<lambda>(hm'', effs'). Inr (hm'', effs @ effs')))"

text \<open>The heartbeat responses since the last change of role.\<close>

fun startsRole :: "hbCall \<Rightarrow> bool" where
  "startsRole (CallChangeRole _ _ _) = True"
| "startsRole _ = False"

abbreviation responseCall :: "u64 \<Rightarrow> u64 \<Rightarrow> hbCall" where
  "responseCall n w \<equiv> CallMsg n (HeartBeatResponseMsg w)"

definition responded :: "(ViewSequence option \<times> hbCall) list \<Rightarrow> (u64 \<times> u64) set" where
  "responded calls = {(n, w). responseCall n w \<in> snd ` set (takeWhile (\<lambda>c. \<not> startsRole (snd c)) (rev calls))}"

lemma responded_snoc:
  "responded (calls @ [(vs, call)]) =
     (if startsRole call then {} else {(n, w). call = responseCall n w} \<union> responded calls)"
  by (force simp: responded_def)

text \<open>What the other events leave alone, and what the collector holds.\<close>

definition sameCollector :: "HeartbeatMonitor \<Rightarrow> HeartbeatMonitor \<Rightarrow> bool" where
  "sameCollector hm hm' \<longleftrightarrow> hm_hbRespCollector hm' = hm_hbRespCollector hm \<and> hm_view hm' = hm_view hm \<and>
     hm_stopped hm' = hm_stopped hm \<and> hm_numberOfNodes hm' = hm_numberOfNodes hm"

definition hbCollector_inv :: "(ViewSequence option \<times> hbCall) list \<Rightarrow> HeartbeatMonitor \<Rightarrow> bool" where
  "hbCollector_inv calls hm \<longleftrightarrow> hm_stopped hm \<or>
     (distinct (map fst (hm_hbRespCollector hm)) \<and>
      (\<forall>(n, w)\<in>set (hm_hbRespCollector hm). hm_view hm < w \<and> (n, w) \<in> responded calls))"

lemma hbCollector_inv_same:
  assumes "hbCollector_inv calls hm" "sameCollector hm hm'" "responded calls \<subseteq> responded calls'"
  shows "hbCollector_inv calls' hm'"
  using assms by (auto simp: hbCollector_inv_def sameCollector_def)

lemma handleHeartBeat_collector: "sameCollector hm (fst (handleHeartBeat vs hm sender v s a))"
  by (simp add: handleHeartBeat_def sameCollector_def Let_def split: prod.split)

lemma tick_collector: "sameCollector hm (fst (tick vs hm now))"
  by (simp add: tick_def leaderTick_def followerTick_def sameCollector_def Let_def split: option.split)

lemma handleMsg_collector:
  "(\<And>w. m \<noteq> HeartBeatResponseMsg w) \<Longrightarrow> sameCollector hm (fst (handleMsg vs hm sender m))"
  using handleHeartBeat_collector by (cases m) (auto simp: handleMsg_def sameCollector_def)

text \<open>An event other than a response or a change of role.\<close>

lemma hbRun_collector:
  assumes "hbRun vs hm ev = Inr (hm', effs)" "\<not> changesRole ev" "\<And>n w. ev \<noteq> EvMsg n (HeartBeatResponseMsg w)"
  shows "sameCollector hm hm'"
proof (cases "hm_stopped hm \<or> \<not> hm_running hm")
  case True
  then show ?thesis using assms(1) by (auto simp: hbRun_def sameCollector_def)
next
  case False
  show ?thesis
  proof (cases ev)
    case (EvTick now)
    then show ?thesis using False assms(1) tick_collector [of hm vs now] by (simp add: hbRun_def)
  next
    case (EvMsg sender m)
    then show ?thesis using False assms(1,3) handleMsg_collector [of m hm vs sender] by (auto simp: hbRun_def)
  next
    case (EvCommand cmd)
    then show ?thesis using False assms by (auto simp: hbRun_def handleCommand_def sameCollector_def)
  next
    case EvSentHeartbeat
    then show ?thesis using False assms(1) by (auto simp: hbRun_def sameCollector_def split: if_splits)
  next
    case EvArtificial
    let ?hm = "hm\<lparr>hm_artificialHeartbeat := None\<rparr>"
    have "hm' = hm \<or> (\<exists>sender v s. (hm', effs) = handleHeartBeat vs ?hm sender v s True)"
      using False assms(1) EvArtificial
      by (auto simp: hbRun_def handleArtificialHeartBeat_def split: option.splits Message.splits) metis
    then show ?thesis
      using handleHeartBeat_collector [of ?hm vs] by (auto simp: sameCollector_def) (metis fst_conv)+
  qed
qed

text \<open>A change of role empties the collector of a monitor that is not stopped, and forgets its request to synchronise.\<close>

lemma hbCollector_inv_role:
  assumes "hbRun vs hm (EvCommand cmd) = Inr (hm', effs)" "\<not> rc_onlyStopSend cmd" "hm_running hm"
  shows "hbCollector_inv calls hm' \<and> hm_numberOfNodes hm' = hm_numberOfNodes hm"
  using assms by (auto simp: hbRun_def handleCommand_def hbCollector_inv_def split: if_splits)

lemma hbCollector_inv_response:
  assumes "hbCollector_inv calls hm" "(sender, v) \<in> responded calls'" "responded calls \<subseteq> responded calls'"
    and "hbRun vs hm (EvMsg sender (HeartBeatResponseMsg v)) = Inr (hm', effs)"
  shows "hbCollector_inv calls' hm' \<and> hm_numberOfNodes hm' = hm_numberOfNodes hm"
proof -
  have "n = sender \<and> w = v \<or> (n, w) \<in> set (hm_hbRespCollector hm)"
    if "(n, w) \<in> set (AList.update sender v (hm_hbRespCollector hm))" for n w
    using in_set_alist_update [OF that] by simp
  then show ?thesis
    using assms
    by (fastforce simp: hbRun_def handleMsg_def handleHeartBeatResponse_def hbCollector_inv_def distinct_update Let_def
        split: if_splits)
qed

lemma hbCallStep_inv:
  assumes "hbCallStep vs hm call = Inr (hm', effs)" "hbCollector_inv calls hm"
  shows "hbCollector_inv (calls @ [(vs, call)]) hm' \<and> hm_numberOfNodes hm' = hm_numberOfNodes hm"
proof -
  have same: ?thesis if "sameCollector hm hm'" "\<not> startsRole call"
    using hbCollector_inv_same [OF assms(2) that(1)] that by (auto simp: responded_snoc sameCollector_def)
  have closed: ?thesis if "hm_stopped hm'" "hm_numberOfNodes hm' = hm_numberOfNodes hm"
    using that by (simp add: hbCollector_inv_def)
  show ?thesis
  proof (cases call)
    case (CallChangeRole follower view leaderID)
    show ?thesis
    proof (cases "hm_stopped hm")
      case True
      then show ?thesis
        using assms(1) CallChangeRole closed by (auto simp: hbCallStep_def ChangeRole_def hbRun_def Let_def)
    next
      case False
      then show ?thesis
        using assms(1) CallChangeRole
          hbCollector_inv_role [of vs "if hm_running hm then hm else hm\<lparr>hm_running := True, hm_follower := follower\<rparr>"
            "\<lparr>rc_view = view, rc_leaderID = leaderID, rc_follower = follower, rc_onlyStopSend = False\<rparr>" hm' effs]
        by (auto simp: hbCallStep_def ChangeRole_def Let_def split: if_splits)
    qed
  next
    case CallStopLeaderSendMsg
    then show ?thesis
      using assms(1) same hbRun_collector [of vs hm _ hm' effs] by (fastforce simp: hbCallStep_def StopLeaderSendMsg_def)
  next
    case (CallMsg sender m)
    show ?thesis
    proof (cases "\<exists>w. m = HeartBeatResponseMsg w")
      case True
      then obtain w where w: "m = HeartBeatResponseMsg w" by blast
      show ?thesis
        by (rule hbCollector_inv_response [OF assms(2), of sender w])
          (use assms(1) CallMsg w in \<open>auto simp: responded_snoc hbCallStep_def\<close>)
    next
      case False
      then show ?thesis
        using assms(1) same CallMsg hbRun_collector [of vs hm "EvMsg sender m" hm' effs] by (auto simp: hbCallStep_def)
    qed
  next
    case (CallTick now)
    then show ?thesis
      using assms(1) same hbRun_collector [of vs hm "EvTick now" hm' effs] by (auto simp: hbCallStep_def)
  next
    case CallTakeSent
    then show ?thesis
      using assms(1) same hbRun_collector [of vs hm EvSentHeartbeat hm' effs] by (auto simp: hbCallStep_def)
  next
    case CallTakeArtificial
    then show ?thesis
      using assms(1) same hbRun_collector [of vs hm EvArtificial hm' effs] by (auto simp: hbCallStep_def)
  next
    case CallClose
    then show ?thesis
      using assms(1) closed by (auto simp: hbCallStep_def HeartbeatMonitor_Close_def split: if_splits)
  qed (use assms(1) same in \<open>auto simp: hbCallStep_def HeartbeatWasSent_def InjectArtificialHeartbeat_def sameCollector_def
      split: option.splits\<close>)
qed

lemma hbCalls_inv:
  "hbCalls hm calls = Inr (hm', effs) \<Longrightarrow> hbCollector_inv earlier hm \<Longrightarrow>
   hbCollector_inv (earlier @ calls) hm' \<and> hm_numberOfNodes hm' = hm_numberOfNodes hm"
proof (induction hm calls arbitrary: earlier effs rule: hbCalls.induct)
  case (2 hm vs call calls)
  obtain hm1 effs1 effs2 where r: "hbCallStep vs hm call = Inr (hm1, effs1)" "hbCalls hm1 calls = Inr (hm', effs2)"
    using 2(2) by (auto simp: andThen_eq_Inr_iff)
  have "hbCollector_inv (earlier @ [(vs, call)]) hm1 \<and> hm_numberOfNodes hm1 = hm_numberOfNodes hm"
    by (rule hbCallStep_inv [OF r(1) 2(3)])
  then show ?case using 2(1) [OF r(2), of "earlier @ [(vs, call)]"] by simp
qed simp

text \<open>
  C34: a leader that asks for a synchronisation because of heartbeat responses has been told by a correct node, since
  it last changed its role, that this node is in a view newer than the leader's: over any life of the monitor, with whatever
  role changes, ticks, messages, signals and calls in any order, the responses it counts come from more than \<open>f\<close> distinct
  members and none is left from an earlier role. It then remembers the request and ignores further responses.
\<close>

theorem heartbeat_sync_evidence:
  assumes "hbCalls (NewHeartbeatMonitor timeout heartbeats (of_nat (length nodes)) behind) calls = Inr (hm, effs)"
    and "hbRun vs hm (EvMsg sender (HeartBeatResponseMsg v)) = Inr (hm', [HbSync])"
    and "\<forall>n w. responseCall n w \<in> insert (responseCall sender v) (snd ` set calls) \<longrightarrow> n \<in> set nodes"
    and "validNodes nodes" "F \<subseteq> set nodes" "card F \<le> maxFaulty nodes"
  shows "(\<exists>n\<in>set nodes - F. \<exists>w. (n, w) \<in> insert (sender, v) (responded calls) \<and> hm_view hm < w) \<and>
    hm_view hm' = hm_view hm \<and> (\<forall>vs n w. hbRun vs hm' (EvMsg n (HeartBeatResponseMsg w)) = Inr (hm', []))"
proof -
  have "hbCollector_inv [] (NewHeartbeatMonitor timeout heartbeats (of_nat (length nodes)) behind)"
    by (simp add: hbCollector_inv_def NewHeartbeatMonitor_def)
  from hbCalls_inv [OF assms(1) this] have inv: "hbCollector_inv calls hm" "hm_numberOfNodes hm = of_nat (length nodes)"
    by (simp_all add: NewHeartbeatMonitor_def)
  let ?calls = "calls @ [(vs, responseCall sender v)]"
  have resp: "responded ?calls = insert (sender, v) (responded calls)" by (auto simp: responded_snoc)
  have live: "\<not> hm_stopped hm" "hm_running hm" using assms(2) by (auto simp: hbRun_def split: if_splits)
  have r: "handleHeartBeatResponse hm sender v = (hm', [HbSync])"
    using assms(2) live by (simp add: hbRun_def handleMsg_def)
  then have eq: "hm_view hm' = hm_view hm" "hm_syncReq hm'" "\<not> hm_follower hm'" "\<not> hm_stopped hm'" "hm_running hm'"
    "snd (computeQuorum (of_nat (length nodes))) + 1 \<le> int (length (hm_hbRespCollector hm'))"
    using inv(2) live by (auto simp: handleHeartBeatResponse_def Let_def split: if_splits)
  have inv1: "hbCollector_inv ?calls hm'"
    using hbCollector_inv_response [OF inv(1) _ _ assms(2), of ?calls] unfolding resp by blast
  have inv': "distinct (map fst (hm_hbRespCollector hm'))"
    "\<And>n w. (n, w) \<in> set (hm_hbRespCollector hm') \<Longrightarrow> hm_view hm < w \<and> (n, w) \<in> responded ?calls"
    using inv1 eq(1,4) by (auto simp: hbCollector_inv_def)
  let ?A = "fst ` set (hm_hbRespCollector hm')"
  have "card ?A = length (hm_hbRespCollector hm')" using inv'(1) by (metis distinct_card length_map list.set_map)
  moreover have "0 \<le> snd (computeQuorum (of_nat (length nodes)))"
    using computeQuorum_of_nat [of "length nodes"] assms(4)
    by (cases nodes) (auto simp: validNodes_def pos_imp_zdiv_nonneg_iff)
  ultimately have "maxFaulty nodes < card ?A" using eq(6) by (simp add: maxFaulty_def)
  then obtain n where n: "n \<in> ?A" "n \<notin> F"
    using cluster.enough_has_correct [OF assms(4,5,6)] by blast
  then obtain w where "(n, w) \<in> set (hm_hbRespCollector hm')" by auto
  then have w: "(n, w) \<in> insert (sender, v) (responded calls)" "hm_view hm < w"
    using inv'(2) resp by auto
  then have "n \<in> set nodes"
    using assms(3) by (auto simp: responded_def image_iff dest!: set_takeWhileD) (metis snd_conv)
  then show ?thesis using n(2) w eq by (auto simp: hbRun_def handleMsg_def handleHeartBeatResponse_def)
qed

text \<open>
  A leader of four nodes in view 0, then in view 6. The response of node 4 for view 5 belongs to the first role; the faulty
  node 3 claims view 9; node 2 is in view 8.
\<close>

definition exampleCalls :: "(ViewSequence option \<times> hbCall) list" where
  "exampleCalls = map (\<lambda>c. (None, c)) [CallChangeRole False 0 1, responseCall 4 5, CallChangeRole False 6 1, CallTick 10, responseCall 3 9]"

theorem heartbeat_sync_evidence_witness:
  "\<exists>hm effs hm'. hbCalls (NewHeartbeatMonitor 10 5 4 3) exampleCalls = Inr (hm, effs) \<and> hm_view hm = 6 \<and>
     hbRun None hm (EvMsg 2 (HeartBeatResponseMsg 8)) = Inr (hm', [HbSync]) \<and>
     (\<exists>n\<in>set [1, 2, 3, 4] - {3}. \<exists>w. (n, w) \<in> insert (2, 8) (responded exampleCalls) \<and> 6 < w)"
proof -
  have "case hbCalls (NewHeartbeatMonitor 10 5 4 3) exampleCalls of Inl _ \<Rightarrow> False | Inr (hm, _) \<Rightarrow> hm_view hm = 6 \<and>
      (case hbRun None hm (EvMsg 2 (HeartBeatResponseMsg 8)) of Inl _ \<Rightarrow> False | Inr (_, e) \<Rightarrow> e = [HbSync])"
    by code_simp
  then obtain hm effs hm' where r: "hbCalls (NewHeartbeatMonitor 10 5 4 3) exampleCalls = Inr (hm, effs)" "hm_view hm = 6"
    "hbRun None hm (EvMsg 2 (HeartBeatResponseMsg 8)) = Inr (hm', [HbSync])"
    by (auto split: sum.split_asm prod.split_asm)
  have v: "validNodes [1, 2, 3, 4]" by (simp add: validNodes_def)
  have f: "maxFaulty [1, 2, 3, 4] = 1" using maxFaulty_eq [OF v] by simp
  have "\<exists>n\<in>set [1, 2, 3, 4] - {3}. \<exists>w. (n, w) \<in> insert (2, 8) (responded exampleCalls) \<and> hm_view hm < w"
    using heartbeat_sync_evidence [OF _ r(3) _ v, of 10 5 3 exampleCalls effs "{3}"] r(1) f by (simp add: exampleCalls_def)
  then show ?thesis using r by auto
qed

end
