(* ===== verification/Consensus.thy ===== *)
theory Consensus
  imports ControllerProperties Heartbeat
begin

text \<open>
  The entry point of the library, pkg/consensus/consensus.go: it validates the configuration, creates the
  components, restores the view and the sequence from the log, starts everything, and replaces the components
  when a decision reconfigures the cluster.

  The components live in the record \<open>Controller\<close>; the heartbeat monitor is kept beside it. What survives a
  reconfiguration, the pool, the persisted state, the application and the checkpoint, is handed to the new
  components. A reconfiguration holds \<open>consensusLock\<close> while it stops the old ones. Metrics are left out.
\<close>

record ('a, 'w) Consensus =
  cs_Config :: Configuration
  cs_membership :: membership
  cs_WALInitialContent :: "bytes list"
  cs_WAL :: 'w
  cs_app :: 'a
  cs_Metadata :: ViewMetadata
  cs_LastProposal :: Proposal
  cs_LastSignatures :: "Signature list"
  cs_Controller :: "('a, 'w) Controller"
  cs_LeaderMonitor :: HeartbeatMonitor
  cs_stopped :: bool          \<comment> \<open>\<open>stopChan\<close> is closed\<close>
  cs_running :: bool

subsection \<open>Creating the components\<close>

text \<open>
  The conversion of a \<open>uint64\<close> to \<open>int\<close> for the size of a channel. Both users of it, the view changer and the
  views, take it from the same configuration; \<open>make\<close> panics on a negative size when the view changer starts, before any view.
\<close>

definition bufferSize :: "u64 \<Rightarrow> nat" where
  "bufferSize n = nat (sint n)"

definition makeBuffer :: "u64 \<Rightarrow> unit outcome" where
  "makeBuffer n = (if sint n < 0 then Inl (Panic ''makechan: size out of range'') else Inr ())"

definition proposalMaker :: "Configuration \<Rightarrow> membership \<Rightarrow> ProposalMaker" where
  "proposalMaker config m =
     \<lparr>pm_DecisionsPerLeader = DecisionsPerLeader config, pm_N = numberOfNodes m, pm_NodesList = nodesList m,
      pm_SelfID = SelfID config, pm_InMsqQSize = bufferSize (IncomingMessageBufferSize config), pm_restored = False,
      pm_ViewSequences = None\<rparr>"

text \<open>Fields the source leaves at their zero value are set by \<open>Start\<close>.\<close>

definition createViewChanger :: "Configuration \<Rightarrow> membership \<Rightarrow> ViewChanger" where
  "createViewChanger config m =
     \<lparr>vc_SelfID = SelfID config, vc_NodesList = nodesList m, vc_N = numberOfNodes m, vc_f = 0, vc_quorum = 0,
      vc_SpeedUpViewChange = SpeedUpViewChange config, vc_LeaderRotation = LeaderRotation config,
      vc_DecisionsPerLeader = DecisionsPerLeader config, vc_inFlightDecide = False, vc_inFlightSync = False,
      vc_inFlightView = None, vc_lastTick = 0, vc_ResendTimeout = ViewChangeResendInterval config, vc_lastResend = 0,
      vc_ViewChangeTimeout = ViewChangeTimeout config, vc_startViewChangeTime = 0, vc_checkTimeout = False,
      vc_backOffFactor = 0, vc_Restore = False, vc_InMsqQSize = bufferSize (IncomingMessageBufferSize config),
      vc_incMsgs = [], vc_viewChangeMsgs = voteSet_clear 0, vc_viewDataMsgs = voteSet_clear 0, vc_nvs = nextViews_clear,
      vc_realView = 0, vc_currView = 0, vc_nextView = 0, vc_startChangeChan = [], vc_informChan = [],
      vc_committedDuringViewChange = None, vc_stopped = False, vc_pc = VcEnded\<rparr>"

definition createCollector :: "Configuration \<Rightarrow> membership \<Rightarrow> StateCollector" where
  "createCollector config m =
     \<lparr>sc_SelfID = SelfID config, sc_N = numberOfNodes m, sc_f = 0, sc_quorum = 0, sc_incMsgs = [],
      sc_responses = voteSet_clear 0, sc_stopped = False\<rparr>"

definition createBatcher :: "Configuration \<Rightarrow> BatchBuilder" where
  "createBatcher config =
     NewBatchBuilder (RequestBatchMaxCount config) (RequestBatchMaxBytes config) (RequestBatchMaxInterval config)"

definition createMonitor :: "Configuration \<Rightarrow> membership \<Rightarrow> HeartbeatMonitor" where
  "createMonitor config m =
     NewHeartbeatMonitor (LeaderHeartbeatTimeout config) (LeaderHeartbeatCount config) (numberOfNodes m)
       (NumOfTicksBehindBeforeSyncing config)"

text \<open>\<open>CurrView\<close> is nil until the first view starts.\<close>

definition createComponents ::
  "Configuration \<Rightarrow> membership \<Rightarrow> 'a world \<Rightarrow> 'w PersistedState \<Rightarrow> Pool \<Rightarrow> ('a, 'w) Controller" where
  "createComponents config m w ps pool =
     \<lparr>ct_ID = SelfID config, ct_N = numberOfNodes m, ct_NodesList = nodesList m,
      ct_LeaderRotation = LeaderRotation config, ct_DecisionsPerLeader = DecisionsPerLeader config,
      ct_RequestPool = pool, ct_Batcher = createBatcher config, ct_world = w, ct_State = ps,
      ct_ProposerBuilder = proposalMaker config m, ct_ViewChanger = createViewChanger config m,
      ct_Collector = createCollector config m, ct_quorum = 0,
      ct_CurrView = bareView (proposalMaker config m) 0 0 0 0 0, ct_currViewNumber = 0, ct_currDecisionsInView = 0,
      ct_viewChange = [], ct_abortViewChan = [], ct_stopped = False, ct_syncChan = False, ct_decision = None,
      ct_leaderToken = False, ct_verificationSequence = 0,
      ct_client_requests = \<lparr>pr_channels = [], pr_capacity = 0, pr_nodesList = [], pr_poller = PollNotStarted\<rparr>,
      ct_running = False, ct_effects = []\<rparr>"

definition poolOptions :: "Configuration \<Rightarrow> int \<Rightarrow> PoolOptions" where
  "poolOptions config queueSize =
     \<lparr>po_QueueSize = queueSize, po_ForwardTimeout = RequestForwardTimeout config,
      po_ComplainTimeout = RequestComplainTimeout config, po_AutoRemoveTimeout = RequestAutoRemoveTimeout config,
      po_RequestMaxBytes = RequestMaxBytes config, po_SubmitTimeout = RequestPoolSubmitTimeout config\<rparr>"

subsection \<open>Where to start from\<close>

text \<open>The results are the view, the sequence and the decisions, and whether the view changer restores a view change.\<close>

definition setViewAndSeq ::
  "codec \<Rightarrow> 'w PersistedState \<Rightarrow> u64 \<Rightarrow> u64 \<Rightarrow> u64 \<Rightarrow> ((u64 \<times> u64 \<times> u64) \<times> bool) outcome" where
  "setViewAndSeq C ps view seq dec =
     (let newDec = (if seq = 0 then 0 else dec + 1) in
      case LoadViewChangeIfApplicable C ps of
        Inl err \<Rightarrow> Inl (Panic ''Failed loading view change'')
      | Inr viewChange \<Rightarrow>
          (let (newView, restore) = (case viewChange of
                 None \<Rightarrow> (view, False)
               | Some n \<Rightarrow> if n \<ge> view then (n, True) else (view, False))
           in case LoadNewViewIfApplicable C ps of
                Inl err \<Rightarrow> Inl (Panic ''Failed loading new view'')
              | Inr viewSeq \<Rightarrow>
                  (case viewSeq of
                     None \<Rightarrow> Inr ((newView, seq, newDec), restore)
                   | Some vs \<Rightarrow>
                       if vs_Seq vs \<ge> seq then Inr ((vs_View vs, vs_Seq vs, 0), restore)
                       else Inr ((newView, seq, newDec), restore))))"

text \<open>
  \<open>setViewAndSeq\<close> hands the restored view change to the view changer before it starts. \<open>now\<close> is the time and
  \<open>events\<close> are the events of the collector in case the controller synchronizes first.
\<close>

definition startComponents ::
  "('a, 'w, 'e) ctlEnv \<Rightarrow> Configuration \<Rightarrow> int \<Rightarrow> collectEvent list \<Rightarrow> u64 \<times> u64 \<times> u64 \<Rightarrow> bool \<Rightarrow> bool \<Rightarrow>
   ('a, 'w) Controller \<Rightarrow> ('a, 'w) Controller outcome" where
  "startComponents E config now events numbers restore configSync c =
     (case numbers of (view, seq, dec) \<Rightarrow>
        andThen (makeBuffer (IncomingMessageBufferSize config)) (\<lambda>_.
          ct_Start E events view (seq + 1) dec (configSync \<and> SyncOnStart config)
            (c\<lparr>ct_Collector := StateCollector_Start (ct_Collector c),
               ct_ViewChanger := ViewChanger_Start view now ((ct_ViewChanger c)\<lparr>vc_Restore := restore\<rparr>)\<rparr>)))"

subsection \<open>Starting\<close>

text \<open>\<open>nodes\<close> is what \<open>Comm.Nodes\<close> returns. An error leaves everything as it was.\<close>

definition Consensus_Start ::
  "('a, 'w, 'e) ctlEnv \<Rightarrow> u64 list \<Rightarrow> int \<Rightarrow> collectEvent list \<Rightarrow> ('a, 'w) Consensus \<Rightarrow>
   (string option \<times> ('a, 'w) Consensus) outcome" where
  "Consensus_Start E nodes now events cs =
     (let config = cs_Config cs in
      case ValidateConfiguration config nodes of
        Some err \<Rightarrow> Inr (Some (''configuration is invalid: '' @ err), cs)
      | None \<Rightarrow>
          (let m = setNodes (cs_membership cs) nodes;
               ps = \<lparr>ps_InFlightProposal = None, ps_Entries = cs_WALInitialContent cs, ps_WAL = cs_WAL cs\<rparr>;
               w = \<lparr>w_app = cs_app cs,
                    w_Checkpoint = \<lparr>ckp_proposal = cs_LastProposal cs, ckp_signatures = cs_LastSignatures cs\<rparr>\<rparr>;
               c = createComponents config m w ps (NewPool (poolOptions config (sint (RequestPoolSize config))));
               md = cs_Metadata cs
           in andThen (setViewAndSeq (ce_codec E) ps (ViewId md) (LatestSequence md) (DecisionsInView md))
                (\<lambda>(numbers, restore).
                   andThen (startComponents E config now events numbers restore True c) (\<lambda>c1.
                     Inr (None, cs\<lparr>cs_membership := m, cs_Controller := c1, cs_LeaderMonitor := createMonitor config m,
                                  cs_stopped := False, cs_running := True\<rparr>)))))"

subsection \<open>Reconfiguration\<close>

definition cs_close :: "('a, 'w) Consensus \<Rightarrow> ('a, 'w) Consensus" where
  "cs_close cs = cs\<lparr>cs_stopped := True\<rparr>"

text \<open>\<open>Stop\<close> of the view changer waits until its goroutine has taken \<open>stopChan\<close>.\<close>

definition ViewChanger_Stop :: "ViewChanger \<Rightarrow> ViewChanger" where
  "ViewChanger_Stop v = (vc_close v)\<lparr>vc_pc := VcEnded\<rparr>"

definition stopForReconfig ::
  "('a, 'w, 'e) ctlEnv \<Rightarrow> viewChoice list \<Rightarrow> ('a, 'w) Controller \<Rightarrow> ('a, 'w) Controller outcome" where
  "stopForReconfig E waits c =
     andThen (StopWithPoolPause (E\<lparr>ce_locked := True\<rparr>) waits
                (c\<lparr>ct_ViewChanger := ViewChanger_Stop (ct_ViewChanger c)\<rparr>)) (\<lambda>c1.
       Inr (c1\<lparr>ct_Collector := StateCollector_Stop (ct_Collector c1)\<rparr>))"

definition restartComponents ::
  "('a, 'w, 'e) ctlEnv \<Rightarrow> int \<Rightarrow> Reconfig \<Rightarrow> ('a, 'w) Consensus \<Rightarrow> ('a, 'w) Consensus outcome" where
  "restartComponents E now rc cs =
     (let config = rc_CurrentConfig rc; old = cs_Controller cs;
          m = setNodes (cs_membership cs) (rc_CurrentNodes rc);
          pool = ChangeOptions (ct_RequestPool old) (poolOptions config 0);
          c = createComponents config m (ct_world old) (ct_State old) pool
      in case unmarshalMetadata (ce_codec E) (bytes_of (Metadata (fst (Checkpoint_Get (w_Checkpoint (ct_world c)))))) of
           None \<Rightarrow> Inl (Panic ''Couldn't unmarshal the checkpoint metadata'')
         | Some md \<Rightarrow>
             andThen (setViewAndSeq (ce_codec E) (ct_State c) (ViewId md) (LatestSequence md) (DecisionsInView md))
               (\<lambda>(numbers, restore).
             andThen (startComponents E config now [] numbers restore False c) (\<lambda>c1.
               Inr (cs\<lparr>cs_Config := config, cs_membership := m, cs_LeaderMonitor := createMonitor config m,
                       cs_Controller := c1\<lparr>ct_RequestPool := RestartTimers (ct_RequestPool c1)\<rparr>\<rparr>))))"

definition reconfig ::
  "('a, 'w, 'e) ctlEnv \<Rightarrow> viewChoice list \<Rightarrow> int \<Rightarrow> Reconfig \<Rightarrow> ('a, 'w) Consensus \<Rightarrow> ('a, 'w) Consensus outcome" where
  "reconfig E waits now rc cs =
     andThen (stopForReconfig E waits (cs_Controller cs)) (\<lambda>c1.
       let cs1 = cs\<lparr>cs_Controller := c1\<rparr>; cs2 = cs1\<lparr>cs_Config := rc_CurrentConfig rc\<rparr> in
       if SelfID (cs_Config cs1) \<notin> set (rc_CurrentNodes rc) then Inr (cs_close cs1)
       else case ValidateConfiguration (rc_CurrentConfig rc) (rc_CurrentNodes rc) of
         Some err \<Rightarrow>
           if err = ''nodes does not contain the SelfID'' then Inr (cs_close cs2)
           else Inl (Panic ''Configuration is invalid'')
       | None \<Rightarrow> restartComponents E now rc cs2)"

subsection \<open>Calls of the application\<close>

definition Consensus_GetLeaderID :: "('a, 'w, 'e) ctlEnv \<Rightarrow> ('a, 'w) Consensus \<Rightarrow> u64 outcome" where
  "Consensus_GetLeaderID E cs = (if \<not> cs_running cs then Inr 0 else ct_leaderID E (cs_Controller cs))"

definition onController ::
  "(('a, 'w) Controller \<Rightarrow> ('a, 'w) Controller outcome) \<Rightarrow> ('a, 'w) Consensus \<Rightarrow> ('a, 'w) Consensus outcome" where
  "onController f cs = andThen (f (cs_Controller cs)) (\<lambda>c. Inr (cs\<lparr>cs_Controller := c\<rparr>))"

definition Consensus_HandleMessage ::
  "('a, 'w, 'e) ctlEnv \<Rightarrow> bool \<Rightarrow> u64 \<Rightarrow> Message \<Rightarrow> ('a, 'w) Consensus \<Rightarrow> ('a, 'w) Consensus outcome" where
  "Consensus_HandleMessage E enqueue sender m cs =
     (if \<not> acceptsSender (cs_membership cs) sender then Inr cs
      else onController (ProcessMessages E enqueue sender m) cs)"

definition Consensus_HandleRequest ::
  "('a, 'w, 'e) ctlEnv \<Rightarrow> u64 \<Rightarrow> bytes \<Rightarrow> ('a, 'w) Consensus \<Rightarrow> ('a, 'w) Consensus outcome" where
  "Consensus_HandleRequest E sender req cs = onController (HandleRequest E sender req) cs"

datatype submitResult =
    NoLeader
  | SubmitReturned "submitError option"

definition Consensus_SubmitRequest ::
  "('a, 'w, 'e) ctlEnv \<Rightarrow> bytes \<Rightarrow> ('a, 'w) Consensus \<Rightarrow> (submitResult \<times> ('a, 'w) Consensus) outcome" where
  "Consensus_SubmitRequest E req cs =
     andThen (Consensus_GetLeaderID E cs) (\<lambda>leader.
       if leader = 0 then Inr (NoLeader, cs)
       else andThen (SubmitRequest E req (cs_Controller cs)) (\<lambda>(err, c).
              Inr (SubmitReturned err, cs\<lparr>cs_Controller := c\<rparr>)))"

text \<open>The goroutine of \<open>run\<close> ends and marks the node as not running.\<close>

definition Consensus_Stop ::
  "('a, 'w, 'e) ctlEnv \<Rightarrow> viewChoice list \<Rightarrow> ('a, 'w) Consensus \<Rightarrow> ('a, 'w) Consensus outcome" where
  "Consensus_Stop E waits cs =
     andThen (ct_Stop E waits ((cs_Controller cs)\<lparr>ct_ViewChanger := ViewChanger_Stop (ct_ViewChanger (cs_Controller cs))\<rparr>))
       (\<lambda>c. Inr ((cs_close cs)\<lparr>cs_Controller := c\<lparr>ct_Collector := StateCollector_Stop (ct_Collector c)\<rparr>,
                               cs_running := False\<rparr>))"

text \<open>
  A turn of \<open>run\<close>: \<open>Some rc\<close> is a reconfiguration taken from \<open>reconfigChan\<close>, \<open>None\<close> the other case of the \<open>select\<close>, which
  is ready once \<open>stopChan\<close> is closed; the deferred function then stops the node.
\<close>

definition Consensus_run ::
  "('a, 'w, 'e) ctlEnv \<Rightarrow> viewChoice list \<Rightarrow> int \<Rightarrow> Reconfig option \<Rightarrow> ('a, 'w) Consensus \<Rightarrow> ('a, 'w) Consensus outcome" where
  "Consensus_run E waits now pending cs =
     (case pending of
        Some rc \<Rightarrow> reconfig E waits now rc cs
      | None \<Rightarrow> if cs_stopped cs then Consensus_Stop E waits (cs\<lparr>cs_running := False\<rparr>) else Inr cs)"

end
