(* ===== verification/ConsensusProperties.thy ===== *)
theory ConsensusProperties
  imports Consensus
begin

text \<open>
  Properties of a whole node: what \<open>Consensus.Start\<close> and \<open>Consensus.reconfig\<close> establish. After either, all components
  work on one cluster with one quorum, the first view is beyond everything the application has, and a reconfiguration
  loses no pending request.
\<close>

subsection \<open>The pool while views stop and start\<close>

lemma viewCall_pool: "viewCall E e c = Inr c' \<Longrightarrow> ct_RequestPool c' = ct_RequestPool c"
  by (cases e)
    (auto simp: viewCall_def BroadcastConsensus_def ct_save_def ct_Sync_def ct_Complain_def ctEmit_def Let_def
      grabSyncToken_def closeBatcher_def andThen_eq_Inr_iff split: if_split_asm)

lemma viewCalls_pool: "viewCalls E effs c = Inr c' \<Longrightarrow> ct_RequestPool c' = ct_RequestPool c"
proof (induction effs arbitrary: c)
  case (Cons e effs)
  then show ?case using viewCall_pool by (fastforce simp: andThen_eq_Inr_iff)
qed simp

lemma viewMoves_pool: "viewMoves E chs c = Inr c' \<Longrightarrow> ct_RequestPool c' = ct_RequestPool c"
proof (induction chs arbitrary: c)
  case (Cons ch chs)
  obtain c1 where c1: "viewMove E ch c = Inr c1" "viewMoves E chs c1 = Inr c'"
    using Cons.prems by (auto simp: andThen_eq_Inr_iff)
  have "ct_RequestPool c1 = ct_RequestPool c"
    using c1(1) by (auto simp: viewMove_def andThen_eq_Inr_iff split: if_splits dest!: viewCalls_pool)
  then show ?case using Cons.IH [OF c1(2)] by simp
qed simp

lemma awaitRun_result:
  assumes "awaitRun E waits c = Inr c'"
  shows "ct_RequestPool c' = ct_RequestPool c" "ct_world c' = ct_world c" "ps_Entries (ct_State c') = ps_Entries (ct_State c)"
proof -
  obtain c1 where "c' = c \<or> viewMoves E waits (c\<lparr>ct_CurrView := view_stop (ct_CurrView c)\<rparr>) = Inr c1 \<and>
      (\<exists>v. c' = c1\<lparr>ct_CurrView := v, ct_running := False\<rparr>)"
    using assms by (auto simp: awaitRun_def runExit_def abortCurrView_def andThen_eq_Inr_iff split: if_split_asm)
  then show "ct_RequestPool c' = ct_RequestPool c" "ct_world c' = ct_world c" "ps_Entries (ct_State c') = ps_Entries (ct_State c)"
    using viewMoves_pool viewMoves_leaderKey [of E waits "c\<lparr>ct_CurrView := view_stop (ct_CurrView c)\<rparr>" c1]
      viewMoves_advances [of E waits "c\<lparr>ct_CurrView := view_stop (ct_CurrView c)\<rparr>" c1]
    by (fastforce simp: leaderKey_def advances_def ctIdentity_def)+
qed

lemma contents_timers [simp]:
  "contents (StopTimers rp) = contents rp" "contents (RestartTimers rp) = contents rp" "contents (ChangeOptions rp o1) = contents rp"
  by (simp_all add: contents_def StopTimers_def RestartTimers_def ChangeOptions_def case_prod_unfold comp_def)

lemma stopForReconfig_result:
  assumes "stopForReconfig E waits c = Inr c'"
  shows "contents (ct_RequestPool c') = contents (ct_RequestPool c)" "ct_world c' = ct_world c"
    "ps_Entries (ct_State c') = ps_Entries (ct_State c)"
proof -
  obtain c1 where r: "awaitRun (E\<lparr>ce_locked := True\<rparr>) waits (stopComponents (c\<lparr>ct_ViewChanger := ViewChanger_Stop (ct_ViewChanger c),
      ct_RequestPool := StopTimers (ct_RequestPool c)\<rparr>)) = Inr c1" "c' = c1\<lparr>ct_Collector := StateCollector_Stop (ct_Collector c1)\<rparr>"
    using assms by (auto simp: stopForReconfig_def StopWithPoolPause_def andThen_eq_Inr_iff)
  show "contents (ct_RequestPool c') = contents (ct_RequestPool c)" "ct_world c' = ct_world c"
    "ps_Entries (ct_State c') = ps_Entries (ct_State c)"
    using awaitRun_result [OF r(1)]
    by (simp_all add: r(2) stopComponents_def relinquishLeaderToken_def ctEmit_def closeBatcher_def ct_close_def)
qed

subsection \<open>Starting the components\<close>

lemma Restore_cluster:
  assumes "Restore C ps v = Inr (ps', v', err)"
  shows "v_N v' = v_N v \<and> v_NodesList v' = v_NodesList v"
  using assms
  by (auto simp: Restore_def recoverProposed_def recoverPrepared_def andThen_def Let_def
      split: sum.split_asm option.split_asm SavedMessage.split_asm if_split_asm)

lemma catchUp_reaches: "seq \<le> v_ProposalSequence (catchUp v seq n d) \<and> n \<le> v_Number (catchUp v seq n d) \<and>
    v_N (catchUp v seq n d) = v_N v \<and> v_NodesList (catchUp v seq n d) = v_NodesList v"
  by (auto simp: catchUp_def Let_def)

lemma NewProposer_cluster:
  assumes "NewProposer C ps pm leader seq n d q = Inr (v, ps', pm')"
  shows "v_N v = pm_N pm \<and> v_NodesList v = pm_NodesList pm \<and> seq \<le> v_ProposalSequence v \<and> n \<le> v_Number v \<and>
    pm_N pm' = pm_N pm \<and> pm_NodesList pm' = pm_NodesList pm"
proof (cases "pm_restored pm")
  case True
  then show ?thesis
    using assms catchUp_reaches [of seq "bareView pm leader seq n d q" n d] by (auto simp: NewProposer_def Let_def bareView_def)
next
  case False
  obtain ps1 v1 where r: "Restore C ps (bareView pm leader seq n d q) = Inr (ps1, v1, None)" "v = catchUp v1 seq n d"
    "pm_N pm' = pm_N pm" "pm_NodesList pm' = pm_NodesList pm"
    using assms False by (auto simp: NewProposer_def Let_def andThen_eq_Inr_iff split: option.split_asm)
  show ?thesis using Restore_cluster [OF r(1)] catchUp_reaches [of seq v1 n d] r(2-4) by (simp add: bareView_def)
qed

lemma startView_fields:
  assumes "startView E seq c = Inr c'"
  shows "ct_RequestPool c' = ct_RequestPool c" "ct_ViewChanger c' = ct_ViewChanger c" "ct_Collector c' = ct_Collector c"
    "ct_world c' = ct_world c" "v_Quorum (ct_CurrView c') = ct_quorum c" "v_N (ct_CurrView c') = pm_N (ct_ProposerBuilder c)"
    "v_NodesList (ct_CurrView c') = pm_NodesList (ct_ProposerBuilder c)" "seq \<le> v_ProposalSequence (ct_CurrView c')"
    "pm_N (ct_ProposerBuilder c') = pm_N (ct_ProposerBuilder c)"
    "pm_NodesList (ct_ProposerBuilder c') = pm_NodesList (ct_ProposerBuilder c)"
proof -
  obtain leader v ps pm where r: "NewProposer (ce_codec E) (ct_State c) (ct_ProposerBuilder c) leader seq
      (ct_currViewNumber c) (ct_currDecisionsInView c) (ct_quorum c) = Inr (v, ps, pm)"
    "ct_CurrView c' = View_Start (ce_metricsFile E) v" "ct_ProposerBuilder c' = pm"
    and f: "ct_RequestPool c' = ct_RequestPool c" "ct_ViewChanger c' = ct_ViewChanger c" "ct_Collector c' = ct_Collector c"
      "ct_world c' = ct_world c"
    using assms by (fastforce simp: startView_def Let_def andThen_eq_Inr_iff ctEmit_def acquireLeaderToken_def)
  show "ct_RequestPool c' = ct_RequestPool c" "ct_ViewChanger c' = ct_ViewChanger c" "ct_Collector c' = ct_Collector c"
    "ct_world c' = ct_world c" by (fact f)+
  note n = NewProposer_cluster [OF r(1)] NewProposer_view [OF r(1)]
  show "v_Quorum (ct_CurrView c') = ct_quorum c" "v_N (ct_CurrView c') = pm_N (ct_ProposerBuilder c)"
    "v_NodesList (ct_CurrView c') = pm_NodesList (ct_ProposerBuilder c)" "seq \<le> v_ProposalSequence (ct_CurrView c')"
    "pm_N (ct_ProposerBuilder c') = pm_N (ct_ProposerBuilder c)"
    "pm_NodesList (ct_ProposerBuilder c') = pm_NodesList (ct_ProposerBuilder c)"
    using n by (simp_all add: r(2,3) View_Start_def setupVotes_def Let_def)
qed

text \<open>All components of a node work on the cluster \<open>nodes\<close>, sorted, with its size and its quorum.\<close>

definition onCluster :: "u64 list \<Rightarrow> ('a, 'w) Consensus \<Rightarrow> bool" where
  "onCluster nodes cs \<longleftrightarrow>
     (let c = cs_Controller cs; n = of_nat (length nodes); q = fst (computeQuorum n) in
      nodesList (cs_membership cs) = sort nodes \<and> numberOfNodes (cs_membership cs) = n \<and>
      ct_NodesList c = sort nodes \<and> ct_N c = n \<and> ct_quorum c = q \<and>
      v_NodesList (ct_CurrView c) = sort nodes \<and> v_N (ct_CurrView c) = n \<and> v_Quorum (ct_CurrView c) = q \<and>
      vc_NodesList (ct_ViewChanger c) = sort nodes \<and> vc_N (ct_ViewChanger c) = n \<and> vc_quorum (ct_ViewChanger c) = q \<and>
      sc_N (ct_Collector c) = n \<and> sc_quorum (ct_Collector c) = q \<and> hm_numberOfNodes (cs_LeaderMonitor cs) = n)"

lemma startView_identity: "startView E seq c = Inr c' \<Longrightarrow> ctIdentity c' = ctIdentity c"
  using startView_advances by (auto simp: advances_def)

lemma startComponents_cluster:
  assumes "startComponents E config now events numbers restore False (createComponents config m w ps pool) = Inr c'"
  shows "ct_NodesList c' = nodesList m" "ct_N c' = numberOfNodes m" "ct_quorum c' = fst (computeQuorum (numberOfNodes m))"
    "v_NodesList (ct_CurrView c') = nodesList m" "v_N (ct_CurrView c') = numberOfNodes m"
    "v_Quorum (ct_CurrView c') = fst (computeQuorum (numberOfNodes m))"
    "vc_NodesList (ct_ViewChanger c') = nodesList m" "vc_N (ct_ViewChanger c') = numberOfNodes m"
    "vc_quorum (ct_ViewChanger c') = fst (computeQuorum (numberOfNodes m))"
    "sc_N (ct_Collector c') = numberOfNodes m" "sc_quorum (ct_Collector c') = fst (computeQuorum (numberOfNodes m))"
    "ct_RequestPool c' = pool" "ct_world c' = w"
proof -
  obtain view seq dec where n: "numbers = (view, seq, dec)" by (cases numbers)
  obtain p c3 where r: "startView E (seq + 1) (startChannels E p ((createComponents config m w ps pool)\<lparr>
        ct_Collector := StateCollector_Start (createCollector config m),
        ct_ViewChanger := ViewChanger_Start view now ((createViewChanger config m)\<lparr>vc_Restore := restore\<rparr>)\<rparr>)
        \<lparr>ct_currViewNumber := view, ct_currDecisionsInView := dec\<rparr>) = Inr c3"
    "c' = c3\<lparr>ct_client_requests := Processor_Start (ct_client_requests c3), ct_running := True\<rparr>"
    using assms by (auto simp: startComponents_def n createComponents_def andThen_eq_Inr_iff elim!: ct_Start_parts)
  note f = startView_fields [OF r(1)] startView_identity [OF r(1)]
  show "ct_NodesList c' = nodesList m" "ct_N c' = numberOfNodes m" "ct_quorum c' = fst (computeQuorum (numberOfNodes m))"
    "v_NodesList (ct_CurrView c') = nodesList m" "v_N (ct_CurrView c') = numberOfNodes m"
    "v_Quorum (ct_CurrView c') = fst (computeQuorum (numberOfNodes m))"
    "vc_NodesList (ct_ViewChanger c') = nodesList m" "vc_N (ct_ViewChanger c') = numberOfNodes m"
    "vc_quorum (ct_ViewChanger c') = fst (computeQuorum (numberOfNodes m))"
    "sc_N (ct_Collector c') = numberOfNodes m" "sc_quorum (ct_Collector c') = fst (computeQuorum (numberOfNodes m))"
    "ct_RequestPool c' = pool" "ct_world c' = w"
    using f by (simp_all add: r(2) startChannels_def createComponents_def ctIdentity_def createCollector_def
        createViewChanger_def proposalMaker_def ViewChanger_Start_def StateCollector_Start_def vc_setupVotes_def Let_def)
qed

lemma ct_Start_reaches:
  assumes "ct_Start E events n seq d doSync c = Inr c'"
  shows "seq \<le> v_ProposalSequence (ct_CurrView c')"
proof -
  obtain p view sq dec c2 c3 where r: "(if doSync then syncOnStart E events n seq d (startChannels E p c)
      else Inr ((n, seq, d), startChannels E p c)) = Inr ((view, sq, dec), c2)"
    "startView E sq (c2\<lparr>ct_currViewNumber := view, ct_currDecisionsInView := dec\<rparr>) = Inr c3"
    "c' = c3\<lparr>ct_client_requests := Processor_Start (ct_client_requests c3), ct_running := True\<rparr>"
    using assms by (rule ct_Start_parts)
  have "seq \<le> sq" using r(1) by (auto simp: syncOnStart_def andThen_eq_Inr_iff Let_def split: if_split_asm)
  also have "sq \<le> v_ProposalSequence (ct_CurrView c')" using startView_fields [OF r(2)] by (simp add: r(3))
  finally show ?thesis .
qed

lemma setViewAndSeq_reaches:
  assumes "setViewAndSeq C ps view seq dec = Inr ((view', seq', dec'), restore)"
  shows "seq' = seq \<or> seq < seq' \<and> (\<exists>vs. LoadNewViewIfApplicable C ps = Inr (Some vs) \<and> seq' = vs_Seq vs)"
  using assms
  by (auto simp: setViewAndSeq_def Let_def split: sum.split_asm option.split_asm if_split_asm prod.split_asm)

lemma next_sequence: "seq \<le> (s :: u64) \<Longrightarrow> s \<noteq> - 1 \<Longrightarrow> seq < s + 1"
  using unat_plus_one [of s] by (simp add: word_less_nat_alt word_le_nat_alt)

subsection \<open>An example\<close>

text \<open>Node 2 of a cluster of four; the application has decided nothing yet and the log is empty.\<close>

definition exampleConfig :: Configuration where
  "exampleConfig = DefaultConfig\<lparr>SelfID := 2, IncomingMessageBufferSize := 10, RequestPoolSize := 10\<rparr>"

definition exampleNode :: "bytes list \<Rightarrow> (unit, unit) Consensus" where
  "exampleNode log = \<lparr>cs_Config = exampleConfig,
     cs_membership = \<lparr>numberOfNodes = 0, nodesList = [], nodeMap = []\<rparr>, cs_WALInitialContent = log, cs_WAL = (), cs_app = (),
     cs_Metadata = emptyViewMetadata,
     cs_LastProposal = \<lparr>Payload = [], Header = [], Metadata = None, VerificationSequence = 0\<rparr>, cs_LastSignatures = [],
     cs_Controller = exampleController, cs_LeaderMonitor = createMonitor exampleConfig \<lparr>numberOfNodes = 0, nodesList = [], nodeMap = []\<rparr>,
     cs_stopped = False, cs_running = False\<rparr>"

text \<open>The cluster grows from four to five nodes.\<close>

definition exampleReconfig :: Reconfig where
  "exampleReconfig = \<lparr>InLatestDecision = True, rc_CurrentNodes = [5, 4, 3, 2, 1], rc_CurrentConfig = exampleConfig\<rparr>"

definition startedNode :: "(unit, unit) Consensus" where
  "startedNode = snd (okState (Consensus_Start exampleCtlEnv [1, 2, 3, 4] 0 [] (exampleNode [])) (None, exampleNode []))"

subsection \<open>Properties\<close>

text \<open>
  C17: a reconfiguration that the node survives moves the whole node: membership, controller, view, view changer, collector
  and heartbeat monitor work on the new cluster with its size and quorum. The pending requests, the checkpoint and the
  state of the application are those from before. A node that is not in the new cluster stops.
\<close>

theorem reconfig_moves_whole_node:
  assumes "reconfig E waits now rc cs = Inr cs'"
  shows "(SelfID (cs_Config cs) \<notin> set (rc_CurrentNodes rc) \<longrightarrow> cs_stopped cs') \<and>
    (SelfID (cs_Config cs) \<in> set (rc_CurrentNodes rc) \<and> \<not> cs_stopped cs' \<longrightarrow>
       cs_Config cs' = rc_CurrentConfig rc \<and> onCluster (rc_CurrentNodes rc) cs' \<and>
       ct_world (cs_Controller cs') = ct_world (cs_Controller cs)) \<and>
    contents (ct_RequestPool (cs_Controller cs')) = contents (ct_RequestPool (cs_Controller cs))"
proof -
  obtain c1 where st: "stopForReconfig E waits (cs_Controller cs) = Inr c1"
    and re: "(let cs1 = cs\<lparr>cs_Controller := c1\<rparr>; cs2 = cs1\<lparr>cs_Config := rc_CurrentConfig rc\<rparr> in
       if SelfID (cs_Config cs1) \<notin> set (rc_CurrentNodes rc) then Inr (cs_close cs1)
       else case ValidateConfiguration (rc_CurrentConfig rc) (rc_CurrentNodes rc) of
         Some err \<Rightarrow> if err = ''nodes does not contain the SelfID'' then Inr (cs_close cs2)
           else Inl (Panic ''Configuration is invalid'')
       | None \<Rightarrow> restartComponents E now rc cs2) = Inr cs'"
    using assms unfolding reconfig_def by (rule andThenE)
  consider "cs_stopped cs'" "cs_Controller cs' = c1" | "SelfID (cs_Config cs) \<in> set (rc_CurrentNodes rc)"
    "restartComponents E now rc (cs\<lparr>cs_Controller := c1, cs_Config := rc_CurrentConfig rc\<rparr>) = Inr cs'"
    using re by (auto simp: Let_def cs_close_def split: if_split_asm option.split_asm)
  then show ?thesis
  proof cases
    case 1
    then show ?thesis using stopForReconfig_result [OF st] by simp
  next
    case 2
    define m where "m = setNodes (cs_membership cs) (rc_CurrentNodes rc)"
    obtain c2 numbers restore where r: "startComponents E (rc_CurrentConfig rc) now [] numbers restore False
        (createComponents (rc_CurrentConfig rc) m (ct_world c1) (ct_State c1)
          (ChangeOptions (ct_RequestPool c1) (poolOptions (rc_CurrentConfig rc) 0))) = Inr c2"
      "cs_Controller cs' = c2\<lparr>ct_RequestPool := RestartTimers (ct_RequestPool c2)\<rparr>" "cs_membership cs' = m"
      "cs_LeaderMonitor cs' = createMonitor (rc_CurrentConfig rc) m" "cs_Config cs' = rc_CurrentConfig rc"
      using 2(2) by (auto simp: restartComponents_def Let_def m_def andThen_eq_Inr_iff split: option.split_asm)
    show ?thesis
      using startComponents_cluster [OF r(1)] stopForReconfig_result [OF st] 2(1)
      by (simp add: r(2-5) onCluster_def Let_def m_def setNodes_def sortNodes_def createMonitor_def NewHeartbeatMonitor_def)
  qed
qed

theorem reconfig_moves_whole_node_witness:
  "\<exists>cs'. reconfig exampleCtlEnv [ChAbort] 5 exampleReconfig startedNode = Inr cs' \<and> onCluster [5, 4, 3, 2, 1] cs' \<and>
     ct_NodesList (cs_Controller cs') = [1, 2, 3, 4, 5]"
proof -
  have "case reconfig exampleCtlEnv [ChAbort] 5 exampleReconfig startedNode of Inl _ \<Rightarrow> False | Inr cs' \<Rightarrow> \<not> cs_stopped cs'"
    by code_simp
  then obtain cs' where r: "reconfig exampleCtlEnv [ChAbort] 5 exampleReconfig startedNode = Inr cs'" "\<not> cs_stopped cs'"
    by (auto split: sum.splits)
  moreover have "SelfID (cs_Config startedNode) \<in> set (rc_CurrentNodes exampleReconfig)" by code_simp
  ultimately have "onCluster [5, 4, 3, 2, 1] cs'"
    using reconfig_moves_whole_node [OF r(1)] by (simp add: exampleReconfig_def)
  moreover from this have "ct_NodesList (cs_Controller cs') = sort [5, 4, 3, 2, 1]" by (simp only: onCluster_def Let_def)
  moreover have "sort [5, 4, 3, 2, 1 :: u64] = [1, 2, 3, 4, 5]" by code_simp
  ultimately show ?thesis using r(1) by (intro exI [of _ cs']) simp
qed

text \<open>
  C18: a node that starts without an error runs, and its first view decides beyond the last decision of the application,
  whatever the log holds and whether or not it synchronizes first, unless the sequence numbers are exhausted. Without a
  synchronization all its components work on the cluster of the communication layer.
\<close>

theorem start_begins_after_last_decision:
  assumes "Consensus_Start E nodes now events cs = Inr (None, cs')" "LatestSequence (cs_Metadata cs) \<noteq> - 1"
    and "\<And>vs. LoadNewViewIfApplicable (ce_codec E) \<lparr>ps_InFlightProposal = None, ps_Entries = cs_WALInitialContent cs,
           ps_WAL = cs_WAL cs\<rparr> = Inr (Some vs) \<Longrightarrow> vs_Seq vs \<noteq> - 1"
  shows "cs_running cs' \<and> LatestSequence (cs_Metadata cs) < v_ProposalSequence (ct_CurrView (cs_Controller cs')) \<and>
    (\<not> SyncOnStart (cs_Config cs) \<longrightarrow> onCluster nodes cs')"
proof -
  let ?ps = "\<lparr>ps_InFlightProposal = None, ps_Entries = cs_WALInitialContent cs, ps_WAL = cs_WAL cs\<rparr>"
  define m where "m = setNodes (cs_membership cs) nodes"
  obtain w pool view seq dec restore c1 where r:
    "setViewAndSeq (ce_codec E) ?ps (ViewId (cs_Metadata cs)) (LatestSequence (cs_Metadata cs))
       (DecisionsInView (cs_Metadata cs)) = Inr ((view, seq, dec), restore)"
    "startComponents E (cs_Config cs) now events (view, seq, dec) restore True
       (createComponents (cs_Config cs) m w ?ps pool) = Inr c1"
    "cs' = cs\<lparr>cs_membership := m, cs_Controller := c1, cs_LeaderMonitor := createMonitor (cs_Config cs) m,
       cs_stopped := False, cs_running := True\<rparr>"
    using assms(1) by (auto simp: Consensus_Start_def Let_def m_def andThen_eq_Inr_iff split: option.split_asm)
  have "LatestSequence (cs_Metadata cs) \<le> seq" "seq \<noteq> - 1"
    using setViewAndSeq_reaches [OF r(1)] assms(2,3) by auto
  then have "LatestSequence (cs_Metadata cs) < seq + 1" by (rule next_sequence)
  also have "\<dots> \<le> v_ProposalSequence (ct_CurrView c1)"
    using r(2) unfolding startComponents_def by (auto simp: andThen_eq_Inr_iff dest: ct_Start_reaches)
  finally have beyond: "LatestSequence (cs_Metadata cs) < v_ProposalSequence (ct_CurrView c1)" .
  have "onCluster nodes cs'" if "\<not> SyncOnStart (cs_Config cs)"
  proof -
    have "startComponents E (cs_Config cs) now events (view, seq, dec) restore False
       (createComponents (cs_Config cs) m w ?ps pool) = Inr c1"
      using r(2) that by (simp add: startComponents_def)
    from startComponents_cluster [OF this] show ?thesis
      by (simp add: r(3) onCluster_def Let_def m_def setNodes_def sortNodes_def createMonitor_def NewHeartbeatMonitor_def)
  qed
  then show ?thesis using beyond by (simp add: r(3))
qed

theorem start_begins_after_last_decision_witness:
  "\<exists>cs'. Consensus_Start exampleCtlEnv [1, 2, 3, 4] 0 [] (exampleNode []) = Inr (None, cs') \<and>
     0 < v_ProposalSequence (ct_CurrView (cs_Controller cs')) \<and> onCluster [1, 2, 3, 4] cs'"
proof -
  have "case Consensus_Start exampleCtlEnv [1, 2, 3, 4] 0 [] (exampleNode []) of Inl _ \<Rightarrow> False | Inr (err, _) \<Rightarrow> err = None"
    by code_simp
  then obtain cs' where r: "Consensus_Start exampleCtlEnv [1, 2, 3, 4] 0 [] (exampleNode []) = Inr (None, cs')"
    by (auto split: sum.splits)
  have "\<not> SyncOnStart (cs_Config (exampleNode []))" "LatestSequence (cs_Metadata (exampleNode [])) = 0" by code_simp+
  then show ?thesis
    using start_begins_after_last_decision [OF r] r by (auto simp: exampleNode_def LoadNewViewIfApplicable_def)
qed

subsection \<open>What a reconfiguration can run into\<close>

text \<open>
  A reconfiguration creates a new \<open>ProposalMaker\<close>, so the view is restored from the log once more, from the content the
  log had when the process started. Node 2 starts with proposal 1 in its log, decides it, and is
  reconfigured by it: the new view decides sequence 2 in phase \<open>PROPOSED\<close> with proposal 1 in flight, the one it has just delivered.
\<close>

definition reconfiguringCtlEnv :: "(unit, unit, unit) ctlEnv" where
  "reconfiguringCtlEnv = exampleCtlEnv\<lparr>ce_codec := recoveryCodec,
     ce_application := exampleApplication\<lparr>app_Deliver := (\<lambda>a p sigs. (a, exampleReconfig))\<rparr>\<rparr>"

definition decideAndReconfigure :: "(unit, unit) Consensus \<Rightarrow> (unit, unit) Consensus outcome" where
  "decideAndReconfigure cs =
     andThen (viewMoves reconfiguringCtlEnv (drop 4 (exampleChoices 1 3)) (cs_Controller cs)) (\<lambda>c1.
     andThen (case ct_decision c1 of None \<Rightarrow> Inr c1 | Some d \<Rightarrow> ct_decide reconfiguringCtlEnv False [] d c1) (\<lambda>c2.
       reconfig reconfiguringCtlEnv [ChAbort] 5 exampleReconfig (cs\<lparr>cs_Controller := c2\<rparr>)))"

lemma reconfig_restores_delivered_proposal:
  "case Consensus_Start reconfiguringCtlEnv [1, 2, 3, 4] 0 [] (exampleNode [[1]]) of Inl _ \<Rightarrow> False
   | Inr (err, cs) \<Rightarrow> (case decideAndReconfigure cs of Inl _ \<Rightarrow> False
     | Inr cs' \<Rightarrow> ckp_proposal (w_Checkpoint (ct_world (cs_Controller cs'))) = exampleProposal \<and>
         v_ProposalSequence (ct_CurrView (cs_Controller cs')) = 2 \<and> v_Phase (ct_CurrView (cs_Controller cs')) = PROPOSED \<and>
         v_inFlightProposal (ct_CurrView (cs_Controller cs')) = Some exampleProposal)"
  by code_simp

text \<open>
  \<open>reconfig\<close> holds \<open>consensusLock\<close> while it waits for the controller, the controller for the view, and a view whose proposal
  is rejected calls \<open>Complain\<close>, which takes that lock: none of them goes on. Here the verifier rejects proposal 1, and the
  proposal was in the channel of the view when the reconfiguration began.
\<close>

definition rejectingCtlEnv :: "(unit, unit, unit) ctlEnv" where
  "rejectingCtlEnv = exampleCtlEnv\<lparr>ce_services := (exampleServices 2)\<lparr>api_VerifyProposal := \<lambda>_ _. None\<rparr>\<rparr>"

lemma reconfig_deadlocks_with_complaint:
  "case viewMoves rejectingCtlEnv (take 3 (exampleChoices 1 3)) startedController of Inl _ \<Rightarrow> False
   | Inr c \<Rightarrow> (case stopForReconfig rejectingCtlEnv [ChPrePrepare] c of
       Inl e \<Rightarrow> e = Blocked ''consensusLock'' | Inr _ \<Rightarrow> False)"
  by code_simp

end
