(* ===== verification/Scheduler.thy ===== *)
theory Scheduler
  imports Prelude "HOL-Library.Multiset"
begin

text \<open>
  The task scheduler of internal/bft/sched.go: a binary heap of tasks ordered by deadline, the goroutine that
  hands due tasks to an executor with a channel of capacity one, and the executor.

  Times are nanoseconds. A task is a heap object, \<open>t_addr\<close> is its address: the caller of \<open>Schedule\<close> keeps it and may
  call \<open>Stop\<close>, whose atomic flag is the list \<open>s_stopTasks\<close> of stopped addresses. The heap algorithms are those of the
  standard library's \<open>container/heap\<close>. The interface of the queue is the locale \<open>priority_queue\<close>: the scheduler's
  lemmas rest on its laws only.
\<close>

record Task =
  t_addr :: nat
  Deadline :: int

subsection \<open>The heap\<close>

definition heapLess :: "Task list \<Rightarrow> nat \<Rightarrow> nat \<Rightarrow> bool" where
  "heapLess h i j \<longleftrightarrow> Deadline (h ! i) < Deadline (h ! j)"

definition heapSwap :: "Task list \<Rightarrow> nat \<Rightarrow> nat \<Rightarrow> Task list" where
  "heapSwap h i j = h[i := h ! j, j := h ! i]"

definition heapPush :: "Task list \<Rightarrow> Task \<Rightarrow> Task list" where
  "heapPush h t = h @ [t]"

definition heapPop :: "Task list \<Rightarrow> Task \<times> Task list" where
  "heapPop h = (let n = length h in (h ! (n - 1), take (n - 1) h))"

text \<open>\<open>up\<close> and \<open>down\<close> of \<open>container/heap\<close>.\<close>

function heapUp :: "Task list \<Rightarrow> nat \<Rightarrow> Task list" where
  "heapUp h j =
     (let i = (j - 1) div 2 in
      if i = j \<or> \<not> heapLess h j i then h else heapUp (heapSwap h i j) i)"
  by pat_completeness auto
termination by (relation "measure snd") auto

function heapDown :: "Task list \<Rightarrow> nat \<Rightarrow> nat \<Rightarrow> Task list" where
  "heapDown h i n =
     (let j1 = 2 * i + 1 in
      if j1 \<ge> n then h
      else let j2 = j1 + 1; j = (if j2 < n \<and> heapLess h j2 j1 then j2 else j1) in
        if \<not> heapLess h j i then h else heapDown (heapSwap h i j) j n)"
  by pat_completeness auto
termination by (relation "measure (\<lambda>(h, i, n). n - i)") auto

declare heapUp.simps [simp del] heapDown.simps [simp del]

subsection \<open>The task queue\<close>

definition NewTaskQueue :: "Task list" where
  "NewTaskQueue = []"

definition Enqueue :: "Task list \<Rightarrow> Task \<Rightarrow> Task list" where
  "Enqueue q t = (let h = heapPush q t in heapUp h (length h - 1))"

text \<open>\<open>None\<close> is the nil task of an empty queue.\<close>

definition DeQueue :: "Task list \<Rightarrow> (Task \<times> Task list) option" where
  "DeQueue q =
     (if length q = 0 then None
      else let n = length q - 1 in Some (heapPop (heapDown (heapSwap q 0 n) 0 n)))"

definition Top :: "Task list \<Rightarrow> Task option" where
  "Top q = (if length q = 0 then None else Some (q ! 0))"

definition Queue_Size :: "Task list \<Rightarrow> nat" where
  "Queue_Size q = length q"

subsection \<open>The scheduler and its executor\<close>

datatype schedPc =
    SchedNew
  | SchedWait      \<comment> \<open>\<open>waitForFirstTick\<close>\<close>
  | SchedLoop      \<comment> \<open>the \<open>select\<close> of \<open>run\<close>\<close>
  | SchedTick      \<comment> \<open>the loop of \<open>tick\<close>\<close>
  | SchedEnded

datatype execPc =
    ExecNew
  | ExecIdle           \<comment> \<open>the \<open>select\<close> of the executor\<close>
  | ExecTaken Task     \<comment> \<open>took a function from the channel\<close>
  | ExecRunning Task   \<comment> \<open>runs the function of the task\<close>
  | ExecSignal         \<comment> \<open>sends on \<open>signalChan\<close>\<close>
  | ExecEnded

record Scheduler =
  s_currentTime :: int
  s_queue :: "Task list"
  s_execQueue :: "Task list"
  s_stopTasks :: "nat list"
  s_nextAddr :: nat
  s_stopped :: bool
  s_pc :: schedPc
  s_exec :: execPc

definition NewScheduler :: Scheduler where
  "NewScheduler = \<lparr>s_currentTime = 0, s_queue = NewTaskQueue, s_execQueue = [], s_stopTasks = [], s_nextAddr = 0,
     s_stopped = False, s_pc = SchedNew, s_exec = ExecNew\<rparr>"

definition Scheduler_Start :: "Scheduler \<Rightarrow> Scheduler" where
  "Scheduler_Start s = (if s_pc s = SchedNew then s\<lparr>s_pc := SchedWait, s_exec := ExecIdle\<rparr> else s)"

definition Scheduler_Stop :: "Scheduler \<Rightarrow> Scheduler" where
  "Scheduler_Stop s = s\<lparr>s_stopped := True\<rparr>"

text \<open>Only a task that \<open>Schedule\<close> has returned can be stopped.\<close>

definition Task_Stop :: "nat \<Rightarrow> Scheduler \<Rightarrow> Scheduler" where
  "Task_Stop a s = (if a < s_nextAddr s then s\<lparr>s_stopTasks := a # s_stopTasks s\<rparr> else s)"

definition isStopped :: "Scheduler \<Rightarrow> Task \<Rightarrow> bool" where
  "isStopped s t \<longleftrightarrow> t_addr t \<in> set (s_stopTasks s)"

record cmd =
  cmd_timeout :: int
  cmd_t :: Task

text \<open>A caller of \<open>Schedule\<close> creates the task; \<open>run\<close> takes the command and sets the deadline.\<close>

definition Schedule :: "int \<Rightarrow> Scheduler \<Rightarrow> cmd \<times> Scheduler" where
  "Schedule timeout s =
     (\<lparr>cmd_timeout = timeout, cmd_t = \<lparr>t_addr = s_nextAddr s, Deadline = 0\<rparr>\<rparr>, s\<lparr>s_nextAddr := Suc (s_nextAddr s)\<rparr>)"

definition takeCmd :: "cmd \<Rightarrow> Scheduler \<Rightarrow> Scheduler" where
  "takeCmd c s =
     (let task = (cmd_t c)\<lparr>Deadline := s_currentTime s + cmd_timeout c\<rparr> in s\<lparr>s_queue := Enqueue (s_queue s) task\<rparr>)"

text \<open>The capacity of the channel of the executor is one.\<close>

definition checkAndExecute :: "Scheduler \<Rightarrow> bool \<times> Scheduler" where
  "checkAndExecute s =
     (if Queue_Size (s_queue s) = 0 then (False, s)
      else if (case Top (s_queue s) of None \<Rightarrow> True | Some t \<Rightarrow> Deadline t > s_currentTime s) then (False, s)
      else case DeQueue (s_queue s) of
             None \<Rightarrow> (False, s)
           | Some (task, q) \<Rightarrow>
               if length (s_execQueue s) < 1
               then (True, s\<lparr>s_queue := q, s_execQueue := s_execQueue s @ [task]\<rparr>)
               else (False, s\<lparr>s_queue := Enqueue q task\<rparr>))"

datatype schedEvent =
    EvStart
  | EvStop
  | EvStopTask nat
  | EvTime int        \<comment> \<open>\<open>timeChan\<close> is taken\<close>
  | EvStopChan        \<comment> \<open>the scheduler takes \<open>stopChan\<close>\<close>
  | EvSchedule int    \<comment> \<open>\<open>cmdChan\<close> is taken\<close>
  | EvSignal          \<comment> \<open>\<open>signalChan\<close> is passed\<close>
  | EvCheck           \<comment> \<open>a round of \<open>tick\<close>\<close>
  | EvExecTake        \<comment> \<open>the executor takes a function\<close>
  | EvExecBegin       \<comment> \<open>and runs it unless its task is stopped\<close>
  | EvExecReturn      \<comment> \<open>the function of the task returns\<close>
  | EvExecStop        \<comment> \<open>the executor takes \<open>stopChan\<close>\<close>

datatype schedEffect =
    TaskRun Task
  | TaskSkipped Task

text \<open>An event whose channel is not ready changes nothing.\<close>

definition waitForFirstTick :: "schedEvent \<Rightarrow> Scheduler \<Rightarrow> Scheduler" where
  "waitForFirstTick ev s =
     (case ev of
        EvTime now \<Rightarrow> s\<lparr>s_currentTime := now, s_pc := SchedLoop\<rparr>
      | EvStopChan \<Rightarrow> if s_stopped s then s\<lparr>s_pc := SchedLoop\<rparr> else s
      | _ \<Rightarrow> s)"

text \<open>A round of the loop of \<open>tick\<close>; the executor may take the task before the next one.\<close>

definition sched_tick :: "Scheduler \<Rightarrow> Scheduler" where
  "sched_tick s =
     (case checkAndExecute s of (executedSomeTask, s1) \<Rightarrow> if executedSomeTask then s1 else s1\<lparr>s_pc := SchedLoop\<rparr>)"

definition schedTurn :: "schedEvent \<Rightarrow> Scheduler \<Rightarrow> Scheduler" where
  "schedTurn ev s =
     (if s_pc s = SchedWait then waitForFirstTick ev s
      else if s_pc s = SchedTick then (if ev = EvCheck then sched_tick s else s)
      else if s_pc s = SchedLoop then
        (case ev of
           EvStopChan \<Rightarrow> if s_stopped s then s\<lparr>s_pc := SchedEnded\<rparr> else s
         | EvTime now \<Rightarrow> if s_currentTime s > now then s else s\<lparr>s_currentTime := now, s_pc := SchedTick\<rparr>
         | EvSignal \<Rightarrow> if s_exec s = ExecSignal then s\<lparr>s_exec := ExecIdle, s_pc := SchedTick\<rparr> else s
         | EvSchedule timeout \<Rightarrow> (case Schedule timeout s of (c, s1) \<Rightarrow> takeCmd c s1)
         | _ \<Rightarrow> s)
      else s)"

text \<open>
  The executor: a stopped task is dropped without a signal; after a task that ran, the executor waits until the
  scheduler takes the signal or \<open>stopChan\<close> is closed.
\<close>

definition execTask :: "Task \<Rightarrow> Scheduler \<Rightarrow> Scheduler \<times> schedEffect list" where
  "execTask task s =
     (if isStopped s task then (s\<lparr>s_exec := ExecIdle\<rparr>, [TaskSkipped task])
      else (s\<lparr>s_exec := ExecRunning task\<rparr>, [TaskRun task]))"

definition execTurn :: "schedEvent \<Rightarrow> Scheduler \<Rightarrow> Scheduler \<times> schedEffect list" where
  "execTurn ev s =
     (case ev of
        EvExecTake \<Rightarrow>
          (case s_execQueue s of
             t # rest \<Rightarrow> if s_exec s = ExecIdle then (s\<lparr>s_exec := ExecTaken t, s_execQueue := rest\<rparr>, []) else (s, [])
           | [] \<Rightarrow> (s, []))
      | EvExecBegin \<Rightarrow>
          (case s_exec s of
             ExecTaken t \<Rightarrow> execTask t s
           | _ \<Rightarrow> (s, []))
      | EvExecReturn \<Rightarrow>
          (case s_exec s of ExecRunning t \<Rightarrow> (s\<lparr>s_exec := ExecSignal\<rparr>, []) | _ \<Rightarrow> (s, []))
      | EvExecStop \<Rightarrow>
          (if \<not> s_stopped s then (s, [])
           else if s_exec s = ExecIdle then (s\<lparr>s_exec := ExecEnded\<rparr>, [])
           else if s_exec s = ExecSignal then (s\<lparr>s_exec := ExecIdle\<rparr>, []) else (s, []))
      | _ \<Rightarrow> (s, []))"

definition schedStep :: "Scheduler \<Rightarrow> schedEvent \<Rightarrow> Scheduler \<times> schedEffect list" where
  "schedStep s ev =
     (case ev of
        EvStart \<Rightarrow> (Scheduler_Start s, [])
      | EvStop \<Rightarrow> (Scheduler_Stop s, [])
      | EvStopTask a \<Rightarrow> (Task_Stop a s, [])
      | EvTime now \<Rightarrow> (schedTurn ev s, [])
      | EvStopChan \<Rightarrow> (schedTurn ev s, [])
      | EvSchedule timeout \<Rightarrow> (schedTurn ev s, [])
      | EvSignal \<Rightarrow> (schedTurn ev s, [])
      | EvCheck \<Rightarrow> (schedTurn ev s, [])
      | _ \<Rightarrow> execTurn ev s)"

fun schedRun :: "Scheduler \<Rightarrow> schedEvent list \<Rightarrow> Scheduler \<times> schedEffect list" where
  "schedRun s [] = (s, [])"
| "schedRun s (ev # evs) =
     (case schedStep s ev of (s1, es) \<Rightarrow> case schedRun s1 evs of (s2, es') \<Rightarrow> (s2, es @ es'))"

subsection \<open>The heap keeps its tasks in order\<close>

definition parent :: "nat \<Rightarrow> nat" where
  "parent i = (i - 1) div 2"

lemma parent_less [simp]: "0 < i \<Longrightarrow> parent i < i"
  by (auto simp: parent_def)

lemma parent_bound: "0 < i \<Longrightarrow> i < n \<Longrightarrow> parent i < n"
  using parent_less less_trans by blast

lemma parent_zero [simp]: "parent 0 = 0"
  by (simp add: parent_def)

lemma parent_child [simp]: "parent (2 * i + 1) = i" "parent (Suc (2 * i)) = i" "parent (Suc (Suc (2 * i))) = i"
  by (auto simp: parent_def)

lemma parent_cases: "0 < k \<Longrightarrow> parent k = i \<Longrightarrow> k = 2 * i + 1 \<or> k = 2 * i + 2"
  unfolding parent_def by presburger

definition heapOn :: "nat \<Rightarrow> Task list \<Rightarrow> bool" where
  "heapOn n h \<longleftrightarrow> (\<forall>i<n. 0 < i \<longrightarrow> Deadline (h ! parent i) \<le> Deadline (h ! i))"

abbreviation heapInv :: "Task list \<Rightarrow> bool" where
  "heapInv h \<equiv> heapOn (length h) h"

lemma heapSwap_simps [simp]:
  "length (heapSwap h i j) = length h"
  "i < length h \<Longrightarrow> j < length h \<Longrightarrow> mset (heapSwap h i j) = mset h"
  by (simp_all add: heapSwap_def mset_swap)

lemma heapSwap_nth:
  assumes "i < length h" "j < length h"
  shows "heapSwap h i j ! k = (if k = i then h ! j else if k = j then h ! i else h ! k)"
  using assms by (auto simp: heapSwap_def nth_list_update)

lemma heapOn_root:
  assumes "heapOn n h" "i < n"
  shows "Deadline (h ! 0) \<le> Deadline (h ! i)"
  using assms(2)
proof (induction i rule: less_induct)
  case (less i)
  show ?case
  proof (cases "i = 0")
    case False
    then have "Deadline (h ! 0) \<le> Deadline (h ! parent i)" using less by (metis less_trans neq0_conv parent_less)
    also have "\<dots> \<le> Deadline (h ! i)" using assms(1) less.prems False by (simp add: heapOn_def)
    finally show ?thesis .
  qed simp
qed

text \<open>While a task moves up from \<open>j\<close>, only \<open>j\<close> and its parent may be out of order.\<close>

definition risingAt :: "nat \<Rightarrow> Task list \<Rightarrow> bool" where
  "risingAt j h \<longleftrightarrow>
     (\<forall>i<length h. 0 < i \<and> i \<noteq> j \<longrightarrow> Deadline (h ! parent i) \<le> Deadline (h ! i)) \<and>
     (\<forall>i<length h. 0 < i \<and> parent i = j \<and> 0 < j \<longrightarrow> Deadline (h ! parent j) \<le> Deadline (h ! i))"

lemma risingAt_swap:
  assumes "risingAt j h" "j < length h" "0 < j" "heapLess h j (parent j)"
  shows "risingAt (parent j) (heapSwap h (parent j) j)"
proof -
  let ?i = "parent j" and ?h = "heapSwap h (parent j) j"
  have i: "?i < j" "?i < length h" using assms(2,3) parent_bound by auto
  have nth: "?h ! k = (if k = ?i then h ! j else if k = j then h ! ?i else h ! k)" for k
    using i(2) assms(2) by (rule heapSwap_nth)
  have less: "Deadline (h ! j) < Deadline (h ! ?i)" using assms(4) by (simp add: heapLess_def)
  have ord: "\<And>k. k < length h \<Longrightarrow> 0 < k \<Longrightarrow> k \<noteq> j \<Longrightarrow> Deadline (h ! parent k) \<le> Deadline (h ! k)"
    and below: "\<And>k. k < length h \<Longrightarrow> 0 < k \<Longrightarrow> parent k = j \<Longrightarrow> Deadline (h ! ?i) \<le> Deadline (h ! k)"
    using assms(1,3) by (auto simp: risingAt_def)
  have "Deadline (?h ! parent k) \<le> Deadline (?h ! k)" if k: "k < length h" "0 < k" "k \<noteq> ?i" for k
  proof (cases "k = j")
    case True
    then show ?thesis using less i by (simp add: nth)
  next
    case False
    then show ?thesis using ord [OF k(1,2)] below [OF k(1,2)] less k(3) i(1) by (auto simp: nth)
  qed
  moreover have "Deadline (?h ! parent ?i) \<le> Deadline (?h ! k)" if k: "k < length h" "0 < k" "parent k = ?i" "0 < ?i" for k
  proof -
    have "parent ?i < ?i" "?i < k" using k(2-4) parent_less [of k] parent_less [of ?i] by auto
    then show ?thesis using ord [OF i(2) k(4)] ord [OF k(1,2)] i(1) k(3) by (auto simp: nth)
  qed
  ultimately show ?thesis by (simp add: risingAt_def)
qed

lemma heapUp_heap:
  assumes "risingAt j h" "j < length h"
  shows "heapInv (heapUp h j) \<and> mset (heapUp h j) = mset h"
  using assms
proof (induction h j rule: heapUp.induct)
  case (1 h j)
  show ?case
  proof (cases "parent j = j \<or> \<not> heapLess h j (parent j)")
    case True
    then have up: "heapUp h j = h" by (auto simp: heapUp.simps [of h j] Let_def parent_def)
    have "j = 0 \<or> Deadline (h ! parent j) \<le> Deadline (h ! j)"
      using True parent_less [of j] by (auto simp: heapLess_def)
    then show ?thesis using 1(2) unfolding up by (auto simp: risingAt_def heapOn_def)
  next
    case False
    then have j: "0 < j" "heapLess h j (parent j)" by (auto intro: gr0I)
    have up: "heapUp h j = heapUp (heapSwap h (parent j) j) (parent j)"
      using False by (subst heapUp.simps) (auto simp: Let_def parent_def)
    have len: "parent j < length h" using 1(3) j(1) parent_bound by blast
    show ?thesis
      unfolding up using 1(1) [of "parent j"] False risingAt_swap [OF 1(2,3) j] len 1(3)
      by (simp add: parent_def)
  qed
qed

text \<open>While a task moves down from \<open>i\<close>, only \<open>i\<close> and its children may be out of order.\<close>

definition sinkingAt :: "nat \<Rightarrow> nat \<Rightarrow> Task list \<Rightarrow> bool" where
  "sinkingAt n i h \<longleftrightarrow>
     (\<forall>k<n. 0 < k \<and> parent k \<noteq> i \<longrightarrow> Deadline (h ! parent k) \<le> Deadline (h ! k)) \<and>
     (\<forall>k<n. 0 < k \<and> parent k = i \<and> 0 < i \<longrightarrow> Deadline (h ! parent i) \<le> Deadline (h ! k))"

lemma sinkingAt_swap:
  assumes "sinkingAt n i h" "n \<le> length h" "j < n" "0 < j" "parent j = i"
    and "heapLess h j i" "\<And>k. k < n \<Longrightarrow> 0 < k \<Longrightarrow> parent k = i \<Longrightarrow> Deadline (h ! j) \<le> Deadline (h ! k)"
  shows "sinkingAt n j (heapSwap h i j)"
proof -
  let ?h = "heapSwap h i j"
  have i: "i < j" using assms(4,5) parent_less by blast
  have nth: "?h ! k = (if k = i then h ! j else if k = j then h ! i else h ! k)" for k
    using i assms(2,3) by (intro heapSwap_nth) auto
  have less: "Deadline (h ! j) < Deadline (h ! i)" using assms(6) by (simp add: heapLess_def)
  have ord: "\<And>k. k < n \<Longrightarrow> 0 < k \<Longrightarrow> parent k \<noteq> i \<Longrightarrow> Deadline (h ! parent k) \<le> Deadline (h ! k)"
    and above: "\<And>k. k < n \<Longrightarrow> 0 < k \<Longrightarrow> parent k = i \<Longrightarrow> 0 < i \<Longrightarrow> Deadline (h ! parent i) \<le> Deadline (h ! k)"
    using assms(1) by (auto simp: sinkingAt_def)
  have "Deadline (?h ! parent k) \<le> Deadline (?h ! k)" if k: "k < n" "0 < k" "parent k \<noteq> j" for k
  proof -
    have "parent k < k" using k(2) by simp
    consider "k = i" | "k = j" | "k \<noteq> i" "k \<noteq> j" by blast
    then show ?thesis
    proof cases
      case 1
      then have "Deadline (h ! parent i) \<le> Deadline (h ! j)" using above [OF assms(3-5)] k(2) by simp
      then show ?thesis using 1 \<open>parent k < k\<close> k(3) by (auto simp: nth)
    next
      case 2
      then show ?thesis using less assms(5) i by (auto simp: nth)
    next
      case 3
      then show ?thesis using ord [OF k(1,2)] assms(7) [OF k(1,2)] k(3) by (auto simp: nth)
    qed
  qed
  moreover have "Deadline (?h ! parent j) \<le> Deadline (?h ! k)" if k: "k < n" "0 < k" "parent k = j" for k
  proof -
    have "j < k" using k(2,3) parent_less by blast
    then show ?thesis using ord [OF k(1,2)] k(3) i assms(5) by (auto simp: nth)
  qed
  ultimately show ?thesis by (simp add: sinkingAt_def)
qed

lemma heapDown_heap:
  assumes "sinkingAt n i h" "n \<le> length h"
  shows "heapOn n (heapDown h i n) \<and> mset (heapDown h i n) = mset h \<and> (\<forall>k\<ge>n. heapDown h i n ! k = h ! k)"
  using assms
proof (induction h i n rule: heapDown.induct)
  case (1 h i n)
  define j where "j = (if 2 * i + 2 < n \<and> heapLess h (2 * i + 2) (2 * i + 1) then 2 * i + 2 else 2 * i + 1)"
  have down: "heapDown h i n = (if 2 * i + 1 \<ge> n \<or> \<not> heapLess h j i then h else heapDown (heapSwap h i j) j n)"
    by (subst heapDown.simps) (auto simp: Let_def j_def)
  have least: "Deadline (h ! j) \<le> Deadline (h ! k)" if "k < n" "0 < k" "parent k = i" for k
    using parent_cases [OF that(2,3)] that(1) by (auto simp: j_def heapLess_def)
  show ?case
  proof (cases "2 * i + 1 \<ge> n \<or> \<not> heapLess h j i")
    case True
    have "Deadline (h ! parent k) \<le> Deadline (h ! k)" if k: "k < n" "0 < k" for k
    proof (cases "parent k = i")
      case p: True
      then have "\<not> 2 * i + 1 \<ge> n" using parent_cases [OF k(2)] k(1) by fastforce
      then show ?thesis using True least [OF k p] p by (simp add: heapLess_def)
    next
      case False
      then show ?thesis using 1(2) k by (simp add: sinkingAt_def)
    qed
    then show ?thesis using True unfolding down by (simp add: heapOn_def)
  next
    case False
    have j: "j < n" "0 < j" "parent j = i" "i < j" using False by (auto simp: j_def)
    have s: "sinkingAt n j (heapSwap h i j)"
      using False by (intro sinkingAt_swap [OF 1(2,3) j(1-3)] least) auto
    have ij: "i < length h" "j < length h" using j 1(3) by auto
    have IH: "heapOn n (heapDown (heapSwap h i j) j n) \<and> mset (heapDown (heapSwap h i j) j n) = mset (heapSwap h i j) \<and>
        (\<forall>k\<ge>n. heapDown (heapSwap h i j) j n ! k = heapSwap h i j ! k)"
      using False s 1(3) by (intro 1(1)) (auto simp: j_def)
    have "heapSwap h i j ! k = h ! k" if "n \<le> k" for k using that j by (subst heapSwap_nth [OF ij]) auto
    then show ?thesis using IH False ij unfolding down by simp
  qed
qed

subsection \<open>The contract of a priority queue\<close>

locale priority_queue =
  fixes empty :: 'q
    and enqueue :: "'q \<Rightarrow> 'a \<Rightarrow> 'q"
    and dequeue :: "'q \<Rightarrow> ('a \<times> 'q) option"
    and top :: "'q \<Rightarrow> 'a option"
    and items :: "'q \<Rightarrow> 'a multiset"
    and key :: "'a \<Rightarrow> int"
    and ok :: "'q \<Rightarrow> bool"
  assumes ok_empty: "ok empty" "items empty = {#}"
    and ok_enqueue: "ok q \<Longrightarrow> ok (enqueue q x)"
    and items_enqueue: "ok q \<Longrightarrow> items (enqueue q x) = add_mset x (items q)"
    and dequeue_None: "ok q \<Longrightarrow> dequeue q = None \<longleftrightarrow> items q = {#}"
    and dequeue_Some: "ok q \<Longrightarrow> dequeue q = Some (x, q') \<Longrightarrow> ok q' \<and> items q = add_mset x (items q')"
    and dequeue_least: "ok q \<Longrightarrow> dequeue q = Some (x, q') \<Longrightarrow> y \<in># items q \<Longrightarrow> key x \<le> key y"
    and top_dequeue: "ok q \<Longrightarrow> top q = map_option fst (dequeue q)"
begin

lemma requeue:
  assumes "ok q" "dequeue q = Some (x, q')"
  shows "ok (enqueue q' x) \<and> items (enqueue q' x) = items q"
  using assms dequeue_Some ok_enqueue items_enqueue by metis

lemma dequeue_sorted:
  assumes "ok q" "dequeue q = Some (x, q1)" "dequeue q1 = Some (y, q2)"
  shows "key x \<le> key y"
proof -
  have "ok q1" "items q = add_mset x (items q1)" using dequeue_Some [OF assms(1,2)] by auto
  moreover have "y \<in># items q1" using dequeue_Some [OF \<open>ok q1\<close> assms(3)] by auto
  ultimately show ?thesis by (intro dequeue_least [OF assms(1,2)]) simp
qed

lemma due_top:
  assumes "ok q" "y \<in># items q" "key y \<le> now"
  shows "\<exists>x q'. top q = Some x \<and> dequeue q = Some (x, q') \<and> key x \<le> now"
proof -
  have "dequeue q \<noteq> None" using dequeue_None [OF assms(1)] assms(2) by auto
  then obtain x q' where d: "dequeue q = Some (x, q')" by auto
  then show ?thesis using top_dequeue [OF assms(1)] dequeue_least [OF assms(1) d assms(2)] assms(3) by auto
qed

end

lemma Enqueue_heap:
  assumes "heapInv q"
  shows "heapInv (Enqueue q t) \<and> mset (Enqueue q t) = add_mset t (mset q)"
proof -
  have par: "i < length q \<Longrightarrow> 0 < i \<Longrightarrow> parent i < length q" for i using parent_bound by blast
  have no_child: "parent i \<noteq> length q" if "i < Suc (length q)" "0 < i" for i using parent_less [OF that(2)] that(1) by linarith
  have "Deadline ((q @ [t]) ! parent i) \<le> Deadline ((q @ [t]) ! i)" if "i < length (q @ [t])" "0 < i \<and> i \<noteq> length q" for i
    using that assms par [of i] by (auto simp: heapOn_def nth_append)
  then have "risingAt (length q) (q @ [t])"
    using no_child unfolding risingAt_def by (metis length_append_singleton)
  then show ?thesis
    using heapUp_heap [of "length q" "q @ [t]"] by (simp add: Enqueue_def heapPush_def)
qed

lemma DeQueue_heap:
  assumes "heapInv q" "q \<noteq> []"
  shows "\<exists>q'. DeQueue q = Some (q ! 0, q') \<and> heapInv q' \<and> mset q = add_mset (q ! 0) (mset q')"
proof -
  define n where "n = length q - 1"
  have n: "length q = Suc n" using assms(2) by (simp add: n_def)
  define h where "h = heapDown (heapSwap q 0 n) 0 n"
  have nth: "heapSwap q 0 n ! k = (if k = 0 then q ! n else if k = n then q ! 0 else q ! k)" for k
    using n by (intro heapSwap_nth) auto
  have par: "k < n \<Longrightarrow> 0 < k \<Longrightarrow> parent k < n" for k using parent_bound by blast
  have "sinkingAt n 0 (heapSwap q 0 n)"
    using assms(1) n par by (fastforce simp: sinkingAt_def heapOn_def nth)
  then have h: "heapOn n h" "mset h = mset (heapSwap q 0 n)" "h ! n = heapSwap q 0 n ! n"
    using heapDown_heap [of n 0 "heapSwap q 0 n"] n by (auto simp: h_def)
  have len: "length h = Suc n" using h(2) n by (metis heapSwap_simps(1) size_mset)
  have split: "h = take n h @ [h ! n]" using len by (metis lessI take_Suc_conv_app_nth take_all_iff order_refl)
  have top: "h ! n = q ! 0" using h(3) by (simp add: nth)
  have "DeQueue q = Some (q ! 0, take n h)"
    using assms(2) len top by (simp add: DeQueue_def heapPop_def Let_def n_def h_def)
  moreover have "heapInv (take n h)"
    using h(1) len par by (simp add: heapOn_def min_absorb2)
  moreover have "mset q = add_mset (q ! 0) (mset (take n h))"
    using h(2) n arg_cong [OF split, of mset] by (simp add: top)
  ultimately show ?thesis by blast
qed

interpretation tq: priority_queue NewTaskQueue Enqueue DeQueue Top mset Deadline heapInv
proof
  fix q :: "Task list" and x y q'
  show "heapInv NewTaskQueue" "mset NewTaskQueue = {#}" by (simp_all add: NewTaskQueue_def heapOn_def)
  assume q: "heapInv q"
  show "heapInv (Enqueue q x)" "mset (Enqueue q x) = add_mset x (mset q)" using Enqueue_heap [OF q] by auto
  show "DeQueue q = None \<longleftrightarrow> mset q = {#}" using DeQueue_heap [OF q] by (cases "q = []") (auto simp: DeQueue_def)
  show "Top q = map_option fst (DeQueue q)" using DeQueue_heap [OF q] by (cases "q = []") (auto simp: DeQueue_def Top_def)
  assume d: "DeQueue q = Some (x, q')"
  then have ne: "q \<noteq> []" by (auto simp: DeQueue_def)
  show "heapInv q' \<and> mset q = add_mset x (mset q')" using DeQueue_heap [OF q ne] d by auto
  assume "y \<in># mset q"
  then obtain i where "i < length q" "q ! i = y" by (auto simp: in_set_conv_nth)
  then show "Deadline x \<le> Deadline y" using heapOn_root [OF q] DeQueue_heap [OF q ne] d by auto
qed

subsection \<open>Every task is accounted for\<close>

fun effectTask :: "schedEffect \<Rightarrow> Task" where
  "effectTask (TaskRun t) = t"
| "effectTask (TaskSkipped t) = t"

fun tasksRun :: "schedEffect list \<Rightarrow> Task list" where
  "tasksRun [] = []"
| "tasksRun (TaskRun t # es) = t # tasksRun es"
| "tasksRun (TaskSkipped t # es) = tasksRun es"

fun taken :: "execPc \<Rightarrow> Task list" where
  "taken (ExecTaken t) = [t]"
| "taken _ = []"

text \<open>The tasks that left the queue, and where they are.\<close>

definition handedOver :: "Scheduler \<Rightarrow> schedEffect list \<Rightarrow> Task list" where
  "handedOver s effs = s_execQueue s @ taken (s_exec s) @ map effectTask effs"

definition sched_inv :: "schedEffect list \<Rightarrow> Scheduler \<Rightarrow> bool" where
  "sched_inv effs s \<longleftrightarrow> heapInv (s_queue s) \<and>
     image_mset t_addr (mset (s_queue s) + mset (handedOver s effs)) = mset [0..<s_nextAddr s] \<and>
     (\<forall>t\<in>set (handedOver s effs). Deadline t \<le> s_currentTime s) \<and>
     (s_pc s \<in> {SchedNew, SchedWait} \<longrightarrow> s_nextAddr s = 0)"

lemma tasksRun_append [simp]: "tasksRun (xs @ ys) = tasksRun xs @ tasksRun ys"
  by (induction xs rule: tasksRun.induct) auto

lemma tasksRun_effects: "mset (tasksRun es) \<subseteq># mset (map effectTask es)"
proof (induction es rule: tasksRun.induct)
  case (3 t es)
  also have "mset (map effectTask es) \<subseteq># mset (map effectTask (TaskSkipped t # es))" by simp
  finally show ?case by simp
qed auto

lemma distinct_submultiset:
  assumes "mset xs \<subseteq># mset ys" "distinct ys"
  shows "distinct xs"
proof -
  have "count (mset xs) a \<le> 1" for a
    using mset_subset_eq_count [OF assms(1), of a] assms(2) by (auto simp: distinct_count_atmost_1 intro: order_trans)
  then show ?thesis
    by (auto simp: distinct_count_atmost_1 count_eq_zero_iff) (metis One_nat_def Suc_leI count_greater_zero_iff le_antisym set_mset_mset)
qed

lemma sched_inv_cong:
  assumes "sched_inv effs s" "s_queue s' = s_queue s" "s_nextAddr s' = s_nextAddr s" "s_currentTime s \<le> s_currentTime s'"
    and "mset (handedOver s' effs') = mset (handedOver s effs)" "s_pc s' \<in> {SchedNew, SchedWait} \<Longrightarrow> s_pc s \<in> {SchedNew, SchedWait}"
  shows "sched_inv effs' s'"
  using assms mset_eq_setD [OF assms(5)] by (fastforce simp: sched_inv_def)

lemma sched_inv_new: "sched_inv [] NewScheduler"
  using tq.ok_empty by (simp add: sched_inv_def NewScheduler_def handedOver_def)

lemma takeCmd_inv:
  assumes "sched_inv effs s" "Schedule timeout s = (c, s1)" "s_pc s = SchedLoop"
  shows "sched_inv effs (takeCmd c s1)"
  using assms tq.ok_enqueue [of "s_queue s"] tq.items_enqueue [of "s_queue s"]
  by (auto simp: sched_inv_def takeCmd_def Schedule_def handedOver_def Let_def atLeast0_lessThan_Suc)

lemma checkAndExecute_inv:
  assumes "sched_inv effs s"
  shows "sched_inv effs (snd (checkAndExecute s))"
proof (cases "DeQueue (s_queue s)")
  case None
  then show ?thesis using assms by (simp add: checkAndExecute_def)
next
  case (Some r)
  obtain task q where r: "r = (task, q)" by (cases r)
  have q: "heapInv (s_queue s)" using assms by (simp add: sched_inv_def)
  note d = Some [unfolded r]
  have "Top (s_queue s) = Some task" using tq.top_dequeue [OF q] d by simp
  then have "checkAndExecute s = (if Queue_Size (s_queue s) = 0 \<or> Deadline task > s_currentTime s then (False, s)
      else if length (s_execQueue s) < 1 then (True, s\<lparr>s_queue := q, s_execQueue := s_execQueue s @ [task]\<rparr>)
      else (False, s\<lparr>s_queue := Enqueue q task\<rparr>))"
    by (simp add: checkAndExecute_def d)
  then consider "snd (checkAndExecute s) = s"
    | "Deadline task \<le> s_currentTime s" "snd (checkAndExecute s) = s\<lparr>s_queue := q, s_execQueue := s_execQueue s @ [task]\<rparr>"
    | "snd (checkAndExecute s) = s\<lparr>s_queue := Enqueue q task\<rparr>"
    by (fastforce split: if_splits)
  then show ?thesis
  proof cases
    case 1
    then show ?thesis using assms by simp
  next
    case 2
    then show ?thesis using assms tq.dequeue_Some [OF q d] by (auto simp: sched_inv_def handedOver_def)
  next
    case 3
    then show ?thesis using assms tq.requeue [OF q d] by (auto simp: sched_inv_def handedOver_def)
  qed
qed

lemma schedTurn_inv:
  assumes "sched_inv effs s"
  shows "sched_inv effs (schedTurn ev s)"
proof -
  consider "s_pc s = SchedWait" | "s_pc s = SchedTick" | "s_pc s = SchedLoop" | "schedTurn ev s = s"
    by (cases "s_pc s") (simp_all add: schedTurn_def)
  then show ?thesis
  proof cases
    case 1
    then have "s_queue s = []" "handedOver s effs = []" using assms by (auto simp: sched_inv_def)
    then show ?thesis
      using 1 assms by (auto simp: schedTurn_def waitForFirstTick_def sched_inv_def handedOver_def split: schedEvent.split)
  next
    case 2
    have "sched_inv effs (sched_tick s)"
      using checkAndExecute_inv [OF assms]
      by (auto simp: sched_tick_def split: prod.split intro: sched_inv_cong simp: handedOver_def)
    then show ?thesis using 2 assms by (simp add: schedTurn_def)
  next
    case 3
    then show ?thesis
    proof (cases "\<exists>timeout. ev = EvSchedule timeout")
      case True
      then show ?thesis using 3 takeCmd_inv [OF assms] by (auto simp: schedTurn_def split: prod.split)
    next
      case False
      then show ?thesis
        using 3 assms by (cases ev) (auto simp: schedTurn_def handedOver_def intro!: sched_inv_cong [OF assms])
    qed
  next
    case 4
    then show ?thesis using assms by simp
  qed
qed

lemma execTurn_inv:
  assumes "sched_inv effs s" "execTurn ev s = (s', es)"
  shows "sched_inv (effs @ es) s'"
proof -
  have "mset (handedOver s' (effs @ es)) = mset (handedOver s effs) \<and> s_queue s' = s_queue s \<and> s_nextAddr s' = s_nextAddr s \<and>
      s_currentTime s' = s_currentTime s \<and> s_pc s' = s_pc s"
    using assms(2) by (cases ev; cases "s_exec s")
      (auto simp: execTurn_def execTask_def handedOver_def split: list.split_asm if_split_asm)
  then show ?thesis by (intro sched_inv_cong [OF assms(1)]) auto
qed

lemma schedStep_inv:
  assumes "sched_inv effs s" "schedStep s ev = (s', es)"
  shows "sched_inv (effs @ es) s'"
proof -
  have "taken (s_exec s) = []" if "s_pc s = SchedNew" using assms(1) that by (auto simp: sched_inv_def handedOver_def)
  then have "sched_inv effs (Scheduler_Start s)"
    by (intro sched_inv_cong [OF assms(1)]) (auto simp: Scheduler_Start_def handedOver_def split: if_splits)
  moreover have "sched_inv effs (Scheduler_Stop s)" "\<And>a. sched_inv effs (Task_Stop a s)"
    by (auto simp: Scheduler_Stop_def Task_Stop_def handedOver_def assms(1) intro!: sched_inv_cong [OF assms(1)])
  moreover note assms(2) schedTurn_inv [OF assms(1)] execTurn_inv [OF assms(1)]
  ultimately show ?thesis by (cases ev) (auto simp: schedStep_def)
qed

lemma schedRun_inv:
  "sched_inv effs s \<Longrightarrow> schedRun s evs = (s', es) \<Longrightarrow> sched_inv (effs @ es) s'"
proof (induction evs arbitrary: s effs es)
  case (Cons ev evs)
  obtain s1 e1 where 1: "schedStep s ev = (s1, e1)" by (cases "schedStep s ev")
  obtain e2 where 2: "schedRun s1 evs = (s', e2)" "es = e1 @ e2"
    using Cons.prems(2) 1 by (auto split: prod.split_asm)
  show ?case using Cons.IH [OF schedStep_inv [OF Cons.prems(1) 1] 2(1)] 2(2) by simp
qed simp

lemma schedRun_append:
  "schedRun s (xs @ ys) = (case schedRun s xs of (s1, es) \<Rightarrow> case schedRun s1 ys of (s2, es') \<Rightarrow> (s2, es @ es'))"
  by (induction xs arbitrary: s) (auto split: prod.split)

subsection \<open>A stopped task does not run\<close>

lemma schedTurn_stopTasks [simp]: "s_stopTasks (schedTurn ev s) = s_stopTasks s"
  by (auto simp: schedTurn_def waitForFirstTick_def sched_tick_def checkAndExecute_def takeCmd_def Schedule_def Let_def
      split: schedEvent.split prod.splits option.splits if_splits)

lemma execTurn_stopTasks:
  assumes "execTurn ev s = (s', es)"
  shows "s_stopTasks s' = s_stopTasks s \<and> (\<forall>t\<in>set (tasksRun es). t_addr t \<notin> set (s_stopTasks s))"
  using assms by (cases ev; cases "s_exec s")
    (auto simp: execTurn_def execTask_def isStopped_def split: list.split_asm if_split_asm)

lemma schedStep_stopTasks:
  assumes "schedStep s ev = (s', es)" "a \<in> set (s_stopTasks s)"
  shows "a \<in> set (s_stopTasks s') \<and> a \<notin> t_addr ` set (tasksRun es)"
proof -
  have "s_stopTasks (Scheduler_Start s) = s_stopTasks s" "s_stopTasks (Scheduler_Stop s) = s_stopTasks s"
    "a \<in> set (s_stopTasks (Task_Stop b s))" for b
    using assms(2) by (auto simp: Scheduler_Start_def Scheduler_Stop_def Task_Stop_def)
  then show ?thesis
    using assms execTurn_stopTasks [of ev s s' es] by (cases ev) (auto simp: schedStep_def)
qed

lemma schedRun_stopTasks:
  "schedRun s evs = (s', es) \<Longrightarrow> a \<in> set (s_stopTasks s) \<Longrightarrow> a \<notin> t_addr ` set (tasksRun es)"
proof (induction evs arbitrary: s es)
  case (Cons ev evs)
  obtain s1 e1 where 1: "schedStep s ev = (s1, e1)" by (cases "schedStep s ev")
  obtain e2 where 2: "schedRun s1 evs = (s', e2)" "es = e1 @ e2"
    using Cons.prems(1) 1 by (auto split: prod.split_asm)
  then show ?case using Cons.IH [OF 2(1)] schedStep_stopTasks [OF 1 Cons.prems(2)] by auto
qed simp

lemma schedRun_after_stop:
  assumes "schedRun s (xs @ EvStopTask a # ys) = (s', es)" "schedRun s xs = (s1, e1)" "a < s_nextAddr s1"
    and "a \<notin> t_addr ` set (tasksRun e1)"
  shows "a \<notin> t_addr ` set (tasksRun es)"
proof -
  obtain s2 e2 where 2: "schedRun (Task_Stop a s1) ys = (s2, e2)" "es = e1 @ e2"
    using assms(1,2) by (auto simp: schedRun_append schedStep_def split: prod.split_asm)
  have "a \<in> set (s_stopTasks (Task_Stop a s1))" using assms(3) by (simp add: Task_Stop_def)
  from schedRun_stopTasks [OF 2(1) this] show ?thesis using assms(4) 2(2) by auto
qed

subsection \<open>Properties\<close>

text \<open>
  The earliest due task is handed over first: a round of \<open>tick\<close> with an idle channel of the executor takes a task
  whose deadline has passed whenever there is one, and none of the others is due before it.
\<close>

lemma due_task_handed_over:
  assumes "schedRun NewScheduler evs = (s, effs)" "s_pc s = SchedTick" "s_execQueue s = []"
    and "t \<in> set (s_queue s)" "Deadline t \<le> s_currentTime s"
  shows "\<exists>u. s_execQueue (schedTurn EvCheck s) = [u] \<and> u \<in> set (s_queue s) \<and> (\<forall>v\<in>set (s_queue s). Deadline u \<le> Deadline v)"
proof -
  have q: "heapInv (s_queue s)" using schedRun_inv [OF sched_inv_new assms(1)] by (simp add: sched_inv_def)
  obtain u q' where u: "Top (s_queue s) = Some u" "DeQueue (s_queue s) = Some (u, q')" "Deadline u \<le> s_currentTime s"
    using tq.due_top [OF q _ assms(5)] assms(4) by auto
  have "Queue_Size (s_queue s) \<noteq> 0" using assms(4) by (auto simp: Queue_Size_def)
  then have "s_execQueue (schedTurn EvCheck s) = [u]"
    using u assms(2,3) by (simp add: schedTurn_def sched_tick_def checkAndExecute_def)
  moreover have "u \<in># mset (s_queue s)" using tq.dequeue_Some [OF q u(2)] by simp
  moreover have "\<forall>v\<in>set (s_queue s). Deadline u \<le> Deadline v" using tq.dequeue_least [OF q u(2)] by simp
  ultimately show ?thesis by auto
qed

text \<open>
  C38: the task queue is a priority queue. On a heap, \<open>Enqueue\<close> and \<open>DeQueue\<close> keep it a heap and add and remove exactly one
  task, \<open>DeQueue\<close> returns a task with the least deadline, the one \<open>Top\<close> shows, and nothing only if the queue is empty.
\<close>

theorem task_queue_refines_priority_queue:
  assumes "heapInv q"
  shows "heapInv (Enqueue q t) \<and> mset (Enqueue q t) = add_mset t (mset q) \<and> Top q = map_option fst (DeQueue q) \<and>
    (case DeQueue q of None \<Rightarrow> q = []
     | Some (x, q') \<Rightarrow> heapInv q' \<and> mset q = add_mset x (mset q') \<and> (\<forall>y\<in>set q. Deadline x \<le> Deadline y))"
proof (cases "DeQueue q")
  case None
  then show ?thesis
    using tq.ok_enqueue [OF assms] tq.items_enqueue [OF assms] tq.top_dequeue [OF assms] tq.dequeue_None [OF assms] by simp
next
  case (Some r)
  then have "DeQueue q = Some (fst r, snd r)" by simp
  note d = tq.dequeue_Some [OF assms this] tq.dequeue_least [OF assms this]
  have "\<forall>y\<in>set q. Deadline (fst r) \<le> Deadline y" using d(2) by simp
  then show ?thesis
    using d(1) Some tq.ok_enqueue [OF assms] tq.items_enqueue [OF assms] tq.top_dequeue [OF assms] by (simp add: case_prod_unfold)
qed

definition exampleTasks :: "Task list" where
  "exampleTasks = map (\<lambda>(a, d). \<lparr>t_addr = a, Deadline = d\<rparr>) [(0, 3), (1, 4), (2, 5)]"

theorem task_queue_refines_priority_queue_witness:
  "heapInv exampleTasks \<and> mset (Enqueue exampleTasks \<lparr>t_addr = 3, Deadline = 1\<rparr>) =
     add_mset \<lparr>t_addr = 3, Deadline = 1\<rparr> (mset exampleTasks)"
proof -
  have "heapInv exampleTasks" by code_simp
  then show ?thesis using task_queue_refines_priority_queue [of exampleTasks "\<lparr>t_addr = 3, Deadline = 1\<rparr>"] by blast
qed

text \<open>
  C37: in every interleaving of the scheduler, its executor and its callers a task runs at most once, not before its deadline,
  and not after a call of \<open>Stop\<close> that came before it began; no task is lost: it waits in the queue or in the channel
  of the executor, or the executor has it, or it ran or was skipped.
\<close>

theorem tasks_run_once_when_due:
  assumes "schedRun NewScheduler evs = (s, effs)"
  shows "distinct (map t_addr (tasksRun effs)) \<and> (\<forall>t\<in>set (tasksRun effs). Deadline t \<le> s_currentTime s) \<and>
    t_addr ` (set (s_queue s) \<union> set (s_execQueue s) \<union> set (taken (s_exec s)) \<union> effectTask ` set effs) = {0..<s_nextAddr s} \<and>
    (\<forall>xs a ys s1 e1. evs = xs @ EvStopTask a # ys \<and> schedRun NewScheduler xs = (s1, e1) \<and> a < s_nextAddr s1 \<and>
       a \<notin> t_addr ` set (tasksRun e1) \<longrightarrow> a \<notin> t_addr ` set (tasksRun effs))"
proof -
  have inv: "sched_inv effs s" using schedRun_inv [OF sched_inv_new assms] by simp
  have addrs: "image_mset t_addr (mset (s_queue s) + mset (handedOver s effs)) = mset [0..<s_nextAddr s]"
    and due: "\<forall>t\<in>set (handedOver s effs). Deadline t \<le> s_currentTime s"
    using inv by (auto simp: sched_inv_def)
  have "mset (tasksRun effs) \<subseteq># mset (handedOver s effs)"
    using subset_mset.add_increasing [OF _ tasksRun_effects, of "mset (s_execQueue s) + mset (taken (s_exec s))" effs]
    by (simp add: handedOver_def add.assoc)
  then have sub: "mset (tasksRun effs) \<subseteq># mset (s_queue s) + mset (handedOver s effs)"
    by (auto intro: subset_mset.add_increasing)
  have "mset (map t_addr (tasksRun effs)) \<subseteq># mset [0..<s_nextAddr s]"
    using image_mset_subseteq_mono [OF sub, of t_addr] addrs by simp
  then have "distinct (map t_addr (tasksRun effs))"
    using distinct_upt by (rule distinct_submultiset)
  moreover have "\<forall>t\<in>set (tasksRun effs). Deadline t \<le> s_currentTime s"
    using due set_mset_mono [OF \<open>mset (tasksRun effs) \<subseteq># mset (handedOver s effs)\<close>] by auto
  moreover have "t_addr ` (set (s_queue s) \<union> set (s_execQueue s) \<union> set (taken (s_exec s)) \<union> effectTask ` set effs) = {0..<s_nextAddr s}"
    using arg_cong [OF addrs, of set_mset] by (simp add: handedOver_def image_Un Un_assoc)
  moreover have "a \<notin> t_addr ` set (tasksRun effs)" if "evs = xs @ EvStopTask a # ys \<and> schedRun NewScheduler xs = (s1, e1) \<and>
      a < s_nextAddr s1 \<and> a \<notin> t_addr ` set (tasksRun e1)" for xs a ys s1 e1
    using that assms schedRun_after_stop [of NewScheduler xs a ys s effs s1 e1] by simp
  ultimately show ?thesis by (intro conjI allI impI)
qed

definition exampleSchedule :: "schedEvent list" where
  "exampleSchedule = [EvStart, EvTime 10, EvSchedule 5, EvSchedule 2, EvStopTask 0, EvTime 20, EvCheck, EvExecTake, EvExecBegin,
     EvCheck, EvExecReturn, EvCheck, EvSignal, EvExecTake, EvExecBegin]"

theorem tasks_run_once_when_due_witness:
  "\<exists>s effs. schedRun NewScheduler exampleSchedule = (s, effs) \<and> map t_addr (tasksRun effs) = [1] \<and> 0 \<notin> t_addr ` set (tasksRun effs)"
proof -
  obtain s effs where r: "schedRun NewScheduler exampleSchedule = (s, effs)" by (cases "schedRun NewScheduler exampleSchedule")
  have "map t_addr (tasksRun (snd (schedRun NewScheduler exampleSchedule))) = [1]" by code_simp
  moreover obtain s1 e1 where x: "schedRun NewScheduler (take 4 exampleSchedule) = (s1, e1)"
    by (cases "schedRun NewScheduler (take 4 exampleSchedule)")
  moreover have "0 < s_nextAddr (fst (schedRun NewScheduler (take 4 exampleSchedule)))"
    "tasksRun (snd (schedRun NewScheduler (take 4 exampleSchedule))) = []" by code_simp+
  moreover have "exampleSchedule = take 4 exampleSchedule @ EvStopTask 0 # drop 5 exampleSchedule" by (simp add: exampleSchedule_def)
  ultimately show ?thesis using tasks_run_once_when_due [OF r] r by auto
qed

subsection \<open>A signal that is not sent\<close>

text \<open>
  A stopped task is dropped without a signal. If a due task was put back meanwhile because the channel of the executor was full, it
  stays in the queue although the executor is idle, until the time advances or another task has run.
\<close>

definition swallowedSignal :: "schedEvent list" where
  "swallowedSignal = [EvStart, EvTime 10, EvSchedule 1, EvSchedule 2, EvTime 20, EvCheck, EvCheck, EvStopTask 0, EvExecTake,
     EvExecBegin]"

lemma stopped_task_swallows_signal:
  "case schedRun NewScheduler swallowedSignal of (s, effs) \<Rightarrow>
     s_pc s = SchedLoop \<and> s_exec s = ExecIdle \<and> s_execQueue s = [] \<and> s_queue s = [\<lparr>t_addr = 1, Deadline = 12\<rparr>] \<and>
     s_currentTime s = 20"
  by code_simp

end
