(* ===== verification/Spec2Isabelle.thy ===== *)
theory Spec2Isabelle
  imports WalProperties CrossView ConsensusProperties Scheduler
begin

text \<open>
  Verification of SmartBFT, a Byzantine fault tolerant consensus library (Go sources under src/).

  \<^bold>\<open>The program.\<close> A node of a cluster of \<open>n\<close> nodes, at most \<open>f\<close> of them faulty, agrees with the others on a
  sequence of proposals. \<open>Consensus\<close> (pkg/consensus) validates the configuration, creates the components and replaces
  them when a decision changes the cluster. Requests of clients go through the queue of client requests into the request
  pool; the batcher takes batches from it; the leader proposes a batch through the current view. The view runs
  pre-prepare, prepare and commit for one sequence after the other, persists every message before it sends it,
  and hands a decision to the controller, which delivers it, prunes the pool and rotates the leader. The heartbeat
  monitor and the timers of the pool suspect a leader; the view changer then collects the votes and the view data of the others, decides
  what happens to the proposal in flight and installs the next view. A node that is behind synchronizes through the
  application, with the state collector asking the others for their view. Everything persisted goes through the write
  ahead log, from which a restarted node restores its view.

  \<^bold>\<open>Conventions.\<close> Theory \<open>Prelude\<close> holds the machine types (\<open>u64\<close> wraps around), the type \<open>outcome\<close> of operations that can
  panic or wait for ever, and shared lemmas. A struct is a record with a prefix per component, an operation is a function
  with the name of the Go function, with the component as prefix where names collide, and returns the
  changed record. A goroutine that waits in a \<open>select\<close> is a function of its state and of the case that is taken,
  so a theorem over all lists of choices covers every interleaving and every sequence of messages from other
  nodes; calls to other components are effects, in the order of the code. Errors are values. Logging and metrics are left
  out everywhere. What is not in the repository is a parameter: the protobuf and ASN.1 encodings and the hash (record
  \<open>codec\<close>), the verifier, signer, assembler and membership notifier (record \<open>services\<close> and the fields of \<open>ctlEnv\<close>), the
  application with its synchronizer (\<open>application\<close>), the request inspector, and the encoding of a log
  record (\<open>logCodec\<close>). The weighted semaphore of the pool (golang.org/x/sync, vendored) is modelled with its panic. Theorems that need something of them, such as a round trip, say so in a hypothesis and have a
  witness with a concrete instance.

  \<^bold>\<open>Theories.\<close>
  \<^item> \<open>Quorums\<close>: \<open>computeQuorum\<close> and \<open>getLeaderID\<close> of internal/bft/util.go. Any two quorums share a correct node and the correct
    nodes form a quorum (locale \<open>quorum_system\<close>); the leader with rotation is the first node that is not blacklisted.
  \<^item> \<open>Protos\<close>: messages, proposals, signatures, digests and the checkpoint (pkg/types, smartbftprotos).
  \<^item> \<open>Blacklist\<close>: \<open>computeUpdate\<close> and \<open>pruneBlacklist\<close>. The list has at most \<open>f\<close> entries, a leader is left, and a node is
    released exactly when enough others observed it.
  \<^item> \<open>VoteSets\<close>: \<open>voteSet\<close> and \<open>nextViews\<close>; the contract \<open>ballot_box\<close> counts each voter once and never blocks.
  \<^item> \<open>Config\<close>: \<open>Configuration.Validate\<close>, \<open>ValidateConfiguration\<close>, \<open>setNodes\<close>. A validated configuration gives a cluster.
  \<^item> \<open>RequestPool\<close>, \<open>Batching\<close>: internal/bft/requestpool.go and batcher.go, critical section by critical section. The pool refines a bounded
    FIFO queue without repetitions (\<open>queueSubmit\<close>, \<open>queueRemove\<close>, \<open>queueClose\<close>), no interleaving overfills it or makes it panic, and a batch is a bounded prefix (locale \<open>batch_source\<close>).
  \<^item> \<open>Heartbeat\<close>: internal/bft/heartbeatmonitor.go. A leader that is heard is not suspected, a timeout is
    reported once, and over any life of the monitor a leader synchronizes only if a correct node reported a newer view since its last change of role.
  \<^item> \<open>StateCollection\<close>: internal/bft/statecollector.go. What is collected was reported by a correct node; nothing blocks.
  \<^item> \<open>View\<close>: internal/bft/view.go, the whole goroutine as \<open>viewStep\<close>. \<open>ViewSafety\<close> has the invariant of every step,
    \<open>ViewHistory\<close> relates what is sent to what was persisted, \<open>Agreement\<close> has the results over runs: the certificate of every
    decision, persistence before sending, and that two correct nodes of a view never decide differently.
  \<^item> \<open>Proposing\<close>: \<open>GetMetadata\<close> and \<open>Propose\<close> against \<open>verifyProposal\<close>: a correct leader's proposal is accepted.
  \<^item> \<open>Persistence\<close>, \<open>Recovery\<close>: internal/bft/state.go, \<open>InFlightData\<close> and \<open>ProposalMaker\<close>. Reading the log back restores the crashed view,
    and the restored node keeps its votes. \<open>LogSpec\<close> is the contract of the log, the locale \<open>write_ahead_log\<close>.
  \<^item> \<open>Bytes\<close>, \<open>WalFormat\<close>, \<open>WriteAheadLog\<close>: pkg/wal. \<open>WalRuns\<close>, \<open>WalRecovery\<close> and \<open>WalProperties\<close> show that the entries since the last truncation
    point survive any number of crashes and a torn last record, and interpret \<open>write_ahead_log\<close> on it. A crash while the next file
    and its anchor are created is outside this: \<open>torn_anchor_not_repaired\<close> shows that it is not repaired.
  \<^item> \<open>InFlightCheck\<close>: \<open>CheckInFlight\<close> and the checks of view data (viewchanger.go): equal to a definition over
    the messages alone, and a proposal that may have been decided is never dropped.
  \<^item> \<open>Delivery\<close>: \<open>MutuallyExclusiveDeliver\<close>, \<open>Consensus.Deliver\<close> and \<open>Consensus.Sync\<close>: the application sees increasing sequences.
  \<^item> \<open>ViewChange\<close>: internal/bft/viewchanger.go, with its in-flight view. \<open>ViewChangeSafety\<close>, \<open>ViewChangeRuns\<close> and \<open>ViewChangeProperties\<close>: a view is
    announced only after the view data of a quorum and after it was saved, the view numbers never decrease, the validation loop ends.
  \<^item> \<open>CrossView\<close>: what a node committed stays in its in-flight data until it is decided, so the view data it sends reports it; a
    decision of the old view is the proposal the new view starts with.
  \<^item> \<open>ClientRequests\<close>: \<open>PartitionedProcessor\<close> of util.go. The requests of a node are handled in order, at most once.
  \<^item> \<open>Controller\<close>: internal/bft/controller.go. \<open>ControllerRuns\<close> interleaves its methods in \<open>ctl_step\<close>; \<open>ControllerProperties\<close>: what is
    delivered is certified, view numbers never decrease, the leader of the view is the one elected, and what a synchronization
    returns. The view changer runs beside the controller; what it delivers itself is the subject of \<open>Delivery\<close> and \<open>ViewChange\<close>.
  \<^item> \<open>Consensus\<close>, \<open>ConsensusProperties\<close>: pkg/consensus/consensus.go. A start begins after the last decision; a reconfiguration moves
    every component to the new cluster and keeps the pending requests.
  \<^item> \<open>Scheduler\<close>: internal/bft/sched.go. The heap is a priority queue (locale \<open>priority_queue\<close>); every task runs at most once, not
    before its deadline and not after it was stopped.

  \<^bold>\<open>Bounds.\<close> Loops of the code are recursive functions that are proved to end, except \<open>newViewLoop\<close>, which takes fuel: one
  round more than the message has view data is enough (\<open>new_view_loop_ends\<close>). Loops that wait on channels consume a
  list of events or choices; a wait that the list does not end is the value \<open>Blocked\<close> or leaves the goroutine where it is. Counters
  that the code keeps in an \<open>int\<close> and that are bounded by lengths are \<open>nat\<close> or \<open>int\<close>.

  \<^bold>\<open>Findings.\<close> Beside the properties, lemmas on concrete states record where the code does not do what it means to: two
  goroutines that wait for each other (\<open>deciding_controller_can_block\<close>, \<open>timeout_while_view_reports_blocks\<close>,
  \<open>reconfig_deadlocks_with_complaint\<close>, \<open>abort_blocks_without_metrics_file\<close>), leaders that differ (\<open>released_node_splits_leaders\<close>), stale
  proposals after a restart or a reconfiguration (\<open>restored_proposal_may_be_stale\<close>, \<open>reconfig_restores_delivered_proposal\<close>), duplicate view
  data (\<open>duplicate_view_data_drops_proposal\<close>, \<open>undecodable_duplicate_panics\<close>), and others in the theories of the components.

  \<^bold>\<open>Not modelled.\<close> Logging, the printing of messages for it (\<open>MsgToString\<close> and its helpers) and the metrics (pkg/api/metrics.go, pkg/metrics,
  pkg/wal/metrics.go) do not influence the protocol. The interfaces of pkg/api are parameters. smartbftprotos is
  generated. The chain under examples/ is a demonstration on top of the library; mocks and tests are left out. The write ahead log
  assumes that the operations of the operating system succeed. Timers and tickers fire when an event says so; real time
  is not modelled. Agreement is proved within a view and from a view to the next one through
  the view data (\<open>decision_survives_view_change\<close>); liveness of the whole protocol under partial synchrony is not stated.
\<close>

end
